(* ===== verification/Prelude.thy ===== *)
theory Prelude
  imports Main "HOL-Library.Word"
begin

unbundle bit_operations_syntax

text \<open>
  Shared vocabulary of the development: Go's bytes and slices, big-endian integer
  codecs (\<^verbatim>\<open>encoding/binary\<close>), the three ways a Go call can end, and the lemma
  collections the component theories add to.
\<close>

named_theorems codec \<open>round trips and lengths of the byte codecs\<close>
named_theorems frame \<open>fields an operation leaves alone\<close>

type_synonym byte = "8 word"
type_synonym bytes = "byte list"

section \<open>How a Go call ends\<close>

text \<open>
  A call returns a value, returns a non-nil \<^verbatim>\<open>error\<close> (kept as its text, because the
  server inspects it with \<^verbatim>\<open>strings.Contains\<close>), or panics.
\<close>

datatype 'a outcome = Ok 'a | Err string | Panic

fun bindO :: "'a outcome \<Rightarrow> ('a \<Rightarrow> 'b outcome) \<Rightarrow> 'b outcome" where
  "bindO (Ok x) f = f x"
| "bindO (Err e) f = Err e"
| "bindO Panic f = Panic"

fun mapErr :: "(string \<Rightarrow> string) \<Rightarrow> 'a outcome \<Rightarrow> 'a outcome" where
  "mapErr w (Ok x) = Ok x"
| "mapErr w (Err e) = Err (w e)"
| "mapErr w Panic = Panic"

lemma bindO_eq_Ok_iff [simp]: "bindO m f = Ok y \<longleftrightarrow> (\<exists>x. m = Ok x \<and> f x = Ok y)"
  by (cases m) auto

lemma mapErr_eq_Ok_iff [simp]: "mapErr w m = Ok y \<longleftrightarrow> m = Ok y"
  by (cases m) auto

section \<open>Strings\<close>

fun starts_with :: "string \<Rightarrow> string \<Rightarrow> bool" where
  "starts_with [] ys = True"
| "starts_with (x # xs) [] = False"
| "starts_with (x # xs) (y # ys) = (x = y \<and> starts_with xs ys)"

text \<open>\<^verbatim>\<open>strings.Contains(s, sub)\<close>\<close>

fun str_contains :: "string \<Rightarrow> string \<Rightarrow> bool" where
  "str_contains [] sub = (sub = [])"
| "str_contains (c # s) sub = (starts_with sub (c # s) \<or> str_contains s sub)"

text \<open>\<^verbatim>\<open>fmt\<close>'s \<^verbatim>\<open>%d\<close> for a non-negative number and \<^verbatim>\<open>%02x\<close> for a byte.\<close>

fun dec_str :: "nat \<Rightarrow> string" where
  "dec_str n = (if n < 10 then [char_of (48 + n)] else dec_str (n div 10) @ [char_of (48 + n mod 10)])"

declare dec_str.simps [simp del]

definition int_str :: "int \<Rightarrow> string" where
  "int_str i = (if i < 0 then ''-'' @ dec_str (nat (- i)) else dec_str (nat i))"

definition hex_digit :: "nat \<Rightarrow> char" where
  "hex_digit n = char_of (if n < 10 then 48 + n else 87 + n)"

definition hex_byte :: "byte \<Rightarrow> string" where
  "hex_byte b = [hex_digit (unat b div 16), hex_digit (unat b mod 16)]"

text \<open>\<^verbatim>\<open>[]byte(s)\<close>: Go strings are byte sequences.\<close>

definition str_bytes :: "string \<Rightarrow> bytes" where
  "str_bytes s = map of_char s"

lemma starts_with_append [simp]: "starts_with xs (xs @ ys)"
  by (induction xs) auto

lemma starts_with_iff: "starts_with xs ys \<longleftrightarrow> take (length xs) ys = xs"
  by (induction xs ys rule: starts_with.induct) auto

section \<open>Slices\<close>

text \<open>\<^verbatim>\<open>xs[a:b]\<close> for \<open>a \<le> b \<le> len xs\<close>; the models test the bounds where the code can
  leave them.\<close>

definition slice_of :: "'a list \<Rightarrow> nat \<Rightarrow> nat \<Rightarrow> 'a list" where
  "slice_of xs a b = take (b - a) (drop a xs)"

lemma length_slice_of [simp]: "b \<le> length xs \<Longrightarrow> length (slice_of xs a b) = b - a"
  by (simp add: slice_of_def)

lemma slice_of_append_left: "b \<le> length xs \<Longrightarrow> slice_of (xs @ ys) a b = slice_of xs a b"
  by (simp add: slice_of_def)

lemma slice_of_append_mid [codec]:
  "length xs = a \<Longrightarrow> b = a + length ys \<Longrightarrow> slice_of (xs @ ys @ zs) a b = ys"
  by (simp add: slice_of_def)

lemma slice_of_append_end [codec]:
  "length xs = a \<Longrightarrow> b = a + length ys \<Longrightarrow> slice_of (xs @ ys) a b = ys"
  by (simp add: slice_of_def)

lemma slice_of_append_first [codec]: "b = length xs \<Longrightarrow> slice_of (xs @ ys) 0 b = xs"
  by (simp add: slice_of_def)

section \<open>Big-endian integers\<close>

definition be16 :: "16 word \<Rightarrow> bytes" where
  "be16 w = [ucast (drop_bit 8 w), ucast w]"

definition be32 :: "32 word \<Rightarrow> bytes" where
  "be32 w = [ucast (drop_bit 24 w), ucast (drop_bit 16 w), ucast (drop_bit 8 w), ucast w]"

definition be64 :: "64 word \<Rightarrow> bytes" where
  "be64 w = be32 (ucast (drop_bit 32 w)) @ be32 (ucast w)"

text \<open>Readers look at the first bytes of the slice they are given.\<close>

definition get16 :: "bytes \<Rightarrow> 16 word" where
  "get16 xs = push_bit 8 (ucast (xs ! 0)) OR ucast (xs ! 1)"

definition get32 :: "bytes \<Rightarrow> 32 word" where
  "get32 xs = push_bit 24 (ucast (xs ! 0)) OR push_bit 16 (ucast (xs ! 1))
    OR push_bit 8 (ucast (xs ! 2)) OR ucast (xs ! 3)"

lemma length_be16 [simp]: "length (be16 w) = 2"
  by (simp add: be16_def)

lemma length_be32 [simp]: "length (be32 w) = 4"
  by (simp add: be32_def)

lemma length_be64 [simp]: "length (be64 w) = 8"
  by (simp add: be64_def)

lemma get16_be16 [codec, simp]: "get16 (be16 w @ rest) = w"
  by (rule bit_word_eqI) (auto simp: get16_def be16_def bit_simps)

lemma get16_be16_only [codec, simp]: "get16 (be16 w) = w"
  using get16_be16 [of w "[]"] by simp

lemma get32_be32 [codec, simp]: "get32 (be32 w @ rest) = w"
proof (rule bit_word_eqI)
  fix n assume "n < LENGTH(32)"
  then consider "n < 8" | "8 \<le> n" "n < 16" | "16 \<le> n" "n < 24" | "24 \<le> n" "n < 32"
    by fastforce
  then show "bit (get32 (be32 w @ rest)) n \<longleftrightarrow> bit w n"
    by cases (auto simp: get32_def be32_def bit_simps less_diff_conv2)
qed

lemma get32_be32_only [codec, simp]: "get32 (be32 w) = w"
  using get32_be32 [of w "[]"] by simp

lemma be16_inject [simp]: "be16 v = be16 w \<longleftrightarrow> v = w"
  by (metis get16_be16_only)

lemma be32_inject [simp]: "be32 v = be32 w \<longleftrightarrow> v = w"
  by (metis get32_be32_only)

lemma be64_inject [simp]: "be64 v = be64 w \<longleftrightarrow> v = w"
proof
  assume "be64 v = be64 w"
  then have hi: "ucast (drop_bit 32 v) = (ucast (drop_bit 32 w) :: 32 word)"
    and lo: "(ucast v :: 32 word) = ucast w"
    by (simp_all add: be64_def)
  show "v = w"
  proof (rule bit_word_eqI)
    fix n assume n: "n < LENGTH(64)"
    have "bit (ucast (drop_bit 32 v) :: 32 word) (n - 32) = bit (ucast (drop_bit 32 w) :: 32 word) (n - 32)"
      and "bit (ucast v :: 32 word) n = bit (ucast w :: 32 word) n"
      by (simp_all only: hi lo)
    with n show "bit v n = bit w n"
      by (cases "n < 32") (auto simp: bit_simps)
  qed
qed simp

lemma get16_take: "2 \<le> n \<Longrightarrow> 2 \<le> length xs \<Longrightarrow> get16 (take n xs) = get16 xs"
  by (simp add: get16_def)

lemma be16_get16: "length xs = 2 \<Longrightarrow> be16 (get16 xs) = xs"
proof -
  assume "length xs = 2"
  then obtain a b where xs: "xs = [a, b]"
    by (metis (no_types, lifting) One_nat_def Suc_1 length_0_conv length_Suc_conv)
  have "ucast (drop_bit 8 (push_bit 8 (ucast a) OR ucast b :: 16 word)) = a"
    and "ucast (push_bit 8 (ucast a) OR ucast b :: 16 word) = b"
    by (rule bit_word_eqI; auto simp: bit_simps dest: bit_imp_le_length)+
  then show ?thesis by (simp add: xs be16_def get16_def)
qed

lemma xor_cancel_right [simp]: "(a XOR b) XOR b = (a :: 'n::len word)"
  by (simp add: xor.assoc)

lemma unat16_less: "unat (w :: 16 word) < 65536"
  using unsigned_less [of w] by simp

lemma unat_of_nat16: "n < 65536 \<Longrightarrow> unat (of_nat n :: 16 word) = n"
  by (simp add: unat_of_nat take_bit_nat_eq_self)

end
