(* ===== verification/Config.thy ===== *)
theory Config
  imports Prelude
begin

text \<open>
  \<^verbatim>\<open>protocol/config.go\<close>, the server's \<^verbatim>\<open>loadConfig\<close> and the defaults of
  \<^verbatim>\<open>StartVPN\<close> (\<^verbatim>\<open>core/gomobile.go\<close>): configuration records and their defaults.
  Reading a file and decoding JSON into a record are parameters.
\<close>

record User =
  u_ShortID :: "16 word"
  u_Name :: string
  u_SecretKey :: string
  u_IP :: string

record Config =
  cfg_ProfileName :: string
  cfg_ServerIP :: string
  cfg_Port :: int
  cfg_WSPort :: int
  cfg_ShortID :: "16 word"
  cfg_SecretKey :: string
  cfg_RoutingSalt :: string
  cfg_InternalIP :: string
  cfg_GatewayIP :: string
  cfg_DNS :: string
  cfg_FEC :: int
  cfg_MTU :: int
  cfg_AdminPort :: int
  cfg_AdminToken :: string
  cfg_AdminPath :: string
  cfg_NoEncrypt :: bool
  cfg_LogFile :: string
  cfg_Users :: "User list"
  cfg_Transport :: string
  cfg_CDNDomain :: string
  cfg_TLSCertFile :: string
  cfg_TLSKeyFile :: string
  cfg_TransportPriority :: "string list"
  cfg_BypassMode :: string
  cfg_BypassCIDRs :: "string list"
  cfg_VPNCIDRs :: "string list"

text \<open>The zero value \<^verbatim>\<open>Config{}\<close>.\<close>

definition zero_Config :: Config where
  "zero_Config =
     \<lparr>cfg_ProfileName = [], cfg_ServerIP = [], cfg_Port = 0, cfg_WSPort = 0, cfg_ShortID = 0,
      cfg_SecretKey = [], cfg_RoutingSalt = [], cfg_InternalIP = [], cfg_GatewayIP = [],
      cfg_DNS = [], cfg_FEC = 0, cfg_MTU = 0, cfg_AdminPort = 0, cfg_AdminToken = [],
      cfg_AdminPath = [], cfg_NoEncrypt = False, cfg_LogFile = [], cfg_Users = [],
      cfg_Transport = [], cfg_CDNDomain = [], cfg_TLSCertFile = [], cfg_TLSKeyFile = [],
      cfg_TransportPriority = [], cfg_BypassMode = [], cfg_BypassCIDRs = [], cfg_VPNCIDRs = []\<rparr>"

text \<open>Each assignment guards and sets one field, so their order does not matter.\<close>

definition SetDefaults :: "Config \<Rightarrow> Config" where
  "SetDefaults c =
     c\<lparr>cfg_Port := (if cfg_Port c = 0 then 19999 else cfg_Port c),
        cfg_WSPort := (if cfg_WSPort c = 0 then 19998 else cfg_WSPort c),
        cfg_RoutingSalt := (if cfg_RoutingSalt c = [] then ''HastaVaquetGlobal'' else cfg_RoutingSalt c),
        cfg_GatewayIP := (if cfg_GatewayIP c = [] then ''192.168.100.1'' else cfg_GatewayIP c),
        cfg_DNS := (if cfg_DNS c = [] then ''1.1.1.1'' else cfg_DNS c),
        cfg_MTU := (if cfg_MTU c = 0 then 1300 else cfg_MTU c),
        cfg_FEC := (if cfg_FEC c < 1 \<or> cfg_FEC c > 5 then 1 else cfg_FEC c),
        cfg_AdminPort := (if cfg_AdminPort c = 0 then 9998 else cfg_AdminPort c),
        cfg_AdminPath := (if cfg_AdminPath c = [] then ''/hasta-vaquet'' else cfg_AdminPath c),
        cfg_LogFile := (if cfg_LogFile c = [] then ''server.log'' else cfg_LogFile c),
        cfg_Transport := (if cfg_Transport c = [] then ''auto'' else cfg_Transport c),
        cfg_TransportPriority := (if cfg_TransportPriority c = [] then [''wss'', ''udp''] else cfg_TransportPriority c)\<rparr>"

text \<open>
  \<open>file\<close>: what \<^verbatim>\<open>os.Open\<close> finds at a path; \<open>decode\<close>: what \<^verbatim>\<open>Decode(&cfg)\<close> leaves in
  the record it is given (its error is dropped by the code). Both results are returned.
\<close>

definition LoadConfig ::
  "(string \<Rightarrow> string + string) \<Rightarrow> (string \<Rightarrow> Config \<Rightarrow> Config) \<Rightarrow> string \<Rightarrow> Config \<times> string option" where
  "LoadConfig file decode path =
     (case file path of
        Inl err \<Rightarrow> (zero_Config, Some err)
      | Inr content \<Rightarrow> (SetDefaults (decode content zero_Config), None))"

text \<open>
  The server's \<^verbatim>\<open>loadConfig\<close>: a load error is only logged, the \<^verbatim>\<open>-port\<close> flag overrides,
  and \<^verbatim>\<open>log.Fatal\<close> (here \<open>Err\<close>) ends the process when no user is configured.
\<close>

definition server_loadConfig ::
  "(string \<Rightarrow> string + string) \<Rightarrow> (string \<Rightarrow> Config \<Rightarrow> Config) \<Rightarrow> int \<Rightarrow> string \<Rightarrow> Config outcome" where
  "server_loadConfig file decode port configFile =
     (let (cfg, _) = LoadConfig file decode configFile;
          cfg = (if port > 0 then cfg\<lparr>cfg_Port := port\<rparr> else cfg);
          cfg = SetDefaults cfg
      in if cfg_Users cfg = [] then Err ''no users in config'' else Ok cfg)"

text \<open>The defaults \<^verbatim>\<open>StartVPN\<close> fills in for Android.\<close>

definition android_defaults :: "Config \<Rightarrow> Config" where
  "android_defaults c =
     c\<lparr>cfg_Port := (if cfg_Port c = 0 then 19999 else cfg_Port c),
        cfg_RoutingSalt := (if cfg_RoutingSalt c = [] then ''HastaVaquetGlobal'' else cfg_RoutingSalt c),
        cfg_InternalIP := (if cfg_InternalIP c = [] then ''10.0.0.10'' else cfg_InternalIP c),
        cfg_GatewayIP := (if cfg_GatewayIP c = [] then ''192.168.100.1'' else cfg_GatewayIP c),
        cfg_DNS := (if cfg_DNS c = [] then ''1.1.1.1'' else cfg_DNS c),
        cfg_FEC := (if cfg_FEC c < 1 \<or> cfg_FEC c > 5 then 1 else cfg_FEC c)\<rparr>"

text \<open>The clamp every sender applies to the configured duplication factor.\<close>

definition clamp_fec :: "int \<Rightarrow> nat" where
  "clamp_fec fec =
     (let f = (if fec < 1 then 1 else fec); f = (if f > 5 then 5 else f) in nat f)"

section \<open>What the defaults guarantee\<close>

definition config_valid :: "Config \<Rightarrow> bool" where
  "config_valid c \<longleftrightarrow> cfg_Port c \<noteq> 0 \<and> cfg_WSPort c \<noteq> 0 \<and> cfg_RoutingSalt c \<noteq> [] \<and> cfg_GatewayIP c \<noteq> []
     \<and> cfg_DNS c \<noteq> [] \<and> cfg_MTU c \<noteq> 0 \<and> 1 \<le> cfg_FEC c \<and> cfg_FEC c \<le> 5 \<and> cfg_AdminPort c \<noteq> 0
     \<and> cfg_AdminPath c \<noteq> [] \<and> cfg_LogFile c \<noteq> [] \<and> cfg_Transport c \<noteq> [] \<and> cfg_TransportPriority c \<noteq> []"

lemma SetDefaults_select [simp]:
  "cfg_Port (SetDefaults c) = (if cfg_Port c = 0 then 19999 else cfg_Port c)"
  "cfg_WSPort (SetDefaults c) = (if cfg_WSPort c = 0 then 19998 else cfg_WSPort c)"
  "cfg_RoutingSalt (SetDefaults c) = (if cfg_RoutingSalt c = [] then ''HastaVaquetGlobal'' else cfg_RoutingSalt c)"
  "cfg_GatewayIP (SetDefaults c) = (if cfg_GatewayIP c = [] then ''192.168.100.1'' else cfg_GatewayIP c)"
  "cfg_DNS (SetDefaults c) = (if cfg_DNS c = [] then ''1.1.1.1'' else cfg_DNS c)"
  "cfg_MTU (SetDefaults c) = (if cfg_MTU c = 0 then 1300 else cfg_MTU c)"
  "cfg_FEC (SetDefaults c) = (if cfg_FEC c < 1 \<or> cfg_FEC c > 5 then 1 else cfg_FEC c)"
  "cfg_AdminPort (SetDefaults c) = (if cfg_AdminPort c = 0 then 9998 else cfg_AdminPort c)"
  "cfg_AdminPath (SetDefaults c) = (if cfg_AdminPath c = [] then ''/hasta-vaquet'' else cfg_AdminPath c)"
  "cfg_LogFile (SetDefaults c) = (if cfg_LogFile c = [] then ''server.log'' else cfg_LogFile c)"
  "cfg_Transport (SetDefaults c) = (if cfg_Transport c = [] then ''auto'' else cfg_Transport c)"
  "cfg_TransportPriority (SetDefaults c)
     = (if cfg_TransportPriority c = [] then [''wss'', ''udp''] else cfg_TransportPriority c)"
  by (simp_all add: SetDefaults_def)

lemma SetDefaults_frame [simp]:
  "cfg_Users (SetDefaults c) = cfg_Users c"
  "cfg_CDNDomain (SetDefaults c) = cfg_CDNDomain c"
  "cfg_SecretKey (SetDefaults c) = cfg_SecretKey c"
  "cfg_ShortID (SetDefaults c) = cfg_ShortID c"
  "cfg_NoEncrypt (SetDefaults c) = cfg_NoEncrypt c"
  "cfg_AdminToken (SetDefaults c) = cfg_AdminToken c"
  by (simp_all add: SetDefaults_def)

lemma config_valid_SetDefaults: "config_valid (SetDefaults c)"
  by (simp add: config_valid_def)

lemma SetDefaults_valid_id: "config_valid c \<Longrightarrow> SetDefaults c = c"
  by (simp add: SetDefaults_def config_valid_def)

lemma clamp_fec_range: "1 \<le> clamp_fec f \<and> clamp_fec f \<le> 5"
  by (auto simp: clamp_fec_def Let_def)

lemma clamp_fec_id: "1 \<le> f \<Longrightarrow> f \<le> 5 \<Longrightarrow> int (clamp_fec f) = f"
  by (simp add: clamp_fec_def)

text \<open>
  SetDefaults always yields a complete configuration (ports, salt, addresses, MTU,
  a duplication factor between 1 and 5, a transport and a non-empty priority list), and it
  changes a configuration exactly when that configuration was not complete; so applying it
  twice, as the server does, changes nothing.
\<close>

theorem set_defaults_normalises:
  "config_valid (SetDefaults c) \<and> SetDefaults (SetDefaults c) = SetDefaults c
   \<and> (SetDefaults c = c \<longleftrightarrow> config_valid c)"
  by (metis config_valid_SetDefaults SetDefaults_valid_id)

text \<open>
  A configuration the server starts with is complete and has at least one user,
  whatever the file holds and whether or not it could be read; without users the server
  refuses to start.
\<close>

theorem server_config_complete:
  "(\<exists>cfg. server_loadConfig file decode port path = Ok cfg \<and> config_valid cfg \<and> cfg_Users cfg \<noteq> []
      \<and> (port > 0 \<longrightarrow> cfg_Port cfg = port))
   \<or> (\<exists>e. server_loadConfig file decode port path = Err e)
      \<and> cfg_Users (fst (LoadConfig file decode path)) = []"
proof -
  obtain c0 e where L: "LoadConfig file decode path = (c0, e)" by fastforce
  define c where "c = (if port > 0 then c0\<lparr>cfg_Port := port\<rparr> else c0)"
  have u: "cfg_Users c = cfg_Users c0" by (simp add: c_def)
  have s: "server_loadConfig file decode port path
      = (if cfg_Users c0 = [] then Err ''no users in config'' else Ok (SetDefaults c))"
    by (simp add: server_loadConfig_def L Let_def c_def)
  have p: "port > 0 \<longrightarrow> cfg_Port (SetDefaults c) = port" by (simp add: c_def)
  show ?thesis
  proof (cases "cfg_Users c0 = []")
    case True
    then show ?thesis using s L by simp
  next
    case False
    then show ?thesis using s p u config_valid_SetDefaults [of c] by simp
  qed
qed

theorem server_config_complete_witness:
  "\<exists>cfg. server_loadConfig (\<lambda>_. Inr []) (\<lambda>_ c. c\<lparr>cfg_Users := [\<lparr>u_ShortID = 3, u_Name = [], u_SecretKey = ''k'', u_IP = ''10.0.0.3''\<rparr>]\<rparr>)
      4433 ''server_config.json'' = Ok cfg \<and> config_valid cfg \<and> cfg_Port cfg = 4433"
  using server_config_complete [of "\<lambda>_. Inr []"
      "\<lambda>_ c. c\<lparr>cfg_Users := [\<lparr>u_ShortID = 3, u_Name = [], u_SecretKey = ''k'', u_IP = ''10.0.0.3''\<rparr>]\<rparr>" 4433 "''server_config.json''"]
  by (auto simp: LoadConfig_def)

end
