(* ===== verification/Transport.thy ===== *)
theory Transport
  imports Config
begin

text \<open>
  \<^verbatim>\<open>core/transport.go\<close> (\<^verbatim>\<open>TransportManager\<close>) and the factory and automatic dialler of
  \<^verbatim>\<open>protocol/transport.go\<close>: which transports are tried, in which order, and what the
  manager holds afterwards. The network is a function \<open>net\<close> that says whether attempt
  number \<open>n\<close> succeeds; a connection is named by the attempt that made it.
\<close>

section \<open>Dialling\<close>

datatype dial_req =
    DialWSS string int string   \<comment> \<open>host, port, TLS server name\<close>
  | DialWS string int
  | DialQUICUDP string int "16 word" string
  | DialRawUDP string int
  | DialXHTTP string int

type_synonym conn = "nat \<times> dial_req"

text \<open>\<open>net n r\<close> is the error text of attempt \<open>n\<close>, None when it succeeds.\<close>

type_synonym net = "nat \<Rightarrow> dial_req \<Rightarrow> string option"

definition dial_net :: "net \<Rightarrow> nat \<Rightarrow> dial_req \<Rightarrow> string + conn" where
  "dial_net net n r = (case net n r of None \<Rightarrow> Inr (n, r) | Some e \<Rightarrow> Inl e)"

text \<open>\<^verbatim>\<open>DialXHTTP\<close> only builds the object, so it cannot fail.\<close>

definition dialTransport :: "net \<Rightarrow> Config \<Rightarrow> nat \<Rightarrow> string \<Rightarrow> string + conn" where
  "dialTransport net cfg n transport =
     (if transport = ''wss'' then
        (if cfg_CDNDomain cfg \<noteq> [] then dial_net net n (DialWSS (cfg_CDNDomain cfg) 443 (cfg_CDNDomain cfg))
         else dial_net net n (DialWSS (cfg_ServerIP cfg) (cfg_Port cfg) (cfg_ServerIP cfg)))
      else if transport = ''ws'' then
        (let wsPort = (if cfg_WSPort cfg = 0 then 19998 else cfg_WSPort cfg)
         in dial_net net n (DialWS (cfg_ServerIP cfg) wsPort))
      else if transport = ''quic'' then
        dial_net net n (DialQUICUDP (cfg_ServerIP cfg) (cfg_Port cfg) (cfg_ShortID cfg) (cfg_SecretKey cfg))
      else if transport = ''udp'' then dial_net net n (DialRawUDP (cfg_ServerIP cfg) (cfg_Port cfg))
      else if transport = ''xhttp'' then Inr (n, DialXHTTP (cfg_ServerIP cfg) (cfg_WSPort cfg + 1))
      else Inl (''unknown transport: '' @ transport))"

definition resolvePriorities :: "Config \<Rightarrow> string list" where
  "resolvePriorities cfg =
     (if cfg_Transport cfg \<noteq> [] \<and> cfg_Transport cfg \<noteq> ''auto'' then [cfg_Transport cfg]
      else if length (cfg_TransportPriority cfg) > 0 then cfg_TransportPriority cfg
      else if cfg_CDNDomain cfg \<noteq> [] then [''wss'', ''udp'']
      else [''udp''])"

text \<open>
  The loop both diallers share: try in order, keep the last error. The result is the
  connection and its transport, or the last error (None when nothing was tried), and the
  number of attempts so far.
\<close>

fun dial_loop ::
  "(nat \<Rightarrow> string \<Rightarrow> string + 'c) \<Rightarrow> nat \<Rightarrow> string list \<Rightarrow> string option
     \<Rightarrow> (string option + 'c \<times> string) \<times> nat" where
  "dial_loop f n [] lastErr = (Inl lastErr, n)"
| "dial_loop f n (t # ts) lastErr =
     (case f n t of
        Inr c \<Rightarrow> (Inr (c, t), Suc n)
      | Inl e \<Rightarrow> dial_loop f (Suc n) ts (Some e))"

text \<open>How \<^verbatim>\<open>%w\<close> prints the last error.\<close>

fun wrap_last :: "string option \<Rightarrow> string" where
  "wrap_last None = ''%!w(<nil>)''"
| "wrap_last (Some e) = e"

section \<open>The manager\<close>

record TransportManager =
  tm_config :: Config
  tm_conn :: "conn option"
  tm_active :: string
  tm_attempts :: nat
  tm_closed :: "conn list"

definition NewTransportManager :: "Config \<Rightarrow> TransportManager" where
  "NewTransportManager cfg =
     \<lparr>tm_config = cfg, tm_conn = None, tm_active = [], tm_attempts = 0, tm_closed = []\<rparr>"

definition tm_Dial :: "net \<Rightarrow> TransportManager \<Rightarrow> (string + conn \<times> string) \<times> TransportManager" where
  "tm_Dial net tm =
     (case dial_loop (dialTransport net (tm_config tm)) (tm_attempts tm) (resolvePriorities (tm_config tm)) None of
        (Inr (c, t), n) \<Rightarrow>
          (Inr (c, t), tm\<lparr>tm_conn := Some c, tm_active := t, tm_attempts := n\<rparr>)
      | (Inl lastErr, n) \<Rightarrow>
          (Inl (''all transports failed, last error: '' @ wrap_last lastErr), tm\<lparr>tm_attempts := n\<rparr>))"

text \<open>\<^verbatim>\<open>start\<close>: one past the first occurrence of the active transport, 0 if it is absent.\<close>

fun fallback_start :: "string \<Rightarrow> nat \<Rightarrow> nat \<Rightarrow> string list \<Rightarrow> nat" where
  "fallback_start active len i [] = 0"
| "fallback_start active len i (t # ts) =
     (if t = active then (i + 1) mod len else fallback_start active len (i + 1) ts)"

fun fallback_loop ::
  "(nat \<Rightarrow> string \<Rightarrow> string + 'c) \<Rightarrow> nat \<Rightarrow> string list \<Rightarrow> string \<Rightarrow> nat \<Rightarrow> nat list \<Rightarrow> string option
     \<Rightarrow> (string option + 'c \<times> string) \<times> nat" where
  "fallback_loop f n ps active start [] lastErr = (Inl lastErr, n)"
| "fallback_loop f n ps active start (i # js) lastErr =
     (let t = ps ! ((start + i) mod length ps)
      in if t = active then fallback_loop f n ps active start js lastErr
         else case f n t of
                Inr c \<Rightarrow> (Inr (c, t), Suc n)
              | Inl e \<Rightarrow> fallback_loop f (Suc n) ps active start js (Some e))"

definition tm_Fallback :: "net \<Rightarrow> TransportManager \<Rightarrow> (string + conn \<times> string) \<times> TransportManager" where
  "tm_Fallback net tm =
     (let ps = resolvePriorities (tm_config tm);
          start = fallback_start (tm_active tm) (length ps) 0 ps
      in case fallback_loop (dialTransport net (tm_config tm)) (tm_attempts tm) ps (tm_active tm) start
                [0..<length ps] None of
           (Inr (c, t), n) \<Rightarrow>
             (Inr (c, t),
              tm\<lparr>tm_closed := (case tm_conn tm of None \<Rightarrow> [] | Some old \<Rightarrow> [old]) @ tm_closed tm,
                 tm_conn := Some c, tm_active := t, tm_attempts := n\<rparr>)
         | (Inl lastErr, n) \<Rightarrow>
             (Inl (''fallback failed, last error: '' @ wrap_last lastErr), tm\<lparr>tm_attempts := n\<rparr>))"

section \<open>The factory of the protocol package\<close>

datatype transport_kind = WSS | UDP

definition NewTransport :: "string \<Rightarrow> transport_kind" where
  "NewTransport transportType =
     (if transportType = ''wss'' then WSS
      else if transportType = ''udp'' \<or> transportType = ''quic'' then UDP
      else UDP)"

text \<open>\<open>wss\<close>: the registered dial function, if any; \<open>udp\<close>: the UDP dialler.\<close>

definition DialAuto ::
  "(nat \<Rightarrow> string + 'c) option \<Rightarrow> (nat \<Rightarrow> string + 'c) \<Rightarrow> string list \<Rightarrow> string + 'c \<times> string" where
  "DialAuto wss udp priority0 =
     (let priority = (if length priority0 = 0 then [''wss'', ''udp''] else priority0);
          dial = (\<lambda>n t. case NewTransport t of
                    UDP \<Rightarrow> udp n
                  | WSS \<Rightarrow> (case wss of
                      None \<Rightarrow> Inl ''WebSocket transport not available: gorilla/websocket not imported''
                    | Some d \<Rightarrow> d n))
      in case fst (dial_loop dial 0 priority None) of
           Inr (c, t) \<Rightarrow> Inr (c, t)
         | Inl lastErr \<Rightarrow> Inl (''all transports failed, last error: '' @ wrap_last lastErr))"

section \<open>The loop\<close>

lemma dial_loop_Inr_iff:
  "dial_loop f n ts e = (Inr (c, t), m) \<longleftrightarrow>
     (\<exists>k < length ts. t = ts ! k \<and> f (n + k) t = Inr c \<and> m = n + k + 1
        \<and> (\<forall>j < k. \<exists>e. f (n + j) (ts ! j) = Inl e))"
proof (induction f n ts e rule: dial_loop.induct)
  case (2 f n a ts e)
  show ?case
  proof (cases "f n a")
    case (Inr d)
    then show ?thesis by (auto simp: Ex_less_Suc2 All_less_Suc2)
  next
    case (Inl e')
    from "2.IH" [OF this] Inl show ?thesis
      by (auto simp: Ex_less_Suc2 All_less_Suc2)
  qed
qed simp

lemma dial_loop_Inl_iff:
  "(\<exists>e'. fst (dial_loop f n ts e) = Inl e') \<longleftrightarrow> (\<forall>j < length ts. \<exists>e. f (n + j) (ts ! j) = Inl e)"
  by (induction f n ts e rule: dial_loop.induct) (auto simp: All_less_Suc2 split: sum.splits)

lemma dial_loop_attempts: "n \<le> snd (dial_loop f n ts e) \<and> snd (dial_loop f n ts e) \<le> n + length ts"
  by (induction f n ts e rule: dial_loop.induct) (auto split: sum.splits)

text \<open>The fallback loop is the plain loop over the other transports, in cyclic order.\<close>

lemma fallback_loop_eq:
  "fallback_loop f n ps a s js e =
     dial_loop f n (filter (\<lambda>t. t \<noteq> a) (map (\<lambda>i. ps ! ((s + i) mod length ps)) js)) e"
  by (induction f n ps a s js e rule: fallback_loop.induct) (auto simp: Let_def split: sum.splits)

lemma map_cyclic: "map (\<lambda>i. ps ! ((s + i) mod length ps)) [0..<length ps] = rotate s ps"
  by (rule nth_equalityI) (simp_all add: nth_rotate)

lemma resolvePriorities_nonempty: "resolvePriorities cfg \<noteq> []"
  by (simp add: resolvePriorities_def)

lemma tm_Fallback_loop:
  "tm_Fallback net tm =
     (let ps = resolvePriorities (tm_config tm);
          others = filter (\<lambda>t. t \<noteq> tm_active tm) (rotate (fallback_start (tm_active tm) (length ps) 0 ps) ps)
      in case dial_loop (dialTransport net (tm_config tm)) (tm_attempts tm) others None of
           (Inr (c, t), n) \<Rightarrow>
             (Inr (c, t),
              tm\<lparr>tm_closed := (case tm_conn tm of None \<Rightarrow> [] | Some old \<Rightarrow> [old]) @ tm_closed tm,
                 tm_conn := Some c, tm_active := t, tm_attempts := n\<rparr>)
         | (Inl e, n) \<Rightarrow>
             (Inl (''fallback failed, last error: '' @ wrap_last e), tm\<lparr>tm_attempts := n\<rparr>))"
  by (simp add: tm_Fallback_def Let_def fallback_loop_eq map_cyclic)

lemma fallback_start_position:
  "fallback_start a len i ts =
     (if a \<in> set ts then (i + length (takeWhile (\<lambda>t. t \<noteq> a) ts) + 1) mod len else 0)"
  by (induction a len i ts rule: fallback_start.induct) auto

section \<open>Properties\<close>

text \<open>
  Dial connects through the first transport of the priority list whose attempt
  succeeds, having tried and failed every earlier one exactly once; it fails only when all
  of them failed, and then leaves connection and active transport alone.
\<close>

theorem dial_takes_first_success:
  "(\<exists>c k. let ps = resolvePriorities (tm_config tm); n = tm_attempts tm in
      k < length ps
      \<and> dialTransport net (tm_config tm) (n + k) (ps ! k) = Inr c
      \<and> (\<forall>j < k. \<exists>e. dialTransport net (tm_config tm) (n + j) (ps ! j) = Inl e)
      \<and> tm_Dial net tm = (Inr (c, ps ! k), tm\<lparr>tm_conn := Some c, tm_active := ps ! k, tm_attempts := n + k + 1\<rparr>))
   \<or> (\<forall>j < length (resolvePriorities (tm_config tm)).
        \<exists>e. dialTransport net (tm_config tm) (tm_attempts tm + j) (resolvePriorities (tm_config tm) ! j) = Inl e)
     \<and> (\<exists>e m. tm_Dial net tm = (Inl e, tm\<lparr>tm_attempts := m\<rparr>))"
proof -
  let ?ps = "resolvePriorities (tm_config tm)" and ?f = "dialTransport net (tm_config tm)"
  obtain r m where L: "dial_loop ?f (tm_attempts tm) ?ps None = (r, m)" by fastforce
  show ?thesis
  proof (cases r)
    case (Inr ct)
    then obtain c t where "r = Inr (c, t)" by (cases ct) simp
    with L dial_loop_Inr_iff [of ?f "tm_attempts tm" ?ps None c t m]
    obtain k where "k < length ?ps" "t = ?ps ! k" "?f (tm_attempts tm + k) (?ps ! k) = Inr c"
      "m = tm_attempts tm + k + 1" "\<forall>j < k. \<exists>e. ?f (tm_attempts tm + j) (?ps ! j) = Inl e"
      by blast
    with L \<open>r = Inr (c, t)\<close> show ?thesis
      by (intro disjI1 exI [of _ c] exI [of _ k]) (simp add: tm_Dial_def)
  next
    case (Inl e)
    with L dial_loop_Inl_iff [of ?f "tm_attempts tm" ?ps None]
    show ?thesis by (auto simp: tm_Dial_def)
  qed
qed

definition sample_tm :: TransportManager where
  "sample_tm = NewTransportManager (zero_Config\<lparr>cfg_TransportPriority := [''wss'', ''udp'']\<rparr>)"

theorem dial_takes_first_success_witness:
  "fst (tm_Dial (\<lambda>n r. if n = 0 then Some ''refused'' else None) sample_tm) = Inr ((1, DialRawUDP [] 0), ''udp'')"
  using dial_takes_first_success [of sample_tm "\<lambda>n r. if n = 0 then Some ''refused'' else None"]
  by (simp add: sample_tm_def NewTransportManager_def zero_Config_def tm_Dial_def resolvePriorities_def
      dialTransport_def dial_net_def)

text \<open>
  Fallback never returns the transport that was active: it tries the other entries of
  the priority list in cyclic order starting after the active one and takes the first that
  succeeds, closing the old connection only then; on failure the manager keeps its
  connection and active transport.
\<close>

theorem fallback_switches_transport:
  "(\<exists>c t m. tm_Fallback net tm =
        (Inr (c, t), tm\<lparr>tm_closed := (case tm_conn tm of None \<Rightarrow> [] | Some old \<Rightarrow> [old]) @ tm_closed tm,
                        tm_conn := Some c, tm_active := t, tm_attempts := m\<rparr>)
      \<and> t \<noteq> tm_active tm \<and> t \<in> set (resolvePriorities (tm_config tm))
      \<and> dial_loop (dialTransport net (tm_config tm)) (tm_attempts tm)
          (filter (\<lambda>t. t \<noteq> tm_active tm)
             (rotate (fallback_start (tm_active tm) (length (resolvePriorities (tm_config tm))) 0
                        (resolvePriorities (tm_config tm)))
                (resolvePriorities (tm_config tm)))) None = (Inr (c, t), m))
   \<or> (\<exists>e m. tm_Fallback net tm = (Inl e, tm\<lparr>tm_attempts := m\<rparr>))"
proof -
  let ?ps = "resolvePriorities (tm_config tm)"
  let ?others = "filter (\<lambda>t. t \<noteq> tm_active tm) (rotate (fallback_start (tm_active tm) (length ?ps) 0 ?ps) ?ps)"
  obtain r m where L: "dial_loop (dialTransport net (tm_config tm)) (tm_attempts tm) ?others None = (r, m)"
    by fastforce
  show ?thesis
  proof (cases r)
    case (Inr ct)
    then obtain c t where r: "r = Inr (c, t)" by (cases ct) simp
    from L r have "\<exists>k < length ?others. t = ?others ! k"
      by (auto simp: dial_loop_Inr_iff)
    then have "t \<in> set ?others" by (metis nth_mem)
    then have "t \<noteq> tm_active tm" "t \<in> set ?ps" by auto
    with L r show ?thesis by (auto simp: tm_Fallback_loop Let_def)
  next
    case (Inl e)
    with L show ?thesis by (auto simp: tm_Fallback_loop Let_def)
  qed
qed

text \<open>
  A client whose configuration pins one transport has no fallback: once that transport
  is the active one, Fallback fails without a single attempt.
\<close>

theorem pinned_transport_has_no_fallback:
  assumes "cfg_Transport (tm_config tm) \<notin> {[], ''auto''}" and "tm_active tm = cfg_Transport (tm_config tm)"
  shows "tm_Fallback net tm = (Inl ''fallback failed, last error: %!w(<nil>)'', tm)"
  using assms by (simp add: tm_Fallback_loop Let_def resolvePriorities_def)

theorem pinned_transport_has_no_fallback_witness:
  "tm_Fallback (\<lambda>n r. None) (sample_tm\<lparr>tm_config := zero_Config\<lparr>cfg_Transport := ''udp''\<rparr>, tm_active := ''udp''\<rparr>)
     = (Inl ''fallback failed, last error: %!w(<nil>)'',
        sample_tm\<lparr>tm_config := zero_Config\<lparr>cfg_Transport := ''udp''\<rparr>, tm_active := ''udp''\<rparr>)"
  by (rule pinned_transport_has_no_fallback) simp_all

text \<open>
  For every configuration that went through SetDefaults the list tried is the pinned
  transport, or the configured priorities, or WSS then UDP; the branches that look at the
  CDN domain are never reached.
\<close>

theorem priorities_of_loaded_config:
  "resolvePriorities (SetDefaults c) =
     (if cfg_Transport c \<notin> {[], ''auto''} then [cfg_Transport c]
      else if cfg_TransportPriority c \<noteq> [] then cfg_TransportPriority c
      else [''wss'', ''udp''])"
  by (simp add: resolvePriorities_def)

text \<open>
  DialAuto with an empty list tries the registered WebSocket dialler and then UDP, and
  every transport name other than \<^verbatim>\<open>wss\<close> is dialled as UDP.
\<close>

theorem dial_auto_default:
  "DialAuto wss udp [] =
     (case (case wss of None \<Rightarrow> Inl ''WebSocket transport not available: gorilla/websocket not imported'' | Some d \<Rightarrow> d 0) of
        Inr c \<Rightarrow> Inr (c, ''wss'')
      | Inl e \<Rightarrow> (case udp 1 of
          Inr c \<Rightarrow> Inr (c, ''udp'')
        | Inl e \<Rightarrow> Inl (''all transports failed, last error: '' @ e)))
   \<and> (t \<noteq> ''wss'' \<longrightarrow> NewTransport t = UDP)"
  by (auto simp: DialAuto_def NewTransport_def split: option.splits sum.splits)

theorem dial_auto_default_witness:
  "DialAuto None (\<lambda>n. Inr n) [] = Inr (1 :: nat, ''udp'') \<and> NewTransport ''ws'' = UDP"
  using dial_auto_default [of None "\<lambda>n. Inr n" "''ws''"] by simp

end
