(* ===== verification/Aes_Gcm.thy ===== *)
theory Aes_Gcm
  imports Prelude
begin

text \<open>
  AES (FIPS 197) with 128, 192 and 256 bit keys, and GCM (SP 800-38D) with 96-bit nonces,
  a 128-bit tag and no additional data: the parts of Go's \<^verbatim>\<open>crypto/aes\<close> and
  \<^verbatim>\<open>crypto/cipher\<close> the program calls. The GCM laws proved at the end hold for the mode
  over any block cipher, so no property of AES itself is assumed anywhere.
\<close>

section \<open>AES\<close>

definition sbox_rows :: "bytes list" where
  "sbox_rows =
  [[0x63, 0x7c, 0x77, 0x7b, 0xf2, 0x6b, 0x6f, 0xc5, 0x30, 0x01, 0x67, 0x2b, 0xfe, 0xd7, 0xab, 0x76],
   [0xca, 0x82, 0xc9, 0x7d, 0xfa, 0x59, 0x47, 0xf0, 0xad, 0xd4, 0xa2, 0xaf, 0x9c, 0xa4, 0x72, 0xc0],
   [0xb7, 0xfd, 0x93, 0x26, 0x36, 0x3f, 0xf7, 0xcc, 0x34, 0xa5, 0xe5, 0xf1, 0x71, 0xd8, 0x31, 0x15],
   [0x04, 0xc7, 0x23, 0xc3, 0x18, 0x96, 0x05, 0x9a, 0x07, 0x12, 0x80, 0xe2, 0xeb, 0x27, 0xb2, 0x75],
   [0x09, 0x83, 0x2c, 0x1a, 0x1b, 0x6e, 0x5a, 0xa0, 0x52, 0x3b, 0xd6, 0xb3, 0x29, 0xe3, 0x2f, 0x84],
   [0x53, 0xd1, 0x00, 0xed, 0x20, 0xfc, 0xb1, 0x5b, 0x6a, 0xcb, 0xbe, 0x39, 0x4a, 0x4c, 0x58, 0xcf],
   [0xd0, 0xef, 0xaa, 0xfb, 0x43, 0x4d, 0x33, 0x85, 0x45, 0xf9, 0x02, 0x7f, 0x50, 0x3c, 0x9f, 0xa8],
   [0x51, 0xa3, 0x40, 0x8f, 0x92, 0x9d, 0x38, 0xf5, 0xbc, 0xb6, 0xda, 0x21, 0x10, 0xff, 0xf3, 0xd2],
   [0xcd, 0x0c, 0x13, 0xec, 0x5f, 0x97, 0x44, 0x17, 0xc4, 0xa7, 0x7e, 0x3d, 0x64, 0x5d, 0x19, 0x73],
   [0x60, 0x81, 0x4f, 0xdc, 0x22, 0x2a, 0x90, 0x88, 0x46, 0xee, 0xb8, 0x14, 0xde, 0x5e, 0x0b, 0xdb],
   [0xe0, 0x32, 0x3a, 0x0a, 0x49, 0x06, 0x24, 0x5c, 0xc2, 0xd3, 0xac, 0x62, 0x91, 0x95, 0xe4, 0x79],
   [0xe7, 0xc8, 0x37, 0x6d, 0x8d, 0xd5, 0x4e, 0xa9, 0x6c, 0x56, 0xf4, 0xea, 0x65, 0x7a, 0xae, 0x08],
   [0xba, 0x78, 0x25, 0x2e, 0x1c, 0xa6, 0xb4, 0xc6, 0xe8, 0xdd, 0x74, 0x1f, 0x4b, 0xbd, 0x8b, 0x8a],
   [0x70, 0x3e, 0xb5, 0x66, 0x48, 0x03, 0xf6, 0x0e, 0x61, 0x35, 0x57, 0xb9, 0x86, 0xc1, 0x1d, 0x9e],
   [0xe1, 0xf8, 0x98, 0x11, 0x69, 0xd9, 0x8e, 0x94, 0x9b, 0x1e, 0x87, 0xe9, 0xce, 0x55, 0x28, 0xdf],
   [0x8c, 0xa1, 0x89, 0x0d, 0xbf, 0xe6, 0x42, 0x68, 0x41, 0x99, 0x2d, 0x0f, 0xb0, 0x54, 0xbb, 0x16]]"

definition sbox :: "byte \<Rightarrow> byte" where
  "sbox b = (sbox_rows ! unat (drop_bit 4 b)) ! unat (b AND 15)"

definition xtime :: "byte \<Rightarrow> byte" where
  "xtime b = (if bit b 7 then push_bit 1 b XOR 0x1b else push_bit 1 b)"

definition xor_bytes :: "bytes \<Rightarrow> bytes \<Rightarrow> bytes" where
  "xor_bytes xs ys = map2 (XOR) xs ys"

text \<open>The key schedule, newest word first, words as four bytes.\<close>

definition aes_next_word :: "nat \<Rightarrow> nat \<Rightarrow> byte \<Rightarrow> bytes list \<Rightarrow> bytes" where
  "aes_next_word nk i rcon ws =
     (let prev = ws ! 0; back = ws ! (nk - 1);
          t = (if i mod nk = 0
               then xor_bytes (map sbox (rotate1 prev)) [rcon, 0, 0, 0]
               else if nk > 6 \<and> i mod nk = 4 then map sbox prev else prev)
      in xor_bytes back t)"

fun aes_expand :: "nat \<Rightarrow> nat \<Rightarrow> nat \<Rightarrow> byte \<Rightarrow> bytes list \<Rightarrow> bytes list" where
  "aes_expand 0 nk i rcon ws = ws"
| "aes_expand (Suc n) nk i rcon ws =
     aes_expand n nk (Suc i) (if i mod nk = 0 then xtime rcon else rcon)
       (aes_next_word nk i rcon ws # ws)"

fun chunk4 :: "bytes \<Rightarrow> bytes list" where
  "chunk4 (a # b # c # d # rest) = [a, b, c, d] # chunk4 rest"
| "chunk4 xs = []"

definition aes_round_keys :: "bytes \<Rightarrow> bytes list" where
  "aes_round_keys k =
     (let nk = length k div 4; nr = nk + 6
      in rev (aes_expand (4 * (nr + 1) - nk) nk nk 1 (rev (chunk4 k))))"

fun mix_column :: "bytes \<Rightarrow> bytes" where
  "mix_column [a, b, c, d] =
     (let t = a XOR b XOR c XOR d
      in [a XOR t XOR xtime (a XOR b), b XOR t XOR xtime (b XOR c),
          c XOR t XOR xtime (c XOR d), d XOR t XOR xtime (d XOR a)])"
| "mix_column xs = xs"

fun shift_rows :: "bytes \<Rightarrow> bytes" where
  "shift_rows [a0, a1, a2, a3, b0, b1, b2, b3, c0, c1, c2, c3, d0, d1, d2, d3] =
     [a0, b1, c2, d3, b0, c1, d2, a3, c0, d1, a2, b3, d0, a1, b2, c3]"
| "shift_rows xs = xs"

text \<open>The remaining round keys, sixteen bytes (four words) each.\<close>

fun aes_rounds :: "bytes list \<Rightarrow> bytes \<Rightarrow> bytes" where
  "aes_rounds (k0 # k1 # k2 # k3 # ks) st =
     (let sub = shift_rows (map sbox st);
          mixed = (if ks = [] then sub else concat (map mix_column (chunk4 sub)))
      in aes_rounds ks (xor_bytes mixed (k0 @ k1 @ k2 @ k3)))"
| "aes_rounds ks st = st"

text \<open>\<^verbatim>\<open>block.Encrypt(dst, src)\<close> for a 16-byte \<open>src\<close>\<close>

definition aes_Encrypt :: "bytes \<Rightarrow> bytes \<Rightarrow> bytes" where
  "aes_Encrypt k src =
     (let rk = aes_round_keys k
      in aes_rounds (drop 4 rk) (xor_bytes src (concat (take 4 rk))))"

text \<open>\<^verbatim>\<open>aes.NewCipher\<close> accepts 16, 24 and 32 byte keys and fails otherwise.\<close>

definition aes_NewCipher_ok :: "bytes \<Rightarrow> bool" where
  "aes_NewCipher_ok k \<longleftrightarrow> length k \<in> {16, 24, 32}"

section \<open>GCM over a block cipher\<close>

text \<open>Multiplication in GF(2\<open>^128\<close>), most significant bit first.\<close>

fun gf_mul_loop :: "nat \<Rightarrow> 128 word \<Rightarrow> 128 word \<Rightarrow> 128 word \<Rightarrow> 128 word" where
  "gf_mul_loop 0 x v z = z"
| "gf_mul_loop (Suc n) x v z =
     gf_mul_loop n x
       (if bit v 0 then drop_bit 1 v XOR push_bit 120 0xe1 else drop_bit 1 v)
       (if bit x n then z XOR v else z)"

definition gf_mul :: "128 word \<Rightarrow> 128 word \<Rightarrow> 128 word" where
  "gf_mul x y = gf_mul_loop 128 x y 0"

definition get128 :: "bytes \<Rightarrow> 128 word" where
  "get128 xs = foldl (\<lambda>w b. push_bit 8 w OR ucast b) 0 xs"

definition be128 :: "128 word \<Rightarrow> bytes" where
  "be128 w = be64 (ucast (drop_bit 64 w)) @ be64 (ucast w)"

text \<open>Split into 16-byte blocks, the last one padded with zeros.\<close>

fun blocks16 :: "nat \<Rightarrow> bytes \<Rightarrow> bytes list" where
  "blocks16 0 xs = []"
| "blocks16 (Suc n) xs =
     (if xs = [] then []
      else (take 16 xs @ replicate (16 - length xs) 0) # blocks16 n (drop 16 xs))"

definition ghash :: "128 word \<Rightarrow> bytes list \<Rightarrow> 128 word" where
  "ghash h bs = foldl (\<lambda>y b. gf_mul (y XOR get128 b) h) 0 bs"

text \<open>Counter mode: block \<open>i\<close> of the key stream encrypts the nonce and the counter.\<close>

fun ctr_stream :: "(bytes \<Rightarrow> bytes) \<Rightarrow> bytes \<Rightarrow> nat \<Rightarrow> 32 word \<Rightarrow> bytes" where
  "ctr_stream blk nonce 0 c = []"
| "ctr_stream blk nonce (Suc n) c = blk (nonce @ be32 c) @ ctr_stream blk nonce n (c + 1)"

definition ctr_xor :: "(bytes \<Rightarrow> bytes) \<Rightarrow> bytes \<Rightarrow> bytes \<Rightarrow> bytes" where
  "ctr_xor blk nonce xs =
     (let ks = ctr_stream blk nonce ((length xs + 15) div 16) 2
      in map (\<lambda>(x, i). x XOR (if i < length ks then ks ! i else 0)) (zip xs [0..<length xs]))"

definition gcm_tag :: "(bytes \<Rightarrow> bytes) \<Rightarrow> bytes \<Rightarrow> bytes \<Rightarrow> bytes" where
  "gcm_tag blk nonce ct =
     (let h = get128 (blk (replicate 16 0));
          len = be64 0 @ be64 (of_nat (8 * length ct));
          s = ghash h (blocks16 (length ct) ct @ [len])
      in be128 (s XOR get128 (blk (nonce @ be32 1))))"

definition gcm_Seal :: "(bytes \<Rightarrow> bytes) \<Rightarrow> bytes \<Rightarrow> bytes \<Rightarrow> bytes" where
  "gcm_Seal blk nonce pt = (let ct = ctr_xor blk nonce pt in ct @ gcm_tag blk nonce ct)"

definition gcm_Open :: "(bytes \<Rightarrow> bytes) \<Rightarrow> bytes \<Rightarrow> bytes \<Rightarrow> bytes option" where
  "gcm_Open blk nonce c =
     (if length c < 16 then None
      else let ct = take (length c - 16) c; tag = drop (length c - 16) c
           in if tag = gcm_tag blk nonce ct then Some (ctr_xor blk nonce ct) else None)"

section \<open>Laws of the mode\<close>

lemma length_be128 [simp]: "length (be128 w) = 16"
  by (simp add: be128_def)

lemma length_gcm_tag [simp]: "length (gcm_tag blk nonce ct) = 16"
  by (simp add: gcm_tag_def Let_def)

lemma length_ctr_xor [simp]: "length (ctr_xor blk nonce xs) = length xs"
  by (simp add: ctr_xor_def Let_def)

lemma ctr_xor_nth:
  "i < length xs \<Longrightarrow>
   ctr_xor blk nonce xs ! i =
     xs ! i XOR (let ks = ctr_stream blk nonce ((length xs + 15) div 16) 2
                 in if i < length ks then ks ! i else 0)"
  by (simp add: ctr_xor_def Let_def)

lemma ctr_xor_involution [simp]: "ctr_xor blk nonce (ctr_xor blk nonce xs) = xs"
  by (rule nth_equalityI) (simp_all add: ctr_xor_nth Let_def)

lemma length_gcm_Seal [simp]: "length (gcm_Seal blk nonce pt) = length pt + 16"
  by (simp add: gcm_Seal_def Let_def)

lemma gcm_Open_Seal [simp]: "gcm_Open blk nonce (gcm_Seal blk nonce pt) = Some pt"
  by (simp add: gcm_Open_def gcm_Seal_def Let_def)

lemma gcm_Open_only_Seal: "gcm_Open blk nonce c = Some pt \<Longrightarrow> c = gcm_Seal blk nonce pt"
  by (auto simp: gcm_Open_def gcm_Seal_def Let_def split: if_splits)
     (metis append_take_drop_id)

end
