(* ===== verification/Crypto.thy ===== *)
theory Crypto
  imports Sha256 Aes_Gcm
begin

text \<open>
  The cryptographic interface between the protocol code and Go's standard library: the
  operations the program calls as a record, the laws its correctness rests on as the
  locale \<open>crypto_laws\<close>, and the interpretation of the locale on the SHA-256, HMAC, AES
  and GCM models. The protocol theories take the record as an argument; their lemmas are
  proved from the laws and are read off for \<open>go_crypto\<close> through the interpretation.
\<close>

record crypto =
  c_sha :: "bytes \<Rightarrow> bytes"                        \<comment> \<open>sha256.Sum256\<close>
  c_mac :: "bytes \<Rightarrow> bytes \<Rightarrow> bytes"               \<comment> \<open>HMAC-SHA-256, key first\<close>
  c_key_ok :: "bytes \<Rightarrow> bool"                     \<comment> \<open>aes.NewCipher returns no error\<close>
  c_blk :: "bytes \<Rightarrow> bytes \<Rightarrow> bytes"               \<comment> \<open>one AES block under a key\<close>
  c_seal :: "bytes \<Rightarrow> bytes \<Rightarrow> bytes \<Rightarrow> bytes"      \<comment> \<open>AES-GCM Seal: key, nonce, plaintext\<close>
  c_open :: "bytes \<Rightarrow> bytes \<Rightarrow> bytes \<Rightarrow> bytes option" \<comment> \<open>AES-GCM Open: key, nonce, ciphertext\<close>

definition go_crypto :: crypto where
  "go_crypto =
     \<lparr>c_sha = sha256_Sum256, c_mac = hmac_sha256, c_key_ok = aes_NewCipher_ok,
      c_blk = aes_Encrypt,
      c_seal = (\<lambda>k. gcm_Seal (aes_Encrypt k)), c_open = (\<lambda>k. gcm_Open (aes_Encrypt k))\<rparr>"

locale crypto_laws =
  fixes C :: crypto
  assumes open_seal: "c_open C k n (c_seal C k n p) = Some p"
    and open_only_seal: "c_open C k n c = Some p \<Longrightarrow> c = c_seal C k n p"
    and length_seal: "length (c_seal C k n p) = length p + 16"
    and length_sha: "length (c_sha C m) = 32"
    and length_mac: "length (c_mac C k m) = 32"
    and key32_ok: "length k = 32 \<Longrightarrow> c_key_ok C k"
    and length_blk: "length k = 32 \<Longrightarrow> length b = 16 \<Longrightarrow> length (c_blk C k b) = 16"
begin

lemma open_iff_seal: "c_open C k n c = Some p \<longleftrightarrow> c = c_seal C k n p"
  by (metis open_seal open_only_seal)

lemma seal_inject: "c_seal C k n p = c_seal C k n q \<longleftrightarrow> p = q"
  by (metis open_seal option.inject)

lemma open_short: "length c < 16 \<Longrightarrow> c_open C k n c = None"
  by (metis length_seal less_add_same_cancel2 not_add_less2 open_only_seal option.exhaust)

end

section \<open>The standard library satisfies the laws\<close>

lemma length_xor_bytes [simp]: "length (xor_bytes xs ys) = min (length xs) (length ys)"
  by (simp add: xor_bytes_def)

lemma length_mix_column [simp]: "length (mix_column xs) = length xs"
  by (cases xs rule: mix_column.cases) (simp_all add: Let_def)

lemma length_shift_rows [simp]: "length (shift_rows xs) = length xs"
  by (cases xs rule: shift_rows.cases) simp_all

lemma chunk4_words: "w \<in> set (chunk4 xs) \<Longrightarrow> length w = 4"
  by (induction xs rule: chunk4.induct) auto

lemma length_chunk4: "length (chunk4 xs) = length xs div 4"
  by (induction xs rule: chunk4.induct) auto

lemma length_concat_const:
  "(\<And>w. w \<in> set ws \<Longrightarrow> length w = n) \<Longrightarrow> length (concat ws) = n * length ws"
  by (induction ws) auto

lemma aes_next_word_length:
  assumes "\<forall>w \<in> set ws. length w = 4" and "0 < nk" and "nk \<le> length ws"
  shows "length (aes_next_word nk i rcon ws) = 4"
proof -
  have "length (ws ! 0) = 4" and "length (ws ! (nk - 1)) = 4"
    using assms by (auto intro!: nth_mem)
  then show ?thesis by (simp add: aes_next_word_def Let_def)
qed

lemma aes_expand_words:
  "\<forall>w \<in> set ws. length w = 4 \<Longrightarrow> 0 < nk \<Longrightarrow> nk \<le> length ws \<Longrightarrow>
   (\<forall>w \<in> set (aes_expand n nk i rcon ws). length w = 4) \<and>
   length (aes_expand n nk i rcon ws) = n + length ws"
proof (induction n arbitrary: i rcon ws)
  case (Suc n)
  then have "\<forall>w \<in> set (aes_next_word nk i rcon ws # ws). length w = 4"
    by (simp add: aes_next_word_length)
  from Suc.IH [OF this Suc.prems(2)] Suc.prems(3) show ?case by simp
qed auto

lemma aes_rounds_length:
  "(\<And>w. w \<in> set ks \<Longrightarrow> length w = 4) \<Longrightarrow> length st = 16 \<Longrightarrow> length (aes_rounds ks st) = 16"
proof (induction ks st rule: aes_rounds.induct)
  case (1 k0 k1 k2 k3 ks st)
  have "length (concat (map mix_column (chunk4 (shift_rows (map sbox st))))) = 16"
    using "1.prems"(2) by (subst length_concat_const [where n = 4]) (auto simp: length_chunk4 dest: chunk4_words)
  with 1 show ?case by (simp add: Let_def)
qed simp_all

lemma aes_Encrypt_length:
  assumes "length k = 32" and "length b = 16"
  shows "length (aes_Encrypt k b) = 16"
proof -
  let ?rk = "aes_round_keys k"
  have "\<forall>w \<in> set (rev (chunk4 k)). length w = 4" by (auto dest: chunk4_words)
  from aes_expand_words [OF this, where nk = 8 and n = 52 and i = 8 and rcon = 1] assms
  have rk: "\<forall>w \<in> set ?rk. length w = 4" "length ?rk = 60"
    by (simp_all add: aes_round_keys_def Let_def length_chunk4)
  have "length (concat (take 4 ?rk)) = 16"
    using rk by (subst length_concat_const [where n = 4]) (auto dest: in_set_takeD)
  with rk assms show ?thesis
    by (auto simp: aes_Encrypt_def Let_def intro!: aes_rounds_length dest: in_set_dropD)
qed

interpretation std: crypto_laws go_crypto
  by unfold_locales
    (simp_all add: go_crypto_def gcm_Open_only_Seal aes_NewCipher_ok_def aes_Encrypt_length)

end
