(* ===== verification/Fnv.thy ===== *)
theory Fnv
  imports Prelude
begin

text \<open>
  The hash and the generator of \<^verbatim>\<open>protocol/cipher.go\<close>: \<^verbatim>\<open>Fnv1a16\<close>, \<^verbatim>\<open>Fnv1a64\<close>
  and \<^verbatim>\<open>fastPRNG\<close>. The lemmas say what the rest of the program can rely on: each FNV
  step is a bijection of the hash state, so two inputs that differ in one byte never
  collide, and the generator is a bijection of its state, so it never falls into zero.
\<close>

definition fnv_offset :: "64 word" where
  "fnv_offset = 14695981039346656037"

definition fnv_prime :: "64 word" where
  "fnv_prime = 1099511628211"

definition fnv_step :: "64 word \<Rightarrow> byte \<Rightarrow> 64 word" where
  "fnv_step h b = (h XOR ucast b) * fnv_prime"

definition Fnv1a16 :: "bytes \<Rightarrow> 16 word" where
  "Fnv1a16 data = ucast (foldl fnv_step fnv_offset data AND 0xFFFF)"

definition Fnv1a64 :: "bytes \<Rightarrow> 64 word \<Rightarrow> 64 word" where
  "Fnv1a64 data seed = foldl fnv_step (seed XOR fnv_offset) data"

text \<open>\<^verbatim>\<open>fastPRNG.Uint32\<close>: the new state and the value returned.\<close>

definition prng_next :: "64 word \<Rightarrow> 64 word" where
  "prng_next s =
     (let a = s XOR push_bit 13 s;
          b = a XOR drop_bit 17 a
      in b XOR push_bit 5 b)"

definition prng_Uint32 :: "64 word \<Rightarrow> 32 word \<times> 64 word" where
  "prng_Uint32 s = (let s' = prng_next s in (ucast s', s'))"

section \<open>FNV-1a\<close>

lemma fnv_prime_inverse: "fnv_prime * 14886173955864302971 = 1"
  by (simp add: fnv_prime_def)

lemma fnv_step_inj: "fnv_step h b = fnv_step h' b' \<Longrightarrow> h XOR ucast b = h' XOR ucast b'"
proof -
  assume "fnv_step h b = fnv_step h' b'"
  then have "(h XOR ucast b) * (fnv_prime * 14886173955864302971)
    = (h' XOR ucast b') * (fnv_prime * 14886173955864302971)"
    by (simp add: fnv_step_def mult.assoc [symmetric])
  then show ?thesis by (simp add: fnv_prime_inverse)
qed

lemma xor_left_inj: "x XOR y = x XOR z \<longleftrightarrow> y = (z :: 'n::len word)"
  by (metis xor.assoc xor.left_neutral xor_self_eq)

lemma xor_right_inj: "y XOR x = z XOR x \<longleftrightarrow> y = (z :: 'n::len word)"
  by (metis xor.commute xor_left_inj)

lemma fnv_step_inj_state: "fnv_step h b = fnv_step h' b \<longleftrightarrow> h = h'"
  by (metis fnv_step_inj xor_right_inj)

lemma ucast_byte_inj: "(ucast a :: 64 word) = ucast b \<longleftrightarrow> a = (b :: byte)"
proof
  assume "(ucast a :: 64 word) = ucast b"
  then have "uint (ucast a :: 64 word) = uint (ucast b :: 64 word)" by (rule arg_cong)
  then show "a = b" by (simp add: uint_up_ucast is_up word_uint_eq_iff)
qed simp

lemma fnv_step_inj_byte: "fnv_step h a = fnv_step h b \<longleftrightarrow> a = b"
  by (metis fnv_step_inj xor_left_inj ucast_byte_inj)

lemma fnv_fold_inj: "foldl fnv_step h xs = foldl fnv_step h' xs \<longleftrightarrow> h = h'"
  by (induction xs arbitrary: h h') (auto simp: fnv_step_inj_state)

lemma Fnv1a64_one_byte:
  "Fnv1a64 (xs @ a # ys) seed = Fnv1a64 (xs @ b # ys) seed \<longleftrightarrow> a = b"
  by (auto simp: Fnv1a64_def fnv_fold_inj fnv_step_inj_byte)

lemma Fnv1a64_seed_inj: "Fnv1a64 xs s = Fnv1a64 xs s' \<longleftrightarrow> s = s'"
  by (simp add: Fnv1a64_def fnv_fold_inj xor_right_inj)

lemma low_half: "ucast (h AND 0xFFFF :: 64 word) = (ucast h :: 16 word)"
proof (rule bit_word_eqI)
  fix n assume "n < LENGTH(16)"
  moreover have "h AND 0xFFFF = take_bit 16 h" by (simp add: take_bit_eq_mask mask_eq_exp_minus_1)
  ultimately show "bit (ucast (h AND 0xFFFF) :: 16 word) n = bit (ucast h :: 16 word) n"
    by (simp add: bit_simps)
qed

lemma Fnv1a16_low_bits: "Fnv1a16 data = ucast (Fnv1a64 data 0)"
  by (simp add: Fnv1a16_def Fnv1a64_def low_half)

section \<open>The generator\<close>

lemma shift_xor_zero_left:
  fixes x :: "'n::len word"
  assumes "0 < k" and eq: "x XOR push_bit k x = 0"
  shows "x = 0"
proof -
  have "\<not> bit x n" for n
  proof (induction n rule: less_induct)
    case (less n)
    have "\<not> bit (x XOR push_bit k x) n" by (simp add: eq)
    with less [of "n - k"] \<open>0 < k\<close> show ?case
      by (cases "k \<le> n") (auto simp: bit_simps dest: bit_imp_le_length)
  qed
  then show ?thesis by (simp add: bit_word_eqI)
qed

lemma shift_xor_zero_right:
  fixes x :: "'n::len word"
  assumes "0 < k" and eq: "x XOR drop_bit k x = 0"
  shows "x = 0"
proof -
  have "\<not> bit x n" if "LENGTH('n) - n = m" for n m
    using that
  proof (induction m arbitrary: n rule: less_induct)
    case (less m)
    show ?case
    proof (cases "n < LENGTH('n)")
      case True
      with less.prems \<open>0 < k\<close> have "LENGTH('n) - (k + n) < m" by simp
      from less.IH [OF this refl] have "\<not> bit x (k + n)" .
      moreover have "\<not> bit (x XOR drop_bit k x) n" by (simp add: eq)
      ultimately show ?thesis by (auto simp: bit_simps)
    qed (auto dest: bit_imp_le_length)
  qed
  then show ?thesis by (simp add: bit_word_eqI)
qed

lemma prng_next_zero_iff: "prng_next s = 0 \<longleftrightarrow> s = 0"
proof
  define a where "a = s XOR push_bit 13 s"
  define b where "b = a XOR drop_bit 17 a"
  assume "prng_next s = 0"
  then have "b XOR push_bit 5 b = 0" by (simp only: prng_next_def Let_def a_def b_def)
  then have "b = 0" by (rule shift_xor_zero_left [rotated]) simp
  then have "a = 0" unfolding b_def by (rule shift_xor_zero_right [rotated]) simp
  then show "s = 0" unfolding a_def by (rule shift_xor_zero_left [rotated]) simp
qed (simp add: prng_next_def)

lemma push_bit_xor: "push_bit k (x XOR y) = push_bit k x XOR push_bit k (y :: 'n::len word)"
  by (rule bit_word_eqI) (auto simp: bit_simps)

lemma drop_bit_xor: "drop_bit k (x XOR y) = drop_bit k x XOR drop_bit k (y :: 'n::len word)"
  by (rule bit_word_eqI) (auto simp: bit_simps)

lemma prng_next_linear: "prng_next (x XOR y) = prng_next x XOR prng_next y"
  by (simp add: prng_next_def Let_def push_bit_xor drop_bit_xor xor.assoc xor.commute xor.left_commute)

lemma prng_next_inj: "prng_next x = prng_next y \<longleftrightarrow> x = y"
proof
  assume "prng_next x = prng_next y"
  then have "prng_next (x XOR y) = 0" by (simp add: prng_next_linear)
  then have "x XOR y = 0" by (simp add: prng_next_zero_iff)
  then show "x = y" by (metis xor_self_eq xor_left_inj)
qed simp

lemma prng_iterate_nonzero: "(prng_next ^^ n) s = 0 \<longleftrightarrow> s = 0"
  by (induction n) (simp_all add: prng_next_zero_iff)

end
