(* ===== verification/Quic.thy ===== *)
theory Quic
  imports Crypto Fnv
begin

text \<open>
  \<^verbatim>\<open>protocol/quic.go\<close>: wrapping an encrypted payload in a QUIC-style short header and
  taking it off again. The two package counters are a state record; the in-place writes
  to the caller's slice and to the local copy of the key are explicit.
\<close>

record qglobals =
  quicSpinBit :: "64 word"
  quicKeyPhase :: "64 word"

definition qglobals_init :: qglobals where
  "qglobals_init = \<lparr>quicSpinBit = 0, quicKeyPhase = 0\<rparr>"

definition quicKeyPhaseInterval :: "64 word" where
  "quicKeyPhaseInterval = 1000"

text \<open>\<^verbatim>\<open>sample[:2] = pn; cipher.Encrypt(sample, sample); mask := sample[:5]\<close>\<close>

definition quic_mask :: "crypto \<Rightarrow> bytes \<Rightarrow> bytes \<Rightarrow> bytes" where
  "quic_mask C key pn = take 5 (c_blk C key (take 2 pn @ replicate 14 0))"

text \<open>The byte at index \<open>i\<close> of the mask laid over a packet.\<close>

definition quic_mask_at :: "bytes \<Rightarrow> nat \<Rightarrow> byte" where
  "quic_mask_at msk i =
     (if i = 0 then msk ! 0 AND 0x1F
      else if i = 5 then msk ! 1
      else if i = 6 then msk ! 2
      else if 7 \<le> i then msk ! ((i - 7 + 3) mod 5)
      else 0)"

definition quic_protect :: "bytes \<Rightarrow> bytes \<Rightarrow> bytes" where
  "quic_protect msk packet =
     map (\<lambda>(i, b). b XOR quic_mask_at msk i) (zip [0..<length packet] packet)"

text \<open>
  \<^verbatim>\<open>append(key[:8], lo, hi)\<close> has room in the backing array, so it writes the two bytes
  of the short id over \<^verbatim>\<open>key[8]\<close> and \<^verbatim>\<open>key[9]\<close> of the local array; the AES key used
  below is the changed one.
\<close>

definition quic_key_clobbered :: "bytes \<Rightarrow> 16 word \<Rightarrow> bytes" where
  "quic_key_clobbered key shortID = key[8 := ucast shortID, 9 := ucast (drop_bit 8 shortID)]"

definition EncodeQUICHeader ::
  "crypto \<Rightarrow> qglobals \<Rightarrow> bytes \<Rightarrow> 16 word \<Rightarrow> 32 word \<Rightarrow> bytes \<Rightarrow> bytes \<Rightarrow> bytes \<times> qglobals" where
  "EncodeQUICHeader C g encryptedPayload shortID packetNum key routingSalt =
     (let g' = g\<lparr>quicSpinBit := quicSpinBit g + 1\<rparr>;
          spin = quicSpinBit g' AND 1;
          kp = (quicKeyPhase g' div quicKeyPhaseInterval) AND 1;
          firstByte = 0x40 OR ucast (push_bit 4 spin) OR ucast (push_bit 3 kp);
          maskVal = Fnv1a16 (take 8 key @ [ucast shortID, ucast (drop_bit 8 shortID)]);
          key' = quic_key_clobbered key shortID;
          packet = [firstByte] @ be16 0 @ be16 (shortID XOR maskVal)
                     @ be16 (ucast packetNum) @ encryptedPayload;
          msk = quic_mask C key' (slice_of packet 5 7)
      in (quic_protect msk packet, g'))"

text \<open>The first component is the caller's slice after the call: it is unmasked in place.\<close>

definition DecodeQUICHeader ::
  "crypto \<Rightarrow> bytes \<Rightarrow> bytes \<Rightarrow> bytes \<times> (bytes \<times> 32 word) outcome" where
  "DecodeQUICHeader C packet key =
     (if length packet < 7
      then (packet, Err (''QUIC header too short: '' @ dec_str (length packet) @ '' < 7''))
      else
        let msk = quic_mask C key (slice_of packet 5 7);
            packet' = quic_protect msk packet
        in if packet' ! 0 AND 0xC0 \<noteq> 0x40
           then (packet', Err (''not a QUIC short header: first byte=0x'' @ hex_byte (packet' ! 0)))
           else (packet', Ok (drop 7 packet', ucast (get16 (slice_of packet' 5 7)))))"

section \<open>The mask\<close>

lemma length_quic_protect [simp]: "length (quic_protect m p) = length p"
  by (simp add: quic_protect_def)

lemma quic_protect_nth [simp]: "i < length p \<Longrightarrow> quic_protect m p ! i = p ! i XOR quic_mask_at m i"
  by (simp add: quic_protect_def)

lemma quic_protect_involution [simp]: "quic_protect m (quic_protect m p) = p"
  by (rule nth_equalityI) simp_all

lemma quic_protect_commute: "quic_protect m (quic_protect m' p) = quic_protect m' (quic_protect m p)"
  by (rule nth_equalityI) (simp_all add: xor.assoc xor.commute xor.left_commute)

text \<open>The payload part of a protected packet, on its own.\<close>

definition quic_payload_xor :: "bytes \<Rightarrow> bytes \<Rightarrow> bytes" where
  "quic_payload_xor m pl = map (\<lambda>(i, b). b XOR m ! ((i + 3) mod 5)) (zip [0..<length pl] pl)"

lemma drop_quic_protect: "7 \<le> length p \<Longrightarrow> drop 7 (quic_protect m p) = quic_payload_xor m (drop 7 p)"
  by (rule nth_equalityI) (simp_all add: quic_mask_at_def quic_payload_xor_def)

lemma quic_payload_xor_involution [simp]: "quic_payload_xor m (quic_payload_xor m pl) = pl"
  by (rule nth_equalityI) (simp_all add: quic_payload_xor_def)

definition quic_pn_xor :: "bytes \<Rightarrow> 16 word \<Rightarrow> 16 word" where
  "quic_pn_xor m pn = pn XOR get16 (drop 1 m)"

lemma get16_xor:
  "get16 [a XOR c, b XOR d] = get16 [a, b] XOR get16 [c, d]"
  by (rule bit_word_eqI) (auto simp: get16_def bit_simps dest: bit_imp_le_length)

lemma slice57: "7 \<le> length p \<Longrightarrow> slice_of p 5 7 = [p ! 5, p ! 6]"
  by (rule nth_equalityI) (auto simp: slice_of_def dest!: less_2_cases)

lemma slice57_protect:
  "7 \<le> length p \<Longrightarrow> 3 \<le> length m \<Longrightarrow>
   get16 (slice_of (quic_protect m p) 5 7) = quic_pn_xor m (get16 (slice_of p 5 7))"
  by (simp add: slice57 quic_mask_at_def get16_xor quic_pn_xor_def)
     (simp add: get16_def numeral_2_eq_2)

text \<open>No mask can move the two fixed bits of the first byte.\<close>

lemma fixed_bits_masked: "(b XOR (m AND 0x1F)) AND 0xC0 = (b AND 0xC0 :: byte)"
proof (rule bit_word_eqI)
  fix n assume "n < LENGTH(8)"
  then have "n \<in> {0, 1, 2, 3, 4, 5, 6, 7}" by auto
  then show "bit ((b XOR (m AND 0x1F)) AND 0xC0) n = bit (b AND 0xC0) n"
    by (auto simp: bit_simps)
qed

section \<open>Decoding what was encoded\<close>

lemma quic_first_byte: "(0x40 OR ucast (push_bit 4 (s AND 1 :: 64 word)) OR ucast (push_bit 3 (k AND 1 :: 64 word)))
    AND 0xC0 = (0x40 :: byte)"
proof (rule bit_word_eqI)
  fix n assume "n < LENGTH(8)"
  then have "n \<in> {0, 1, 2, 3, 4, 5, 6, 7}" by auto
  then show "bit ((0x40 OR ucast (push_bit 4 (s AND 1)) OR ucast (push_bit 3 (k AND 1))) AND 0xC0 :: byte) n
      = bit (0x40 :: byte) n"
    by (auto simp: bit_simps)
qed

text \<open>The mask the sender lays, and the one the receiver computes from the bytes it gets.\<close>

definition quic_sender_mask :: "crypto \<Rightarrow> bytes \<Rightarrow> 16 word \<Rightarrow> 16 word \<Rightarrow> bytes" where
  "quic_sender_mask C key shortID pn = quic_mask C (quic_key_clobbered key shortID) (be16 pn)"

definition quic_receiver_mask :: "crypto \<Rightarrow> bytes \<Rightarrow> 16 word \<Rightarrow> 16 word \<Rightarrow> bytes" where
  "quic_receiver_mask C key shortID pn =
     quic_mask C key (be16 (quic_pn_xor (quic_sender_mask C key shortID pn) pn))"

lemma length_EncodeQUICHeader [simp]:
  "length (fst (EncodeQUICHeader C g pl shortID pn key salt)) = 7 + length pl"
  by (simp add: EncodeQUICHeader_def Let_def)

context crypto_laws
begin

lemma length_quic_mask: "length key = 32 \<Longrightarrow> length pn = 2 \<Longrightarrow> length (quic_mask C key pn) = 5"
  by (simp add: quic_mask_def length_blk)

lemma quic_decode_encode:
  assumes "length key = 32"
  shows "snd (DecodeQUICHeader C (fst (EncodeQUICHeader C g pl shortID pn key salt)) key) =
    Ok (quic_payload_xor (quic_receiver_mask C key shortID (ucast pn))
          (quic_payload_xor (quic_sender_mask C key shortID (ucast pn)) pl),
        ucast (quic_pn_xor (quic_receiver_mask C key shortID (ucast pn))
          (quic_pn_xor (quic_sender_mask C key shortID (ucast pn)) (ucast pn))))"
proof -
  define fb :: byte where
    "fb = 0x40 OR ucast (push_bit 4 ((quicSpinBit g + 1) AND 1))
            OR ucast (push_bit 3 ((quicKeyPhase g div quicKeyPhaseInterval) AND 1))"
  define mv where "mv = Fnv1a16 (take 8 key @ [ucast shortID, ucast (drop_bit 8 shortID)])"
  define p where "p = fb # be16 0 @ be16 (shortID XOR mv) @ be16 (ucast pn) @ pl"
  define m1 where "m1 = quic_sender_mask C key shortID (ucast pn)"
  define m2 where "m2 = quic_receiver_mask C key shortID (ucast pn)"
  have len: "length p = 7 + length pl" by (simp add: p_def)
  have s57: "slice_of p 5 7 = be16 (ucast pn)" by (simp add: p_def slice_of_def be16_def)
  have enc: "fst (EncodeQUICHeader C g pl shortID pn key salt) = quic_protect m1 p"
    using s57 by (simp add: EncodeQUICHeader_def Let_def p_def fb_def mv_def m1_def quic_sender_mask_def)
  have l1: "length m1 = 5" using assms
    by (simp add: m1_def quic_sender_mask_def length_quic_mask quic_key_clobbered_def)
  have l2: "length m2 = 5" using assms by (simp add: m2_def quic_receiver_mask_def length_quic_mask)
  have g1: "get16 (slice_of (quic_protect m1 p) 5 7) = quic_pn_xor m1 (ucast pn)"
    using l1 by (simp add: slice57_protect len s57)
  have "length (slice_of (quic_protect m1 p) 5 7) = 2" by (simp add: len)
  from be16_get16 [OF this] have w: "slice_of (quic_protect m1 p) 5 7 = be16 (quic_pn_xor m1 (ucast pn))"
    by (simp add: g1)
  have mask2: "quic_mask C key (slice_of (quic_protect m1 p) 5 7) = m2"
    by (simp only: w) (simp add: m2_def quic_receiver_mask_def m1_def)
  have g2: "get16 (slice_of (quic_protect m2 (quic_protect m1 p)) 5 7)
      = quic_pn_xor m2 (quic_pn_xor m1 (ucast pn))"
    using l2 by (simp add: slice57_protect len g1)
  have fix0: "quic_protect m2 (quic_protect m1 p) ! 0 AND 0xC0 = 0x40"
    using quic_first_byte [of "quicSpinBit g + 1" "quicKeyPhase g div quicKeyPhaseInterval"]
    by (simp only: fb_def [symmetric]) (simp add: len fixed_bits_masked quic_mask_at_def p_def)
  have pay: "drop 7 (quic_protect m2 (quic_protect m1 p)) = quic_payload_xor m2 (quic_payload_xor m1 pl)"
    by (simp add: drop_quic_protect len) (simp add: p_def be16_def)
  show ?thesis
    unfolding enc DecodeQUICHeader_def Let_def m1_def [symmetric] m2_def [symmetric] mask2
    by (simp only: fix0 pay g2 length_quic_protect len) simp
qed

end

section \<open>Property\<close>

text \<open>
  For every 32-byte key, decoding a header-protected packet never rejects it, and
  returns the payload and the packet number with the sender's mask (made with the key
  whose bytes 8 and 9 were overwritten by the short id) and the receiver's mask (made
  from the packet number as it arrives, still masked) both applied. The payload comes
  back intact exactly where the two masks agree; nothing in the code makes them agree.
\<close>

theorem quic_header_decode:
  assumes "length key = 32"
  shows "snd (DecodeQUICHeader go_crypto (fst (EncodeQUICHeader go_crypto g pl shortID pn key salt)) key) =
    Ok (quic_payload_xor
          (quic_mask go_crypto key
             (be16 (quic_pn_xor (quic_mask go_crypto (quic_key_clobbered key shortID) (be16 (ucast pn))) (ucast pn))))
          (quic_payload_xor (quic_mask go_crypto (quic_key_clobbered key shortID) (be16 (ucast pn))) pl),
        ucast (quic_pn_xor
          (quic_mask go_crypto key
             (be16 (quic_pn_xor (quic_mask go_crypto (quic_key_clobbered key shortID) (be16 (ucast pn))) (ucast pn))))
          (quic_pn_xor (quic_mask go_crypto (quic_key_clobbered key shortID) (be16 (ucast pn))) (ucast pn))))"
  using std.quic_decode_encode [OF assms, of g pl shortID pn salt]
  by (simp only: quic_receiver_mask_def quic_sender_mask_def)

theorem quic_header_decode_witness:
  "\<exists>pl' pn'. snd (DecodeQUICHeader go_crypto
     (fst (EncodeQUICHeader go_crypto qglobals_init [1, 2, 3] 7 1 (replicate 32 5) [])) (replicate 32 5)) = Ok (pl', pn')"
  using quic_header_decode [of "replicate 32 5" qglobals_init "[1, 2, 3]" 7 1 "[]"] by auto

end
