(* ===== verification/Cipher.thy ===== *)
theory Cipher
  imports Quic
begin

text \<open>
  \<^verbatim>\<open>protocol/cipher.go\<close>: the cipher context \<^verbatim>\<open>CipherPack\<close> with its counters and
  generator, packet encryption and decryption in the standard format and in QUIC mode,
  and the no-crypto mode. A call returns its outcome with the context it leaves behind.
\<close>

section \<open>State\<close>

datatype cipher_mode = CipherModeStandard | CipherModeQUIC

text \<open>\<open>cp_gcm\<close> is the key of the AEAD instance, None for the nil interface of the
  no-crypto context.\<close>

record CipherPack =
  cp_key :: bytes
  cp_gcm :: "bytes option"
  cp_nonce :: "64 word"
  cp_quicNonce :: "64 word"
  cp_prng :: "64 word"
  cp_noEncrypt :: bool
  cp_Mode :: cipher_mode
  cp_PadMax :: int

text \<open>\<open>seed\<close>: the eight bytes \<^verbatim>\<open>rand.Read\<close> gives, read little-endian.\<close>

definition NewCipherPack :: "crypto \<Rightarrow> bytes \<Rightarrow> 64 word \<Rightarrow> CipherPack outcome" where
  "NewCipherPack C secretKey seed =
     (if \<not> c_key_ok C secretKey
      then Err (''crypto/aes: invalid key size '' @ dec_str (length secretKey))
      else let k = take 32 (secretKey @ replicate 32 0);
               (start, s) = prng_Uint32 seed
           in Ok \<lparr>cp_key = k, cp_gcm = Some secretKey, cp_nonce = ucast start, cp_quicNonce = 0,
                  cp_prng = s, cp_noEncrypt = False, cp_Mode = CipherModeStandard, cp_PadMax = 0\<rparr>)"

definition NewNoopCipherPack :: CipherPack where
  "NewNoopCipherPack =
     \<lparr>cp_key = replicate 32 0, cp_gcm = None, cp_nonce = 0, cp_quicNonce = 0, cp_prng = 0,
      cp_noEncrypt = True, cp_Mode = CipherModeStandard, cp_PadMax = 0\<rparr>"

definition DeriveKey :: "crypto \<Rightarrow> string \<Rightarrow> bytes" where
  "DeriveKey C secret = c_sha C (str_bytes secret)"

section \<open>Padding and the inner frame\<close>

text \<open>
  \<^verbatim>\<open>int(cp.prng.Uint32() % uint32(maxPad))\<close>: the conversion keeps 32 bits, and a zero
  divisor panics after the generator has advanced.
\<close>

definition choose_pad :: "CipherPack \<Rightarrow> nat outcome \<times> CipherPack" where
  "choose_pad cp =
     (let maxPad = (if cp_PadMax cp \<le> 0 then 41 else cp_PadMax cp);
          (r, s) = prng_Uint32 (cp_prng cp);
          m = word_of_int maxPad :: 32 word
      in (if m = 0 then Panic else Ok (unat (r mod m)), cp\<lparr>cp_prng := s\<rparr>))"

text \<open>
  The pooled buffer has capacity 65535, so a longer inner frame panics at the slice
  expression. \<open>padBuf\<close> is the content of the random padding buffer.
\<close>

definition build_inner :: "(nat \<Rightarrow> byte) \<Rightarrow> bytes \<Rightarrow> nat \<Rightarrow> bytes outcome" where
  "build_inner padBuf plaintext padLen =
     (if 2 + length plaintext + padLen > 65535 then Panic
      else Ok (be16 (of_nat (length plaintext)) @ plaintext @ map padBuf [0..<padLen]))"

text \<open>
  Cutting the payload out of a decrypted frame. \<^verbatim>\<open>2+realLen\<close> is 16-bit arithmetic, so
  the slice bound can wrap below 2, and then the slice panics.
\<close>

definition open_inner :: "string \<Rightarrow> bytes \<Rightarrow> bytes outcome" where
  "open_inner short plaintext =
     (if length plaintext < 2 then Err short
      else let realLen = get16 plaintext
           in if unat realLen + 2 > length plaintext then Err ''invalid length''
              else if unat (2 + realLen) < 2 then Panic
              else Ok (slice_of plaintext 2 (unat (2 + realLen))))"

section \<open>Encrypt\<close>

definition route_mask :: "string \<Rightarrow> bytes \<Rightarrow> 16 word" where
  "route_mask routingSalt nonce = Fnv1a16 (str_bytes routingSalt @ nonce)"

definition set_marker_bit :: "bytes \<Rightarrow> bytes" where
  "set_marker_bit m = m[0 := (m ! 0) OR 0x40]"

definition clear_marker_bit :: "bytes \<Rightarrow> bytes" where
  "clear_marker_bit m = m[0 := (m ! 0) AND NOT 0x40]"

definition quicNonceFromPacket :: "crypto \<Rightarrow> bytes \<Rightarrow> 32 word \<Rightarrow> bytes" where
  "quicNonceFromPacket C key packetNum =
     take 12 (c_sha C (key @ [of_nat (length key), ucast (drop_bit 24 packetNum)] @ be32 packetNum))"

definition encryptStandard ::
  "crypto \<Rightarrow> (nat \<Rightarrow> byte) \<Rightarrow> CipherPack \<Rightarrow> bytes \<Rightarrow> 16 word \<Rightarrow> string \<Rightarrow> bytes outcome \<times> CipherPack" where
  "encryptStandard C padBuf cp plaintext shortID routingSalt =
     (let n = cp_nonce cp + 1;
          (r, s) = prng_Uint32 (cp_prng cp);
          cp1 = cp\<lparr>cp_nonce := n, cp_prng := s\<rparr>;
          nonce = be64 n @ be32 r;
          (pad, cp2) = choose_pad cp1
      in (bindO pad (\<lambda>padLen.
            bindO (build_inner padBuf plaintext padLen) (\<lambda>inner.
              let dynamicID = shortID XOR route_mask routingSalt nonce;
                  authData = be16 dynamicID @ nonce;
                  marker = set_marker_bit (take 4 (c_mac C (cp_key cp) authData))
              in case cp_gcm cp of
                   None \<Rightarrow> Panic
                 | Some k \<Rightarrow> Ok (marker @ be16 dynamicID @ nonce @ c_seal C k nonce inner))), cp2))"

definition encryptQUIC ::
  "crypto \<Rightarrow> (nat \<Rightarrow> byte) \<Rightarrow> CipherPack \<Rightarrow> qglobals \<Rightarrow> bytes \<Rightarrow> 16 word \<Rightarrow> string
     \<Rightarrow> bytes outcome \<times> CipherPack \<times> qglobals" where
  "encryptQUIC C padBuf cp g plaintext shortID routingSalt =
     (let n = cp_quicNonce cp + 1;
          packetNum = ucast (n AND 0xFFFF) :: 32 word;
          (pad, cp2) = choose_pad (cp\<lparr>cp_quicNonce := n\<rparr>)
      in case bindO pad (build_inner padBuf plaintext) of
           Err e \<Rightarrow> (Err e, cp2, g)
         | Panic \<Rightarrow> (Panic, cp2, g)
         | Ok inner \<Rightarrow>
             (case cp_gcm cp of
                None \<Rightarrow> (Panic, cp2, g)
              | Some k \<Rightarrow>
                  let ciphertext = c_seal C k (quicNonceFromPacket C (cp_key cp) packetNum) inner;
                      (packet, g') = EncodeQUICHeader C g ciphertext shortID packetNum (cp_key cp) (str_bytes routingSalt)
                  in (Ok packet, cp2, g')))"

definition Encrypt ::
  "crypto \<Rightarrow> (nat \<Rightarrow> byte) \<Rightarrow> CipherPack \<Rightarrow> qglobals \<Rightarrow> bytes \<Rightarrow> 16 word \<Rightarrow> string
     \<Rightarrow> bytes outcome \<times> CipherPack \<times> qglobals" where
  "Encrypt C padBuf cp g plaintext shortID routingSalt =
     (if cp_noEncrypt cp then (Ok (be16 (of_nat (length plaintext)) @ plaintext), cp, g)
      else if cp_Mode cp = CipherModeQUIC then encryptQUIC C padBuf cp g plaintext shortID routingSalt
      else let (r, cp') = encryptStandard C padBuf cp plaintext shortID routingSalt in (r, cp', g))"

section \<open>Decrypt\<close>

text \<open>The first component is the caller's slice after the call (QUIC mode unmasks it in
  place).\<close>

definition decryptQUIC :: "crypto \<Rightarrow> CipherPack \<Rightarrow> bytes \<Rightarrow> bytes \<times> bytes outcome" where
  "decryptQUIC C cp packet =
     (let (packet', r) = DecodeQUICHeader C packet (cp_key cp)
      in (packet',
          bindO (mapErr (\<lambda>e. ''QUIC header decode: '' @ e) r) (\<lambda>(inner, packetNum).
            case cp_gcm cp of
              None \<Rightarrow> Panic
            | Some k \<Rightarrow>
                (case c_open C k (quicNonceFromPacket C (cp_key cp) packetNum) inner of
                   None \<Rightarrow> Err ''GCM decrypt failed: cipher: message authentication failed''
                 | Some plaintext \<Rightarrow> open_inner ''payload too short'' plaintext))))"

definition decryptStandard :: "crypto \<Rightarrow> CipherPack \<Rightarrow> bytes \<Rightarrow> bytes outcome" where
  "decryptStandard C cp packet =
     (if length packet < 4 + 2 + 12 then Err ''packet too short''
      else let marker = clear_marker_bit (take 4 packet);
               authData = slice_of packet 4 6 @ slice_of packet 6 18;
               expected = clear_marker_bit (take 4 (c_mac C (cp_key cp) authData))
           in if marker \<noteq> expected then Err ''HMAC mismatch''
              else case cp_gcm cp of
                     None \<Rightarrow> Panic
                   | Some k \<Rightarrow>
                       (case c_open C k (slice_of packet 6 18) (drop 18 packet) of
                          None \<Rightarrow> Err ''cipher: message authentication failed''
                        | Some plaintext \<Rightarrow> open_inner ''payload too short'' plaintext))"

definition Decrypt :: "crypto \<Rightarrow> CipherPack \<Rightarrow> bytes \<Rightarrow> bytes \<times> bytes outcome" where
  "Decrypt C cp packet =
     (if cp_noEncrypt cp then (packet, open_inner ''packet too short'' packet)
      else if cp_Mode cp = CipherModeQUIC then decryptQUIC C cp packet
      else (packet, decryptStandard C cp packet))"

section \<open>The inner frame\<close>

lemma build_inner_Ok_iff:
  "build_inner padBuf pt n = Ok inner \<longleftrightarrow>
     2 + length pt + n \<le> 65535 \<and> inner = be16 (of_nat (length pt)) @ pt @ map padBuf [0..<n]"
  by (auto simp: build_inner_def)

lemma unat_frame_end:
  fixes w :: "16 word"
  assumes "unat w + 2 < 65536"
  shows "unat (2 + w) = unat w + 2"
  using assms by (simp add: unat_word_ariths)

lemma open_inner_frame:
  assumes "length pt \<le> 65533"
  shows "open_inner short (be16 (of_nat (length pt)) @ pt @ pad) = Ok pt"
proof -
  have u: "unat (of_nat (length pt) :: 16 word) = length pt" using assms by (simp add: unat_of_nat16)
  then have "unat (2 + of_nat (length pt) :: 16 word) = length pt + 2"
    using assms by (subst unat_frame_end) simp_all
  with u show ?thesis by (simp add: open_inner_def slice_of_def Let_def)
qed

lemma open_build_inner: "build_inner padBuf pt n = Ok inner \<Longrightarrow> open_inner short inner = Ok pt"
  using open_inner_frame by (auto simp: build_inner_Ok_iff)

lemma open_inner_Ok_prefix:
  assumes "open_inner short pl = Ok pt"
  shows "\<exists>pad. pl = be16 (of_nat (length pt)) @ pt @ pad"
proof -
  let ?n = "get16 pl"
  from assms have len: "2 \<le> length pl" "unat ?n + 2 \<le> length pl" "\<not> unat (2 + ?n) < 2"
    and pt: "pt = slice_of pl 2 (unat (2 + ?n))"
    by (auto simp: open_inner_def Let_def split: if_splits)
  have "unat ?n < 65534"
  proof (rule ccontr)
    assume "\<not> unat ?n < 65534"
    then have "unat ?n = 65534 \<or> unat ?n = 65535" using unat16_less [of ?n] by linarith
    with len(3) show False by (auto simp: unat_word_ariths)
  qed
  then have "unat (2 + ?n) = unat ?n + 2" by (simp add: unat_frame_end)
  then have n: "length pt = unat ?n" "pt = take (unat ?n) (drop 2 pl)"
    using len pt by (simp_all add: slice_of_def)
  have "take 2 pl = be16 (get16 (take 2 pl))"
    using be16_get16 [of "take 2 pl"] len(1) by simp
  also have "get16 (take 2 pl) = of_nat (length pt)"
    using len(1) by (simp add: get16_take n(1))
  finally have "pl = be16 (of_nat (length pt)) @ pt @ drop (unat ?n) (drop 2 pl)"
    using n(2) by (metis append_take_drop_id)
  then show ?thesis by blast
qed

section \<open>Padding\<close>

lemma snd_choose_pad: "snd (choose_pad cp) = cp\<lparr>cp_prng := prng_next (cp_prng cp)\<rparr>"
  by (simp add: choose_pad_def prng_Uint32_def Let_def)

lemma choose_pad_default:
  assumes "cp_PadMax cp \<le> 0"
  shows "\<exists>n \<le> 40. fst (choose_pad cp) = Ok n"
proof -
  have lt: "unat (r mod 41) < 41" for r :: "32 word"
    by (simp add: unat_mod)
  have "unat (r mod 41) \<le> 40" for r :: "32 word"
    using lt [of r] by linarith
  with assms show ?thesis by (simp add: choose_pad_def prng_Uint32_def Let_def)
qed

lemma choose_pad_bound:
  assumes "fst (choose_pad cp) = Ok n" and "0 < cp_PadMax cp"
  shows "int n < cp_PadMax cp"
proof -
  define m where "m = (word_of_int (cp_PadMax cp) :: 32 word)"
  from assms have m: "m \<noteq> 0" and n: "n = unat (ucast (prng_next (cp_prng cp)) mod m)"
    by (auto simp: choose_pad_def prng_Uint32_def Let_def m_def split: if_splits)
  have "n < unat m" using m by (simp add: n unat_mod unat_gt_0)
  also have "int (unat m) \<le> cp_PadMax cp"
    using assms(2) by (simp add: m_def unsigned_of_int take_bit_int_less_eq_self_iff)
  finally show ?thesis by simp
qed

section \<open>Standard packets\<close>

definition std_nonce :: "CipherPack \<Rightarrow> bytes" where
  "std_nonce cp = be64 (cp_nonce cp + 1) @ be32 (fst (prng_Uint32 (cp_prng cp)))"

text \<open>The packet for an inner frame: marker, dynamic id, nonce, sealed frame.\<close>

definition std_frame :: "crypto \<Rightarrow> bytes \<Rightarrow> bytes \<Rightarrow> bytes \<Rightarrow> bytes \<Rightarrow> 16 word \<Rightarrow> string \<Rightarrow> bytes" where
  "std_frame C key k nonce inner shortID salt =
     (let d = shortID XOR route_mask salt nonce
      in set_marker_bit (take 4 (c_mac C key (be16 d @ nonce))) @ be16 d @ nonce @ c_seal C k nonce inner)"

text \<open>A context set up by \<^verbatim>\<open>NewCipherPack\<close> and left in the standard mode.\<close>

definition std_ctx :: "CipherPack \<Rightarrow> bytes \<Rightarrow> bytes \<Rightarrow> bool" where
  "std_ctx cp key k \<longleftrightarrow> \<not> cp_noEncrypt cp \<and> cp_Mode cp = CipherModeStandard
     \<and> cp_gcm cp = Some k \<and> cp_key cp = key"

lemma length_std_nonce [simp]: "length (std_nonce cp) = 12"
  by (simp add: std_nonce_def)

lemma length_set_marker_bit [simp]: "length (set_marker_bit m) = length m"
  by (simp add: set_marker_bit_def)

lemma encryptStandard_state:
  "snd (encryptStandard C padBuf cp pt sid salt) =
     cp\<lparr>cp_nonce := cp_nonce cp + 1, cp_prng := prng_next (prng_next (cp_prng cp))\<rparr>"
  by (simp add: encryptStandard_def prng_Uint32_def Let_def choose_pad_def)

lemma encryptStandard_Ok:
  assumes "fst (encryptStandard C padBuf cp pt sid salt) = Ok pkt" and "cp_gcm cp = Some k"
  obtains n inner where "build_inner padBuf pt n = Ok inner"
    and "pkt = std_frame C (cp_key cp) k (std_nonce cp) inner sid salt"
  using assms
  by (auto simp: encryptStandard_def std_frame_def std_nonce_def Let_def choose_pad_def
      prng_Uint32_def split: if_splits)

lemma Encrypt_standard:
  assumes "std_ctx cp key k"
  shows "Encrypt C padBuf cp g pt sid salt =
    (fst (encryptStandard C padBuf cp pt sid salt), snd (encryptStandard C padBuf cp pt sid salt), g)"
  using assms by (simp add: Encrypt_def std_ctx_def split: prod.splits)

lemma encryptStandard_returns:
  assumes "cp_gcm cp = Some k" and "cp_PadMax cp \<le> 0" and "length pt \<le> 65493"
  shows "\<exists>n inner. n \<le> 40 \<and> build_inner padBuf pt n = Ok inner \<and>
    fst (encryptStandard C padBuf cp pt sid salt)
      = Ok (std_frame C (cp_key cp) k (std_nonce cp) inner sid salt)"
proof -
  define cp1 where "cp1 = cp\<lparr>cp_nonce := cp_nonce cp + 1, cp_prng := prng_next (cp_prng cp)\<rparr>"
  obtain n where n: "n \<le> 40" "fst (choose_pad cp1) = Ok n"
    using choose_pad_default [of cp1] assms(2) by (auto simp: cp1_def)
  with assms(3) have "build_inner padBuf pt n = Ok (be16 (of_nat (length pt)) @ pt @ map padBuf [0..<n])"
    by (simp add: build_inner_def)
  with n assms(1) show ?thesis
    by (auto simp: encryptStandard_def prng_Uint32_def Let_def cp1_def [symmetric] std_frame_def
        std_nonce_def split: prod.splits)
qed

section \<open>Decrypting\<close>

lemma clear_set_marker_bit [simp]: "clear_marker_bit (set_marker_bit m) = clear_marker_bit m"
proof (cases m)
  case (Cons b bs)
  have "(b OR 0x40) AND NOT 0x40 = b AND NOT (0x40 :: byte)"
    by (rule bit_word_eqI) (auto simp: bit_simps)
  with Cons show ?thesis by (simp add: clear_marker_bit_def set_marker_bit_def)
qed (simp add: clear_marker_bit_def set_marker_bit_def)

lemma slice_of_adjacent: "a \<le> b \<Longrightarrow> b \<le> c \<Longrightarrow> slice_of xs a b @ slice_of xs b c = slice_of xs a c"
proof -
  assume "a \<le> b" "b \<le> c"
  then have "drop b xs = drop (b - a) (drop a xs)" and "c - a = (b - a) + (c - b)" by simp_all
  then show ?thesis unfolding slice_of_def by (simp only: take_add)
qed

text \<open>The parts of a frame, by their offsets.\<close>

lemma std_frame_parts:
  assumes "length (c_mac C key (be16 (sid XOR route_mask salt nonce) @ nonce)) = 32"
    and "length nonce = 12" and "f = std_frame C key k nonce inner sid salt"
  shows "take 4 f = set_marker_bit (take 4 (c_mac C key (be16 (sid XOR route_mask salt nonce) @ nonce)))"
    and "slice_of f 4 6 = be16 (sid XOR route_mask salt nonce)"
    and "slice_of f 6 18 = nonce"
    and "drop 18 f = c_seal C k nonce inner"
    and "length f = 18 + length (c_seal C k nonce inner)"
  using assms by (simp_all add: std_frame_def Let_def slice_of_def)

lemma open_inner_Panic_iff:
  "open_inner short pl = Panic \<longleftrightarrow> 65534 \<le> unat (get16 pl) \<and> unat (get16 pl) + 2 \<le> length pl"
proof (cases "unat (get16 pl) < 65534")
  case True
  then show ?thesis by (auto simp: open_inner_def Let_def unat_frame_end)
next
  case False
  then have "unat (get16 pl) = 65534 \<or> unat (get16 pl) = 65535"
    using unat16_less [of "get16 pl"] by linarith
  then show ?thesis by (auto simp: open_inner_def Let_def unat_word_ariths)
qed

context crypto_laws
begin

lemma decrypt_std_frame:
  assumes "cp_gcm cp = Some k" and "length nonce = 12"
  shows "decryptStandard C cp (std_frame C (cp_key cp) k nonce inner sid salt)
    = open_inner ''payload too short'' inner"
proof -
  note parts = std_frame_parts [OF length_mac assms(2) refl,
      where key = "cp_key cp" and sid = sid and salt = salt and k = k and inner = inner]
  show ?thesis
    using parts assms(1) by (simp add: decryptStandard_def Let_def open_seal)
qed

lemma decrypt_standard_Ok:
  assumes "decryptStandard C cp pkt = Ok pt"
  shows "\<exists>k pad. cp_gcm cp = Some k \<and> 18 \<le> length pkt
    \<and> clear_marker_bit (take 4 pkt) = clear_marker_bit (take 4 (c_mac C (cp_key cp) (slice_of pkt 4 18)))
    \<and> drop 18 pkt = c_seal C k (slice_of pkt 6 18) (be16 (of_nat (length pt)) @ pt @ pad)"
  using assms
  by (auto simp: decryptStandard_def Let_def slice_of_adjacent split: if_splits option.splits
      dest!: open_inner_Ok_prefix open_only_seal)

lemma decrypt_inner_length:
  "c_open C k n c = Some pl \<Longrightarrow> length pl + 16 = length c"
  by (auto dest: open_only_seal simp: length_seal)

lemma decrypt_no_panic:
  assumes "cp_noEncrypt cp \<or> cp_gcm cp \<noteq> None" and "length pkt \<le> 65535"
  shows "snd (Decrypt C cp pkt) \<noteq> Panic"
proof -
  have oi: "open_inner short pl \<noteq> Panic" if "length pl \<le> 65535" for short pl
    using that by (simp add: open_inner_Panic_iff)
  have op: "length pl \<le> 65535" if "c_open C k n c = Some pl" "length c \<le> 65535" for k n c pl
    using decrypt_inner_length [OF that(1)] that(2) by simp
  show ?thesis
  proof (cases "cp_noEncrypt cp")
    case True
    with assms(2) show ?thesis by (simp add: Decrypt_def oi)
  next
    case False
    then obtain k where k: "cp_gcm cp = Some k" using assms(1) by auto
    have std: "decryptStandard C cp pkt \<noteq> Panic"
      using k assms(2) by (auto simp: decryptStandard_def Let_def oi op split: option.splits)
    have "snd (decryptQUIC C cp pkt) \<noteq> Panic"
      using k assms(2)
      by (auto simp: decryptQUIC_def DecodeQUICHeader_def Let_def oi op split: option.splits)
    with std False show ?thesis by (simp add: Decrypt_def)
  qed
qed

lemma std_round_trip:
  assumes "std_ctx cp key k" and "std_ctx rcv key k" and "cp_PadMax cp \<le> 0" and "length pt \<le> 65493"
  shows "\<exists>pkt. Encrypt C padBuf cp g pt sid salt
      = (Ok pkt, cp\<lparr>cp_nonce := cp_nonce cp + 1, cp_prng := prng_next (prng_next (cp_prng cp))\<rparr>, g)
    \<and> Decrypt C rcv pkt = (pkt, Ok pt)"
proof -
  from assms(1) have k: "cp_gcm cp = Some k" and key: "cp_key cp = key" by (simp_all add: std_ctx_def)
  from assms(2) have k': "cp_gcm rcv = Some k" and key': "cp_key rcv = key" by (simp_all add: std_ctx_def)
  obtain n inner where inner: "build_inner padBuf pt n = Ok inner"
    and enc: "fst (encryptStandard C padBuf cp pt sid salt) = Ok (std_frame C key k (std_nonce cp) inner sid salt)"
    using encryptStandard_returns [OF k assms(3,4)] key by metis
  from decrypt_std_frame [OF k' length_std_nonce] open_build_inner [OF inner]
  have "decryptStandard C rcv (std_frame C key k (std_nonce cp) inner sid salt) = Ok pt"
    by (simp add: key')
  with enc assms(1,2) show ?thesis
    by (simp add: Encrypt_standard [OF assms(1)] encryptStandard_state Decrypt_def std_ctx_def)
qed

end

section \<open>Sequences of packets from one context\<close>

fun encrypt_run ::
  "crypto \<Rightarrow> (nat \<Rightarrow> byte) \<Rightarrow> CipherPack \<Rightarrow> qglobals \<Rightarrow> (bytes \<times> 16 word) list \<Rightarrow> string
     \<Rightarrow> bytes outcome list \<times> CipherPack" where
  "encrypt_run C padBuf cp g [] salt = ([], cp)"
| "encrypt_run C padBuf cp g ((pt, sid) # ms) salt =
     (let (r, cp', g') = Encrypt C padBuf cp g pt sid salt;
          (rs, cpn) = encrypt_run C padBuf cp' g' ms salt
      in (r # rs, cpn))"

lemma encrypt_run_length: "length (fst (encrypt_run C padBuf cp g ms salt)) = length ms"
  by (induction C padBuf cp g ms salt rule: encrypt_run.induct) (auto split: prod.splits)

lemma std_ctx_step:
  "std_ctx cp key k \<Longrightarrow> std_ctx (cp\<lparr>cp_nonce := n, cp_prng := s\<rparr>) key k"
  by (simp add: std_ctx_def)

context crypto_laws
begin

lemma std_packet_nonce:
  assumes "std_ctx cp key k" and "fst (Encrypt C padBuf cp g pt sid salt) = Ok pkt"
  shows "slice_of pkt 6 18 = std_nonce cp"
proof -
  have k: "cp_gcm cp = Some k" using assms(1) by (simp add: std_ctx_def)
  from assms have "fst (encryptStandard C padBuf cp pt sid salt) = Ok pkt"
    by (simp add: Encrypt_standard)
  from encryptStandard_Ok [OF this k] obtain inner
    where "pkt = std_frame C (cp_key cp) k (std_nonce cp) inner sid salt" by metis
  from std_frame_parts(3) [OF length_mac length_std_nonce this] show ?thesis .
qed

lemma encrypt_run_nonce:
  assumes "std_ctx cp key k" and "i < length ms"
    and "fst (encrypt_run C padBuf cp g ms salt) ! i = Ok pkt"
  shows "take 8 (slice_of pkt 6 18) = be64 (cp_nonce cp + 1 + of_nat i)"
  using assms
proof (induction ms arbitrary: cp g i)
  case (Cons m ms)
  obtain pt sid where m: "m = (pt, sid)" by (cases m)
  define cp' where "cp' = snd (encryptStandard C padBuf cp pt sid salt)"
  have E: "Encrypt C padBuf cp g pt sid salt = (fst (encryptStandard C padBuf cp pt sid salt), cp', g)"
    by (simp add: Encrypt_standard [OF Cons.prems(1)] cp'_def)
  show ?case
  proof (cases i)
    case 0
    with Cons.prems(3) have "fst (Encrypt C padBuf cp g pt sid salt) = Ok pkt"
      by (simp add: m E split: prod.splits)
    from std_packet_nonce [OF Cons.prems(1) this] 0 show ?thesis
      by (simp add: std_nonce_def)
  next
    case (Suc j)
    have ctx: "std_ctx cp' key k"
      using Cons.prems(1) by (simp add: cp'_def encryptStandard_state std_ctx_step)
    have n: "cp_nonce cp' = cp_nonce cp + 1" by (simp add: cp'_def encryptStandard_state)
    from Cons.prems Suc have "fst (encrypt_run C padBuf cp' g ms salt) ! j = Ok pkt"
      by (simp add: m E split: prod.splits)
    from Cons.IH [OF ctx _ this] Cons.prems(2) Suc show ?thesis
      by (simp add: n algebra_simps)
  qed
qed simp

lemma encrypt_run_distinct_nonces:
  assumes ctx: "std_ctx cp key k" and ij: "i < j" "j < length ms" and bound: "length ms \<le> 2 ^ 64"
    and "fst (encrypt_run C padBuf cp g ms salt) ! i = Ok p"
    and "fst (encrypt_run C padBuf cp g ms salt) ! j = Ok q"
  shows "slice_of p 6 18 \<noteq> slice_of q 6 18"
proof
  assume eq: "slice_of p 6 18 = slice_of q 6 18"
  have "be64 (cp_nonce cp + 1 + of_nat i) = be64 (cp_nonce cp + 1 + of_nat j)"
    using encrypt_run_nonce [OF ctx _ assms(5)] encrypt_run_nonce [OF ctx _ assms(6)] ij eq by simp
  then have "(of_nat i :: 64 word) = of_nat j" by simp
  then have "unat (of_nat i :: 64 word) = unat (of_nat j :: 64 word)" by (rule arg_cong)
  moreover have "i < 2 ^ 64" "j < 2 ^ 64" using ij bound by linarith+
  ultimately show False using ij by (simp add: unat_of_nat take_bit_nat_eq_self)
qed

end

text \<open>QUIC mode: the nonce the next packet is sealed under.\<close>

definition quic_next_nonce :: "crypto \<Rightarrow> CipherPack \<Rightarrow> bytes" where
  "quic_next_nonce C cp = quicNonceFromPacket C (cp_key cp) (ucast ((cp_quicNonce cp + 1) AND 0xFFFF))"

definition quic_ctx :: "CipherPack \<Rightarrow> bytes \<Rightarrow> bytes \<Rightarrow> bool" where
  "quic_ctx cp key k \<longleftrightarrow> \<not> cp_noEncrypt cp \<and> cp_Mode cp = CipherModeQUIC
     \<and> cp_gcm cp = Some k \<and> cp_key cp = key"

lemma encryptQUIC_state:
  "fst (snd (encryptQUIC C padBuf cp g pt sid salt)) =
     cp\<lparr>cp_quicNonce := cp_quicNonce cp + 1, cp_prng := prng_next (cp_prng cp)\<rparr>"
  by (simp add: encryptQUIC_def prng_Uint32_def Let_def choose_pad_def
      split: outcome.splits option.splits prod.splits)

lemma encryptQUIC_sealed:
  assumes "quic_ctx cp key k" and "fst (Encrypt C padBuf cp g pt sid salt) = Ok pkt"
  shows "\<exists>n inner pn. build_inner padBuf pt n = Ok inner
    \<and> pkt = fst (EncodeQUICHeader C g (c_seal C k (quic_next_nonce C cp) inner) sid pn key (str_bytes salt))"
  using assms
  by (auto simp: quic_ctx_def Encrypt_def encryptQUIC_def Let_def quic_next_nonce_def choose_pad_def
      prng_Uint32_def split: outcome.splits prod.splits if_splits) (metis fst_conv)+

lemma encrypt_run_quic:
  assumes "quic_ctx cp key k"
  shows "quic_ctx (snd (encrypt_run C padBuf cp g ms salt)) key k
    \<and> cp_quicNonce (snd (encrypt_run C padBuf cp g ms salt)) = cp_quicNonce cp + of_nat (length ms)"
  using assms
proof (induction ms arbitrary: cp g)
  case (Cons m ms)
  obtain pt sid where m: "m = (pt, sid)" by (cases m)
  obtain r cp' g' where E: "Encrypt C padBuf cp g pt sid salt = (r, cp', g')"
    by (metis prod_cases3)
  have cp': "cp' = cp\<lparr>cp_quicNonce := cp_quicNonce cp + 1, cp_prng := prng_next (cp_prng cp)\<rparr>"
    using Cons.prems E encryptQUIC_state [of C padBuf cp g pt sid salt]
    by (simp add: quic_ctx_def Encrypt_def)
  then have ctx: "quic_ctx cp' key k" and n: "cp_quicNonce cp' = cp_quicNonce cp + 1"
    using Cons.prems by (simp_all add: quic_ctx_def)
  obtain rs cpn where run: "encrypt_run C padBuf cp' g' ms salt = (rs, cpn)" by fastforce
  from Cons.IH [OF ctx, of g'] show ?case
    by (simp add: m E run n add.assoc)
qed simp

lemma encryptQUIC_returns:
  assumes "quic_ctx cp key k" and "cp_PadMax cp \<le> 0" and "length pt \<le> 65493"
  shows "\<exists>pkt. fst (Encrypt C padBuf cp g pt sid salt) = Ok pkt"
proof -
  define cp1 where "cp1 = cp\<lparr>cp_quicNonce := cp_quicNonce cp + 1\<rparr>"
  obtain n where n: "n \<le> 40" "fst (choose_pad cp1) = Ok n"
    using choose_pad_default [of cp1] assms(2) by (auto simp: cp1_def)
  with assms show ?thesis
    by (auto simp: quic_ctx_def Encrypt_def encryptQUIC_def Let_def cp1_def [symmetric] build_inner_def
        split: prod.splits)
qed

lemma quic_pn_periodic: "((q + 65536) AND 0xFFFF :: 64 word) = q AND 0xFFFF"
proof -
  have m: "(0xFFFF :: 64 word) = mask 16" by (simp add: mask_eq_exp_minus_1)
  have "(unat q + 65536) mod 2 ^ 64 mod 2 ^ 16 = (unat q + 65536) mod (2 ^ 16)"
    by (rule mod_mod_cancel) (simp add: le_imp_power_dvd)
  then have "take_bit 16 (q + 65536) = take_bit 16 q"
    by (simp add: word_unat_eq_iff unsigned_take_bit_eq unat_word_ariths take_bit_eq_mod)
  then show ?thesis by (simp add: m take_bit_eq_mask [symmetric])
qed

lemma encrypt_outcome:
  assumes "\<not> cp_noEncrypt cp" and "65533 < length pt"
  shows "fst (Encrypt C padBuf cp g pt sid salt) = Panic"
proof -
  have "bindO pad (build_inner padBuf pt) = Panic" if "\<forall>e. pad \<noteq> Err e" for pad
    using assms(2) that by (cases pad) (auto simp: build_inner_def)
  moreover have "\<forall>e. fst (choose_pad c) \<noteq> Err e" for c
    by (simp add: choose_pad_def Let_def split: prod.splits)
  ultimately have p: "bindO (fst (choose_pad c)) (build_inner padBuf pt) = Panic" for c
    by blast
  have q: "bindO (fst (choose_pad c)) (\<lambda>n. bindO (build_inner padBuf pt n) f) = Panic" for c f
    using p [of c] by (cases "fst (choose_pad c)") auto
  show ?thesis
  proof (cases "cp_Mode cp")
    case CipherModeStandard
    obtain pad cp2 where c: "choose_pad (cp\<lparr>cp_nonce := cp_nonce cp + 1, cp_prng := prng_next (cp_prng cp)\<rparr>) = (pad, cp2)"
      by fastforce
    with q have "bindO pad (\<lambda>n. bindO (build_inner padBuf pt n) f) = Panic" for f by (metis fst_conv)
    with c CipherModeStandard assms(1) show ?thesis
      by (simp add: Encrypt_def encryptStandard_def Let_def prng_Uint32_def)
  next
    case CipherModeQUIC
    obtain pad cp2 where c: "choose_pad (cp\<lparr>cp_quicNonce := cp_quicNonce cp + 1\<rparr>) = (pad, cp2)"
      by fastforce
    with p have "bindO pad (build_inner padBuf pt) = Panic" by (metis fst_conv)
    with c CipherModeQUIC assms(1) show ?thesis
      by (simp add: Encrypt_def encryptQUIC_def Let_def)
  qed
qed

lemma Encrypt_PadMax [frame]: "cp_PadMax (fst (snd (Encrypt C padBuf cp g pt sid salt))) = cp_PadMax cp"
proof -
  have "cp_PadMax (snd (encryptStandard C padBuf cp pt sid salt)) = cp_PadMax cp"
    by (simp add: encryptStandard_state)
  then show ?thesis by (auto simp: Encrypt_def encryptQUIC_state split: prod.splits)
qed

lemma encrypt_run_PadMax: "cp_PadMax (snd (encrypt_run C padBuf cp g ms salt)) = cp_PadMax cp"
proof (induction ms arbitrary: cp g)
  case (Cons m ms)
  obtain pt sid r cp' g' where m: "m = (pt, sid)" and E: "Encrypt C padBuf cp g pt sid salt = (r, cp', g')"
    by (metis prod_cases3 surj_pair)
  have "cp_PadMax cp' = cp_PadMax cp" using Encrypt_PadMax [of C padBuf cp g pt sid salt] E by simp
  with Cons.IH [of cp' g'] show ?case by (auto simp: m E split: prod.splits)
qed simp

section \<open>Properties\<close>

definition sample_cp :: CipherPack where
  "sample_cp = \<lparr>cp_key = replicate 32 9, cp_gcm = Some (replicate 32 9), cp_nonce = 41, cp_quicNonce = 0,
     cp_prng = 88172645463325252, cp_noEncrypt = False, cp_Mode = CipherModeStandard, cp_PadMax = 0\<rparr>"

lemma sample_ctx: "std_ctx sample_cp (replicate 32 9) (replicate 32 9)"
  by (simp add: sample_cp_def std_ctx_def)

lemma sample_quic_ctx: "quic_ctx (sample_cp\<lparr>cp_Mode := CipherModeQUIC\<rparr>) (replicate 32 9) (replicate 32 9)"
  by (simp add: sample_cp_def quic_ctx_def)

text \<open>
  C1: in the standard mode with default padding, every plaintext of at most 65493 bytes
  is encrypted without error or panic, any context with the same key decrypts the packet
  to exactly that plaintext, and the sender's context stays usable.
\<close>

theorem cipher_round_trip:
  assumes "std_ctx cp key k" and "std_ctx rcv key k" and "cp_PadMax cp \<le> 0" and "length pt \<le> 65493"
  shows "\<exists>pkt cp'. Encrypt go_crypto padBuf cp g pt sid salt = (Ok pkt, cp', g)
    \<and> Decrypt go_crypto rcv pkt = (pkt, Ok pt)
    \<and> std_ctx cp' key k \<and> cp_PadMax cp' = cp_PadMax cp \<and> cp_nonce cp' = cp_nonce cp + 1"
  using std.std_round_trip [OF assms, of padBuf g sid salt] std_ctx_step [OF assms(1)] by fastforce

theorem cipher_round_trip_witness:
  "\<exists>pkt cp'. Encrypt go_crypto (\<lambda>_. 0) sample_cp qglobals_init [72, 105] 3 ''salt'' = (Ok pkt, cp', qglobals_init)
    \<and> Decrypt go_crypto sample_cp pkt = (pkt, Ok [72, 105])"
  using cipher_round_trip [OF sample_ctx sample_ctx, of "[72, 105]" "\<lambda>_. 0" qglobals_init 3 "''salt''"]
  by (auto simp: sample_cp_def)

text \<open>
  C11: whatever a standard-mode context decrypts was sealed under its AES key and the
  packet's own nonce, as the frame of the returned plaintext and some padding, and the
  packet's marker is the truncated HMAC of its dynamic id and nonce (up to bit 6).
\<close>

theorem decrypt_authentic:
  assumes "std_ctx cp key k" and "snd (Decrypt go_crypto cp pkt) = Ok pt"
  shows "\<exists>pad. 18 \<le> length pkt
    \<and> clear_marker_bit (take 4 pkt) = clear_marker_bit (take 4 (c_mac go_crypto key (slice_of pkt 4 18)))
    \<and> drop 18 pkt = c_seal go_crypto k (slice_of pkt 6 18) (be16 (of_nat (length pt)) @ pt @ pad)"
  using assms std.decrypt_standard_Ok [of cp pkt pt] by (auto simp: Decrypt_def std_ctx_def)

theorem decrypt_authentic_witness:
  "\<exists>pkt pad. snd (Decrypt go_crypto sample_cp pkt) = Ok [72, 105]
    \<and> drop 18 pkt = c_seal go_crypto (replicate 32 9) (slice_of pkt 6 18) (be16 2 @ [72, 105] @ pad)"
proof -
  obtain pkt where "Decrypt go_crypto sample_cp pkt = (pkt, Ok [72, 105])"
    using std.std_round_trip [OF sample_ctx sample_ctx, of "[72, 105]" "\<lambda>_. 0" qglobals_init 3 "''salt''"]
    by (auto simp: sample_cp_def)
  then have "snd (Decrypt go_crypto sample_cp pkt) = Ok [72, 105]" by simp
  from this decrypt_authentic [OF sample_ctx this] show ?thesis by auto
qed

text \<open>
  C40: no packet of at most 65535 bytes, whatever its content, makes Decrypt panic, in any
  mode of a context that has its cipher (or needs none).
\<close>

theorem decrypt_never_panics_on_datagrams:
  assumes "cp_noEncrypt cp \<or> cp_gcm cp \<noteq> None" and "length pkt \<le> 65535"
  shows "snd (Decrypt go_crypto cp pkt) \<noteq> Panic"
  using assms by (rule std.decrypt_no_panic)

theorem decrypt_never_panics_on_datagrams_witness:
  "snd (Decrypt go_crypto sample_cp (replicate 100 255)) \<noteq> Panic"
  using decrypt_never_panics_on_datagrams [of sample_cp "replicate 100 255"] by (simp add: sample_cp_def)

text \<open>
  With larger messages (a WebSocket frame or an HTTP body has no such limit) the
  16-bit bound in the slice expression wraps: in the no-encryption mode every packet of
  at least 65536 bytes whose length field is 65534 or 65535 makes Decrypt panic.
\<close>

theorem noop_decrypt_panics:
  assumes "65536 \<le> length rest" and "65534 \<le> unat n"
  shows "snd (Decrypt go_crypto NewNoopCipherPack (be16 n @ rest)) = Panic"
  using assms unat16_less [of n] by (simp add: Decrypt_def NewNoopCipherPack_def open_inner_Panic_iff)

theorem noop_decrypt_panics_witness:
  "snd (Decrypt go_crypto NewNoopCipherPack (be16 65535 @ replicate 65536 0)) = Panic"
  using noop_decrypt_panics [of "replicate 65536 0" 65535] by simp

text \<open>
  The no-encryption mode returns every plaintext of at most 65533 bytes unchanged, and
  a longer one cut to its length modulo 65536 where that is at most 65533.
\<close>

theorem noop_round_trip:
  assumes "length pt mod 65536 \<le> 65533"
  shows "\<exists>pkt. Encrypt go_crypto padBuf NewNoopCipherPack g pt sid salt = (Ok pkt, NewNoopCipherPack, g)
    \<and> Decrypt go_crypto NewNoopCipherPack pkt = (pkt, Ok (take (length pt mod 65536) pt))"
proof -
  let ?n = "length pt mod 65536"
  have "(of_nat (length pt) :: 16 word) = of_nat ?n"
    by (simp add: word_unat_eq_iff unat_of_nat take_bit_eq_mod)
  moreover have "length (take ?n pt) = ?n" by simp
  ultimately have w: "be16 (of_nat (length pt)) @ pt
      = be16 (of_nat (length (take ?n pt))) @ take ?n pt @ drop ?n pt"
    by simp
  have "open_inner short (be16 (of_nat (length pt)) @ pt) = Ok (take ?n pt)" for short
    unfolding w using assms by (intro open_inner_frame) simp
  then show ?thesis by (simp add: Encrypt_def Decrypt_def NewNoopCipherPack_def)
qed

theorem noop_round_trip_witness:
  "\<exists>pkt. Encrypt go_crypto (\<lambda>_. 0) NewNoopCipherPack qglobals_init [1, 2] 3 [] = (Ok pkt, NewNoopCipherPack, qglobals_init)
    \<and> Decrypt go_crypto NewNoopCipherPack pkt = (pkt, Ok [1, 2])"
  using noop_round_trip [of "[1, 2]" "\<lambda>_. 0" qglobals_init 3 "[]"] by simp

text \<open>
  C9: two packets a standard-mode context sends in one run (up to \<open>2^64\<close> messages) never
  carry the same nonce, so no AES-GCM nonce repeats and the server's replay key is fresh.
\<close>

theorem nonces_never_repeat:
  assumes "std_ctx cp key k" and "i < j" and "j < length ms" and "length ms \<le> 2 ^ 64"
    and "fst (encrypt_run go_crypto padBuf cp g ms salt) ! i = Ok p"
    and "fst (encrypt_run go_crypto padBuf cp g ms salt) ! j = Ok q"
  shows "slice_of p 6 18 \<noteq> slice_of q 6 18"
  using assms by (rule std.encrypt_run_distinct_nonces)

theorem nonces_never_repeat_witness:
  "\<exists>p q. fst (encrypt_run go_crypto (\<lambda>_. 0) sample_cp qglobals_init [([], 3), ([], 3)] []) = [Ok p, Ok q]
    \<and> slice_of p 6 18 \<noteq> slice_of q 6 18"
proof -
  define cp' where "cp' = sample_cp\<lparr>cp_nonce := cp_nonce sample_cp + 1,
    cp_prng := prng_next (prng_next (cp_prng sample_cp))\<rparr>"
  have ctx': "std_ctx cp' (replicate 32 9) (replicate 32 9)"
    unfolding cp'_def by (rule std_ctx_step [OF sample_ctx])
  obtain p where p: "Encrypt go_crypto (\<lambda>_. 0) sample_cp qglobals_init [] 3 [] = (Ok p, cp', qglobals_init)"
    using std.std_round_trip [OF sample_ctx sample_ctx, of "[]" "\<lambda>_. 0" qglobals_init 3 "[]"]
    by (auto simp: cp'_def sample_cp_def)
  obtain q cp'' where q: "Encrypt go_crypto (\<lambda>_. 0) cp' qglobals_init [] 3 [] = (Ok q, cp'', qglobals_init)"
    using std.std_round_trip [OF ctx' ctx', of "[]" "\<lambda>_. 0" qglobals_init 3 "[]"]
    by (auto simp: cp'_def sample_cp_def)
  have run: "fst (encrypt_run go_crypto (\<lambda>_. 0) sample_cp qglobals_init [([], 3), ([], 3)] []) = [Ok p, Ok q]"
    by (simp add: p q)
  with nonces_never_repeat [OF sample_ctx, of 0 1 "[([], 3), ([], 3)]" "\<lambda>_. 0" qglobals_init "[]" p q]
  show ?thesis by auto
qed

text \<open>
  Outside the no-encryption mode every plaintext longer than 65533 bytes makes Encrypt
  panic, in both packet formats and for every padding setting: the inner frame no longer
  fits the 65535-byte pooled buffer.
\<close>

theorem encrypt_panics_on_oversize:
  assumes "\<not> cp_noEncrypt cp" and "65533 < length pt"
  shows "fst (Encrypt go_crypto padBuf cp g pt sid salt) = Panic"
  using assms by (rule encrypt_outcome)

theorem encrypt_panics_on_oversize_witness:
  "fst (Encrypt go_crypto (\<lambda>_. 0) sample_cp qglobals_init (replicate 65534 0) 3 []) = Panic"
  using encrypt_panics_on_oversize [of sample_cp "replicate 65534 0"] by (simp add: sample_cp_def)

text \<open>
  In QUIC mode the AES-GCM nonce repeats: the first packet of any run and the one sent
  65536 packets later are sealed under the same key and the same nonce.
\<close>

theorem quic_nonce_reuse:
  assumes "quic_ctx cp key k" and "length rest = 65535"
    and "fst (encrypt_run go_crypto padBuf cp g ((pt, sid) # rest) salt) ! 0 = Ok p"
    and "fst (Encrypt go_crypto padBuf (snd (encrypt_run go_crypto padBuf cp g ((pt, sid) # rest) salt))
           g2 pt2 sid2 salt2) = Ok q"
  shows "\<exists>nonce a b pn pn2.
      p = fst (EncodeQUICHeader go_crypto g (c_seal go_crypto k nonce a) sid pn key (str_bytes salt))
    \<and> q = fst (EncodeQUICHeader go_crypto g2 (c_seal go_crypto k nonce b) sid2 pn2 key (str_bytes salt2))"
proof -
  define cp' where "cp' = snd (encrypt_run go_crypto padBuf cp g ((pt, sid) # rest) salt)"
  have ctx': "quic_ctx cp' key k" and n: "cp_quicNonce cp' = cp_quicNonce cp + 65536"
    using encrypt_run_quic [OF assms(1), of go_crypto padBuf g "(pt, sid) # rest" salt] assms(2)
    by (simp_all add: cp'_def)
  have same: "quic_next_nonce go_crypto cp' = quic_next_nonce go_crypto cp"
    using ctx' assms(1) quic_pn_periodic [of "cp_quicNonce cp + 1"]
    by (simp add: quic_next_nonce_def quic_ctx_def n add.commute add.left_commute)
  have "fst (Encrypt go_crypto padBuf cp g pt sid salt) = Ok p"
    using assms(3) by (simp split: prod.splits)
  from encryptQUIC_sealed [OF assms(1) this] encryptQUIC_sealed [OF ctx' assms(4) [folded cp'_def]]
  show ?thesis unfolding same by blast
qed

theorem quic_nonce_reuse_witness:
  "\<exists>p q nonce a b pn pn2.
     fst (encrypt_run go_crypto (\<lambda>_. 0) (sample_cp\<lparr>cp_Mode := CipherModeQUIC\<rparr>) qglobals_init
            (([], 3) # replicate 65535 ([], 3)) []) ! 0 = Ok p
   \<and> p = fst (EncodeQUICHeader go_crypto qglobals_init
            (c_seal go_crypto (replicate 32 9) nonce a) 3 pn (replicate 32 9) (str_bytes []))
   \<and> q = fst (EncodeQUICHeader go_crypto qglobals_init
            (c_seal go_crypto (replicate 32 9) nonce b) 3 pn2 (replicate 32 9) (str_bytes []))"
proof -
  let ?cp = "sample_cp\<lparr>cp_Mode := CipherModeQUIC\<rparr>"
  let ?ms = "([], 3) # replicate 65535 ([], 3)"
  let ?cp' = "snd (encrypt_run go_crypto (\<lambda>_. 0) ?cp qglobals_init ?ms [])"
  have "cp_PadMax ?cp \<le> 0" by (simp add: sample_cp_def)
  then obtain p where p: "fst (Encrypt go_crypto (\<lambda>_. 0) ?cp qglobals_init [] 3 []) = Ok p"
    using encryptQUIC_returns [OF sample_quic_ctx] by fastforce
  have ctx': "quic_ctx ?cp' (replicate 32 9) (replicate 32 9)"
    using encrypt_run_quic [OF sample_quic_ctx] by blast
  have "cp_PadMax ?cp' \<le> 0"
    using encrypt_run_PadMax [of go_crypto "\<lambda>_. 0" ?cp qglobals_init ?ms "[]"] by (simp add: sample_cp_def)
  then obtain q where q: "fst (Encrypt go_crypto (\<lambda>_. 0) ?cp' qglobals_init [] 3 []) = Ok q"
    using encryptQUIC_returns [OF ctx'] by fastforce
  have first: "fst (encrypt_run go_crypto (\<lambda>_. 0) ?cp qglobals_init ?ms []) ! 0 = Ok p"
    using p by (auto split: prod.splits)
  from first quic_nonce_reuse [OF sample_quic_ctx _ first q] show ?thesis by auto
qed

end
