(* ===== verification/Bloom.thy ===== *)
theory Bloom
  imports Fnv
begin

text \<open>
  The replay filter of \<^verbatim>\<open>server/server.go\<close>: \<^verbatim>\<open>bloomKey\<close>, \<^verbatim>\<open>bloomCheck\<close>,
  \<^verbatim>\<open>bloomSet\<close> and the periodic reset, over an array of 8192 words. The contract the
  packet handlers need is the locale \<open>replay_filter\<close>; the array is proved to refine a
  plain set of bit positions, and the locale is interpreted on it.
\<close>

section \<open>The code\<close>

type_synonym bloom = "64 word list"

definition bloom_zero :: bloom where
  "bloom_zero = replicate 8192 0"

definition bloom_totalBits :: "64 word" where
  "bloom_totalBits = of_nat (8192 * 64)"

definition bloom_seeds :: "64 word list" where
  "bloom_seeds = [0x1234567890ABCDEF, 0xFEDCBA0987654321, 0xA1B2C3D4E5F60708]"

definition bloomKey :: "16 word \<Rightarrow> bytes \<Rightarrow> bytes" where
  "bloomKey shortID nonce = be16 shortID @ nonce"

definition bloom_index :: "bytes \<Rightarrow> 64 word \<Rightarrow> 64 word" where
  "bloom_index key seed = Fnv1a64 key seed mod bloom_totalBits"

text \<open>\<^verbatim>\<open>bloom[h/64] & (1 << (h%64)) != 0\<close>\<close>

definition bloom_test :: "bloom \<Rightarrow> 64 word \<Rightarrow> bool" where
  "bloom_test bl h \<longleftrightarrow> bl ! unat (h div 64) AND push_bit (unat (h mod 64)) 1 \<noteq> 0"

definition bloomCheck :: "bloom \<Rightarrow> bytes \<Rightarrow> bool" where
  "bloomCheck bl key \<longleftrightarrow>
     \<not> (bloom_test bl (bloom_index key (bloom_seeds ! 0))
        \<and> bloom_test bl (bloom_index key (bloom_seeds ! 1))
        \<and> bloom_test bl (bloom_index key (bloom_seeds ! 2)))"

definition bloom_mark :: "bloom \<Rightarrow> 64 word \<Rightarrow> bloom" where
  "bloom_mark bl h = bl[unat (h div 64) := bl ! unat (h div 64) OR push_bit (unat (h mod 64)) 1]"

definition bloomSet :: "bloom \<Rightarrow> bytes \<Rightarrow> bloom" where
  "bloomSet bl key = foldl (\<lambda>bl seed. bloom_mark bl (bloom_index key seed)) bl bloom_seeds"

text \<open>The reset loop \<^verbatim>\<open>for i := range bloom { bloom[i] = 0 }\<close>\<close>

fun bloom_clear :: "bloom \<Rightarrow> bloom" where
  "bloom_clear [] = []"
| "bloom_clear (w # ws) = 0 # bloom_clear ws"

section \<open>The contract of a replay filter\<close>

locale replay_filter =
  fixes empty :: 'f
    and add :: "'f \<Rightarrow> 'k \<Rightarrow> 'f"
    and fresh :: "'f \<Rightarrow> 'k \<Rightarrow> bool"
    and invar :: "'f \<Rightarrow> bool"
  assumes invar_empty: "invar empty"
    and invar_add: "invar f \<Longrightarrow> invar (add f k)"
    and fresh_empty: "fresh empty k"
    and add_seen: "invar f \<Longrightarrow> \<not> fresh (add f k) k"
    and add_keeps: "invar f \<Longrightarrow> \<not> fresh f j \<Longrightarrow> \<not> fresh (add f k) j"
begin

lemma invar_run: "invar f \<Longrightarrow> invar (foldl add f ks)"
  by (induction ks arbitrary: f) (simp_all add: invar_add)

lemma seen_run: "invar f \<Longrightarrow> \<not> fresh f j \<Longrightarrow> \<not> fresh (foldl add f ks) j"
  by (induction ks arbitrary: f) (simp_all add: invar_add add_keeps)

lemma member_seen: "invar f \<Longrightarrow> k \<in> set ks \<Longrightarrow> \<not> fresh (foldl add f ks) k"
proof (induction ks arbitrary: f)
  case (Cons j ks)
  then show ?case
    using seen_run [OF invar_add add_seen] by (cases "k = j") (auto simp: invar_add)
qed simp

end

section \<open>Refinement: the array is a set of bit positions\<close>

definition bloom_bits :: "bloom \<Rightarrow> nat set" where
  "bloom_bits bl = {i. i < 524288 \<and> bit (bl ! (i div 64)) (i mod 64)}"

definition bloom_positions :: "bytes \<Rightarrow> nat set" where
  "bloom_positions key = (\<lambda>seed. unat (bloom_index key seed)) ` set bloom_seeds"

lemma bloom_index_bound: "unat (bloom_index key seed) < 524288"
  by (simp add: bloom_index_def bloom_totalBits_def unat_mod)

lemma bloom_test_bit: "bloom_test bl h \<longleftrightarrow> bit (bl ! (unat h div 64)) (unat h mod 64)"
proof -
  have "(w AND push_bit n 1 \<noteq> 0) = bit w n" if "n < 64" for w :: "64 word" and n
    using that by (simp add: and_exp_eq_0_iff_not_bit push_bit_of_1)
  then show ?thesis by (simp add: bloom_test_def unat_div unat_mod)
qed

lemma bloom_test_bits: "unat h < 524288 \<Longrightarrow> bloom_test bl h \<longleftrightarrow> unat h \<in> bloom_bits bl"
  by (simp add: bloom_test_bit bloom_bits_def)

lemma length_bloom_mark [simp]: "length (bloom_mark bl h) = length bl"
  by (simp add: bloom_mark_def)

lemma bloom_mark_bits:
  assumes "length bl = 8192" and "unat h < 524288"
  shows "bloom_bits (bloom_mark bl h) = insert (unat h) (bloom_bits bl)"
proof -
  have w: "unat (h div 64) = unat h div 64" "unat (h mod 64) = unat h mod 64"
    by (simp_all add: unat_div unat_mod)
  have lt: "unat h div 64 < 8192" using assms(2) by (simp add: less_mult_imp_div_less)
  have "bit (bloom_mark bl h ! (i div 64)) (i mod 64) \<longleftrightarrow> i = unat h \<or> bit (bl ! (i div 64)) (i mod 64)"
    if "i < 524288" for i
  proof (cases "i div 64 = unat h div 64")
    case True
    then have "i mod 64 = unat h mod 64 \<longleftrightarrow> i = unat h" by (metis div_mult_mod_eq)
    with True lt assms(1) show ?thesis
      by (auto simp: bloom_mark_def w bit_simps)
  next
    case False
    then have "i \<noteq> unat h" by auto
    with False show ?thesis by (simp add: bloom_mark_def w)
  qed
  with assms(2) show ?thesis by (auto simp: bloom_bits_def)
qed

lemma length_bloomSet [simp]: "length (bloomSet bl key) = length bl"
  by (simp add: bloomSet_def bloom_seeds_def)

lemma bloomSet_bits:
  "length bl = 8192 \<Longrightarrow> bloom_bits (bloomSet bl key) = bloom_bits bl \<union> bloom_positions key"
  by (simp add: bloomSet_def bloom_seeds_def bloom_mark_bits bloom_index_bound bloom_positions_def
      insert_commute)

lemma bloomCheck_bits: "bloomCheck bl key \<longleftrightarrow> \<not> bloom_positions key \<subseteq> bloom_bits bl"
  by (simp add: bloomCheck_def bloom_seeds_def bloom_test_bits bloom_index_bound bloom_positions_def)

lemma bloom_clear_zero [simp]: "bloom_clear bl = replicate (length bl) 0"
  by (induction bl) simp_all

lemma bloom_zero_bits: "bloom_bits bloom_zero = {}"
  by (auto simp: bloom_bits_def bloom_zero_def)

lemma bloom_positions_nonempty: "bloom_positions key \<noteq> {}"
  by (simp add: bloom_positions_def bloom_seeds_def)

interpretation bloom: replay_filter bloom_zero bloomSet bloomCheck "\<lambda>bl. length bl = 8192"
  by unfold_locales
    (auto simp: bloom_zero_def [THEN arg_cong [where f = length]] bloomCheck_bits bloomSet_bits
      bloom_zero_bits bloom_positions_nonempty)

lemma bloomKey_inject: "bloomKey s n = bloomKey s' n' \<longleftrightarrow> s = s' \<and> n = n'"
  by (auto simp: bloomKey_def)

section \<open>Properties\<close>

text \<open>
  The array filter implements a growing set of bit positions: checking a key asks
  whether its positions are all present, setting it adds exactly them, and the reset
  empties the set.
\<close>

theorem bloom_refines_set:
  assumes "length bl = 8192"
  shows "(bloomCheck bl key \<longleftrightarrow> \<not> bloom_positions key \<subseteq> bloom_bits bl)
    \<and> bloom_bits (bloomSet bl key) = bloom_bits bl \<union> bloom_positions key
    \<and> length (bloomSet bl key) = 8192
    \<and> bloom_bits (bloom_clear bl) = {} \<and> bloomCheck (bloom_clear bl) key"
  using assms bloom_zero_bits bloom.fresh_empty [of key]
  by (simp add: bloomCheck_bits bloomSet_bits bloom_zero_def)

theorem bloom_refines_set_witness:
  "bloom_bits (bloomSet bloom_zero [1, 2, 3]) = bloom_positions [1, 2, 3]"
  using bloom_refines_set [of bloom_zero "[1, 2, 3]"] by (simp add: bloom_zero_bits bloom.invar_empty)

text \<open>
  The filter has no false negatives: after any sequence of insertions every inserted
  key is reported as seen, however many others were inserted before or after it.
\<close>

theorem bloom_no_false_negatives:
  assumes "length bl = 8192" and "key \<in> set keys"
  shows "\<not> bloomCheck (foldl bloomSet bl keys) key"
  using assms by (rule bloom.member_seen)

theorem bloom_no_false_negatives_witness:
  "\<not> bloomCheck (foldl bloomSet bloom_zero [[1], [2], [3]]) [2]"
  using bloom_no_false_negatives [of bloom_zero "[2]" "[[1], [2], [3]]"] by (simp add: bloom.invar_empty)

end
