(* ===== verification/Peers.thy ===== *)
theory Peers
  imports Cipher Config Bloom "HOL-Library.AList"
begin

text \<open>
  The server's state (\<^verbatim>\<open>server/server.go\<close>): peers, the two maps that point at them,
  the replay filter and the drop counters. Peers are objects reached through pointers from
  both maps, so they live in an explicit store and the maps hold references. The Go maps
  are association lists with distinct keys; nothing depends on their order.
\<close>

section \<open>Writers\<close>

type_synonym udp_addr = string

text \<open>A WebSocket connection is named by a number.\<close>

datatype PacketWriter = UDPWriter udp_addr | WSSPeerConn nat

text \<open>
  \<^verbatim>\<open>WritePacket\<close>: the clamp, then up to \<open>fec\<close> sends, stopping at the first error.
  \<open>ok i\<close> says whether send \<open>i\<close> succeeds; the result is the number of copies that went
  out and whether an error was returned.
\<close>

fun write_copies :: "(nat \<Rightarrow> bool) \<Rightarrow> nat \<Rightarrow> nat \<Rightarrow> nat \<times> bool" where
  "write_copies ok i 0 = (i, False)"
| "write_copies ok i (Suc n) = (if ok i then write_copies ok (Suc i) n else (i, True))"

definition UDPWriter_WritePacket :: "(nat \<Rightarrow> bool) \<Rightarrow> int \<Rightarrow> nat \<times> bool" where
  "UDPWriter_WritePacket ok fec = write_copies ok 0 (clamp_fec fec)"

text \<open>The WebSocket writer also closes its connection when a send fails (third component).\<close>

definition WSSPeerConn_WritePacket :: "(nat \<Rightarrow> bool) \<Rightarrow> int \<Rightarrow> nat \<times> bool \<times> bool" where
  "WSSPeerConn_WritePacket ok fec =
     (let (n, err) = write_copies ok 0 (clamp_fec fec) in (n, err, err))"

section \<open>Peers and the server\<close>

record Peer =
  p_ShortID :: "16 word"
  p_Name :: string
  p_KeyRaw :: string
  p_Key :: bytes
  p_CP :: "CipherPack option"
  p_cpLocked :: bool
  p_Internal :: string
  p_UDPAddr :: "udp_addr option"
  p_Writer :: "PacketWriter option"
  p_ByteOut :: "64 word"
  p_ByteIn :: "64 word"
  p_CumTx :: "64 word"
  p_CumRx :: "64 word"
  p_LastSeen :: "64 word"

text \<open>\<open>p_cpLocked\<close> is true while \<^verbatim>\<open>cpMu\<close> is held; handlers run one at a time, so it is true
  between handlers only when a handler panicked with the lock held. A handler ends in one
  of three ways; blocking is waiting for a lock that nobody will release.\<close>

datatype ending = Returned | Panicked | Blocked

record server =
  s_store :: "nat \<Rightarrow> Peer"
  s_nextRef :: nat
  s_peers :: "(16 word \<times> nat) list"
  s_ipToPeer :: "(string \<times> nat) list"
  s_bloom :: bloom
  s_bloomCount :: "64 word"
  s_dropNoPeer :: "64 word"
  s_dropReplay :: "64 word"
  s_dropHMAC :: "64 word"
  s_dropDecrypt :: "64 word"
  s_lastDropLogAt :: "int option"
  s_cfg :: Config
  s_routingSalt :: string
  s_quic :: qglobals

text \<open>What the outside sees: packets into the TUN device, packets out through a writer
  (with the duplication factor passed along), bytes into an HTTP response, and the
  aggregated drop report.\<close>

datatype effect =
    TunWrite bytes
  | WritePacket PacketWriter bytes int
  | HttpWrite bytes
  | HttpError nat
  | DropReport "64 word" "64 word" "64 word" "64 word" "64 word"

text \<open>What a handler reads from its surroundings: the clock (monotonic nanoseconds and Unix
  seconds), whether the TUN device takes a packet, the padding buffer.\<close>

record env =
  e_nanos :: int
  e_unix :: "64 word"
  e_tunOK :: "bytes \<Rightarrow> bool"
  e_padBuf :: "nat \<Rightarrow> byte"

definition upd_peer :: "nat \<Rightarrow> (Peer \<Rightarrow> Peer) \<Rightarrow> server \<Rightarrow> server" where
  "upd_peer r f s = s\<lparr>s_store := (s_store s)(r := f (s_store s r))\<rparr>"

text \<open>
  \<^verbatim>\<open>logDrops\<close>: at most once in 60 seconds take the four counters and report them. The
  zero \<^verbatim>\<open>time.Time\<close> (None) is more than 60 seconds ago.
\<close>

definition logDrops :: "env \<Rightarrow> server \<Rightarrow> server \<times> effect list" where
  "logDrops e s =
     (if (case s_lastDropLogAt s of None \<Rightarrow> False | Some t \<Rightarrow> e_nanos e - t < 60000000000) then (s, [])
      else let noPeer = s_dropNoPeer s; replay = s_dropReplay s;
               hmac = s_dropHMAC s; decrypt = s_dropDecrypt s;
               total = noPeer + replay + hmac + decrypt;
               s' = s\<lparr>s_lastDropLogAt := Some (e_nanos e), s_dropNoPeer := 0, s_dropReplay := 0,
                      s_dropHMAC := 0, s_dropDecrypt := 0\<rparr>
           in (s', if 0 <s total then [DropReport total noPeer replay hmac decrypt] else []))"

section \<open>Registering the configured users\<close>

definition new_peer :: "16 word \<Rightarrow> string \<Rightarrow> string \<Rightarrow> bytes \<Rightarrow> CipherPack option \<Rightarrow> string \<Rightarrow> Peer" where
  "new_peer shortID name keyRaw key cp ip =
     \<lparr>p_ShortID = shortID, p_Name = name, p_KeyRaw = keyRaw, p_Key = key, p_CP = cp,
      p_cpLocked = False, p_Internal = ip, p_UDPAddr = None, p_Writer = None, p_ByteOut = 0, p_ByteIn = 0,
      p_CumTx = 0, p_CumRx = 0, p_LastSeen = 0\<rparr>"

definition add_peer :: "Peer \<Rightarrow> server \<Rightarrow> server" where
  "add_peer p s =
     (let r = s_nextRef s
      in s\<lparr>s_store := (s_store s)(r := p), s_nextRef := r + 1,
          s_peers := AList.update (p_ShortID p) r (s_peers s),
          s_ipToPeer := AList.update (p_Internal p) r (s_ipToPeer s)\<rparr>)"

text \<open>The loop over \<^verbatim>\<open>cfg.Users\<close> in \<^verbatim>\<open>main\<close>; \<open>Err\<close> is \<^verbatim>\<open>log.Fatalf\<close>. The seeds are the
  random bytes each new cipher context draws.\<close>

fun register_users :: "crypto \<Rightarrow> (User \<times> 64 word) list \<Rightarrow> server \<Rightarrow> server outcome" where
  "register_users C [] s = Ok s"
| "register_users C ((u, seed) # us) s =
     (let key = c_sha C (str_bytes (u_SecretKey u));
          cp = (if cfg_NoEncrypt (s_cfg s) then Ok NewNoopCipherPack else NewCipherPack C key seed)
      in bindO cp (\<lambda>cp.
           if u_ShortID u = 0 then Err ''short_id must not be 0''
           else if map_of (s_peers s) (u_ShortID u) \<noteq> None then Err ''duplicate short_id''
           else register_users C us
                  (add_peer (new_peer (u_ShortID u) (u_Name u) (u_SecretKey u) key (Some cp) (u_IP u)) s)))"

definition init_server :: "Config \<Rightarrow> server" where
  "init_server cfg =
     \<lparr>s_store = (\<lambda>_. new_peer 0 [] [] [] None []), s_nextRef = 0, s_peers = [], s_ipToPeer = [],
      s_bloom = bloom_zero, s_bloomCount = 0, s_dropNoPeer = 0, s_dropReplay = 0, s_dropHMAC = 0,
      s_dropDecrypt = 0, s_lastDropLogAt = None, s_cfg = cfg, s_routingSalt = cfg_RoutingSalt cfg,
      s_quic = qglobals_init\<rparr>"

section \<open>The invariant of the peer tables\<close>

text \<open>
  The replay filter has its size, map keys are distinct, every reference is allocated, a
  peer is filed under its own non-zero short id, and every address entry leads to a peer
  filed in the main map whose address it is.
\<close>

definition server_inv :: "server \<Rightarrow> bool" where
  "server_inv s \<longleftrightarrow>
     length (s_bloom s) = 8192
     \<and> distinct (map fst (s_peers s)) \<and> distinct (map fst (s_ipToPeer s))
     \<and> (\<forall>k r. map_of (s_peers s) k = Some r \<longrightarrow>
          r < s_nextRef s \<and> p_ShortID (s_store s r) = k \<and> k \<noteq> 0)
     \<and> (\<forall>ip r. map_of (s_ipToPeer s) ip = Some r \<longrightarrow>
          p_Internal (s_store s r) = ip \<and> map_of (s_peers s) (p_ShortID (s_store s r)) = Some r)"

lemma server_invD:
  assumes "server_inv s"
  shows "length (s_bloom s) = 8192" and "distinct (map fst (s_peers s))" and "distinct (map fst (s_ipToPeer s))"
    and "map_of (s_peers s) k = Some r \<Longrightarrow> r < s_nextRef s \<and> p_ShortID (s_store s r) = k \<and> k \<noteq> 0"
    and "map_of (s_ipToPeer s) ip = Some r \<Longrightarrow>
      p_Internal (s_store s r) = ip \<and> map_of (s_peers s) (p_ShortID (s_store s r)) = Some r"
  using assms unfolding server_inv_def by blast+

lemma server_invI:
  assumes "length (s_bloom s) = 8192" and "distinct (map fst (s_peers s))" and "distinct (map fst (s_ipToPeer s))"
    and "\<And>k r. map_of (s_peers s) k = Some r \<Longrightarrow> r < s_nextRef s \<and> p_ShortID (s_store s r) = k \<and> k \<noteq> 0"
    and "\<And>ip r. map_of (s_ipToPeer s) ip = Some r \<Longrightarrow>
      p_Internal (s_store s r) = ip \<and> map_of (s_peers s) (p_ShortID (s_store s r)) = Some r"
  shows "server_inv s"
  using assms unfolding server_inv_def by blast

text \<open>Every filed peer has a cipher context.\<close>

definition peers_have_cp :: "server \<Rightarrow> bool" where
  "peers_have_cp s \<longleftrightarrow> (\<forall>k r. map_of (s_peers s) k = Some r \<longrightarrow> p_CP (s_store s r) \<noteq> None)"

lemma server_inv_init: "server_inv (init_server cfg)"
  by (simp add: server_inv_def init_server_def bloom.invar_empty)

lemma upd_peer_select [simp, frame]:
  "s_nextRef (upd_peer r f s) = s_nextRef s" "s_peers (upd_peer r f s) = s_peers s"
  "s_ipToPeer (upd_peer r f s) = s_ipToPeer s" "s_bloom (upd_peer r f s) = s_bloom s"
  "s_bloomCount (upd_peer r f s) = s_bloomCount s" "s_cfg (upd_peer r f s) = s_cfg s"
  "s_routingSalt (upd_peer r f s) = s_routingSalt s" "s_quic (upd_peer r f s) = s_quic s"
  "s_store (upd_peer r f s) = (s_store s)(r := f (s_store s r))"
  by (simp_all add: upd_peer_def)

lemma logDrops_select [simp, frame]:
  "s_store (fst (logDrops e s)) = s_store s" "s_nextRef (fst (logDrops e s)) = s_nextRef s"
  "s_peers (fst (logDrops e s)) = s_peers s" "s_ipToPeer (fst (logDrops e s)) = s_ipToPeer s"
  "s_bloom (fst (logDrops e s)) = s_bloom s" "s_bloomCount (fst (logDrops e s)) = s_bloomCount s"
  "s_cfg (fst (logDrops e s)) = s_cfg s" "s_routingSalt (fst (logDrops e s)) = s_routingSalt s"
  "s_quic (fst (logDrops e s)) = s_quic s"
  by (simp_all add: logDrops_def Let_def)

lemma logDrops_effects: "eff \<in> set (snd (logDrops e s)) \<Longrightarrow> \<exists>a b c d t. eff = DropReport a b c d t"
  by (auto simp: logDrops_def Let_def split: if_splits)

text \<open>A change of a peer that keeps its id and address, and any change of counters, keeps the
  tables consistent.\<close>

lemma server_inv_upd_peer:
  assumes "server_inv s" and "\<And>p. p_ShortID (f p) = p_ShortID p" and "\<And>p. p_Internal (f p) = p_Internal p"
  shows "server_inv (upd_peer r f s)"
  using assms by (auto simp: server_inv_def)

lemma server_inv_cong:
  assumes "server_inv s" and "s_store s' = s_store s" and "s_nextRef s' = s_nextRef s"
    and "s_peers s' = s_peers s" and "s_ipToPeer s' = s_ipToPeer s" and "length (s_bloom s') = length (s_bloom s)"
  shows "server_inv s'"
  using assms by (simp add: server_inv_def)

lemma server_inv_logDrops [simp]: "server_inv s \<Longrightarrow> server_inv (fst (logDrops e s))"
  by (erule server_inv_cong) simp_all

lemma server_inv_add_peer:
  assumes "server_inv s" and "map_of (s_peers s) (p_ShortID p) = None" and "p_ShortID p \<noteq> 0"
  shows "server_inv (add_peer p s)"
proof -
  from assms(1) have old: "\<forall>k r. map_of (s_peers s) k = Some r \<longrightarrow>
      r < s_nextRef s \<and> p_ShortID (s_store s r) = k \<and> k \<noteq> 0"
    and old_ip: "\<forall>ip r. map_of (s_ipToPeer s) ip = Some r \<longrightarrow>
      p_Internal (s_store s r) = ip \<and> map_of (s_peers s) (p_ShortID (s_store s r)) = Some r"
    unfolding server_inv_def by blast+
  have fresh: "map_of (s_peers s) k \<noteq> Some (s_nextRef s)" for k
    using old by (metis less_irrefl)
  have fresh_ip: "map_of (s_ipToPeer s) ip \<noteq> Some (s_nextRef s)" for ip
    using old_ip fresh by metis
  have "\<forall>k r. map_of (s_peers (add_peer p s)) k = Some r \<longrightarrow>
      r < s_nextRef (add_peer p s) \<and> p_ShortID (s_store (add_peer p s) r) = k \<and> k \<noteq> 0"
    using old fresh assms(3) unfolding add_peer_def Let_def
    by (simp add: update_conv' del: map_of_eq_Some_iff) (metis less_SucI)
  moreover have "\<forall>ip r. map_of (s_ipToPeer (add_peer p s)) ip = Some r \<longrightarrow>
      p_Internal (s_store (add_peer p s) r) = ip
      \<and> map_of (s_peers (add_peer p s)) (p_ShortID (s_store (add_peer p s) r)) = Some r"
    using old_ip fresh_ip assms(2) unfolding add_peer_def Let_def
    by (simp add: update_conv' del: map_of_eq_Some_iff) (metis option.distinct(1))
  moreover have "distinct (map fst (s_peers (add_peer p s)))" "distinct (map fst (s_ipToPeer (add_peer p s)))"
      "length (s_bloom (add_peer p s)) = 8192"
    using assms(1) by (simp_all add: server_inv_def add_peer_def Let_def distinct_update)
  ultimately show ?thesis
    unfolding server_inv_def by blast
qed

section \<open>A server with one peer\<close>

definition sample_server :: server where
  "sample_server = add_peer
     ((new_peer 3 ''alice'' ''secret'' (replicate 32 9) (Some sample_cp) ''10.0.0.5'')\<lparr>p_Writer := Some (UDPWriter ''c:1'')\<rparr>)
     (init_server zero_Config)"

lemma sample_server_inv: "server_inv sample_server"
  unfolding sample_server_def
  by (rule server_inv_add_peer [OF server_inv_init]) (simp_all add: init_server_def new_peer_def)

lemma sample_server_select [simp]:
  "s_peers sample_server = [(3, 0)]" "s_ipToPeer sample_server = [(''10.0.0.5'', 0)]"
  "s_bloom sample_server = bloom_zero" "s_cfg sample_server = zero_Config"
  "p_CP (s_store sample_server 0) = Some sample_cp" "\<not> p_cpLocked (s_store sample_server 0)"
  "p_ShortID (s_store sample_server 0) = 3" "p_Internal (s_store sample_server 0) = ''10.0.0.5''"
  "p_Writer (s_store sample_server 0) = Some (UDPWriter ''c:1'')"
  by (simp_all add: sample_server_def add_peer_def new_peer_def init_server_def Let_def)

definition sample_io :: env where
  "sample_io = \<lparr>e_nanos = 0, e_unix = 1000, e_tunOK = (\<lambda>_. True), e_padBuf = (\<lambda>_. 0)\<rparr>"

end
