(* ===== verification/Handlers.thy ===== *)
theory Handlers
  imports Peers
begin

text \<open>
  The server's packet handlers (\<^verbatim>\<open>server/server.go\<close>): \<^verbatim>\<open>processPacket\<close>, which the main
  loop runs for every packet of the UDP and WebSocket readers, \<^verbatim>\<open>xhttpProcessPacket\<close> and
  the HTTP handler that calls it for one packet or a batch. A handler returns the state it
  leaves, what it wrote, and how it ended.
\<close>

section \<open>processPacket\<close>

record IncomingPacket =
  in_Data :: bytes
  in_Writer :: "PacketWriter option"
  in_ShortID :: "16 word"
  in_IsQUIC :: bool

text \<open>The reply transport of the peer; for UDP the address is stored too.\<close>

definition set_writer :: "PacketWriter option \<Rightarrow> Peer \<Rightarrow> Peer" where
  "set_writer w p =
     (case w of
        None \<Rightarrow> p
      | Some (UDPWriter a) \<Rightarrow> p\<lparr>p_Writer := w, p_UDPAddr := Some a\<rparr>
      | Some (WSSPeerConn c) \<Rightarrow> p\<lparr>p_Writer := w\<rparr>)"

text \<open>The temporary switch of the cipher mode around a call.\<close>

definition with_mode :: "bool \<Rightarrow> CipherPack \<Rightarrow> CipherPack" where
  "with_mode isQUIC cp = (if isQUIC then cp\<lparr>cp_Mode := CipherModeQUIC\<rparr> else cp)"

text \<open>\<^verbatim>\<open>peer.CP.Decrypt(packet)\<close>; a nil context panics.\<close>

definition peer_decrypt :: "crypto \<Rightarrow> bool \<Rightarrow> Peer \<Rightarrow> bytes \<Rightarrow> bytes outcome" where
  "peer_decrypt C isQUIC p packet =
     (case p_CP p of None \<Rightarrow> Panic | Some cp \<Rightarrow> snd (Decrypt C (with_mode isQUIC cp) packet))"

text \<open>\<^verbatim>\<open>peer.CP.Encrypt(data, peer.ShortID, routingSalt)\<close>, with the mode put back.\<close>

definition peer_encrypt :: "crypto \<Rightarrow> env \<Rightarrow> bool \<Rightarrow> nat \<Rightarrow> bytes \<Rightarrow> server \<Rightarrow> bytes outcome \<times> server" where
  "peer_encrypt C e isQUIC r data s =
     (case p_CP (s_store s r) of
        None \<Rightarrow> (Panic, s)
      | Some cp \<Rightarrow>
          let (res, cp', g) = Encrypt C (e_padBuf e) (with_mode isQUIC cp) (s_quic s) data
                (p_ShortID (s_store s r)) (s_routingSalt s)
          in (res, (upd_peer r (\<lambda>p. p\<lparr>p_CP := Some (cp'\<lparr>cp_Mode := cp_Mode cp\<rparr>)\<rparr>) s)\<lparr>s_quic := g\<rparr>))"

definition lock_peer :: "nat \<Rightarrow> server \<Rightarrow> server" where
  "lock_peer r s = upd_peer r (\<lambda>p. p\<lparr>p_cpLocked := True\<rparr>) s"

text \<open>Counting a dropped packet, then the aggregated log.\<close>

definition drop_noPeer :: "env \<Rightarrow> server \<Rightarrow> server \<times> effect list" where
  "drop_noPeer e s = logDrops e (s\<lparr>s_dropNoPeer := s_dropNoPeer s + 1\<rparr>)"

definition drop_replay :: "env \<Rightarrow> server \<Rightarrow> server \<times> effect list" where
  "drop_replay e s = logDrops e (s\<lparr>s_dropReplay := s_dropReplay s + 1\<rparr>)"

definition drop_failed :: "env \<Rightarrow> string \<Rightarrow> server \<Rightarrow> server \<times> effect list" where
  "drop_failed e msg s =
     logDrops e (if str_contains msg ''HMAC'' then s\<lparr>s_dropHMAC := s_dropHMAC s + 1\<rparr>
                 else s\<lparr>s_dropDecrypt := s_dropDecrypt s + 1\<rparr>)"

definition keep_alive_echo :: "crypto \<Rightarrow> env \<Rightarrow> bool \<Rightarrow> nat \<Rightarrow> server \<Rightarrow> server \<times> effect list \<times> ending" where
  "keep_alive_echo C e isQUIC r s =
     (let (res, s') = peer_encrypt C e isQUIC r [1] s
      in case res of
           Panic \<Rightarrow> (lock_peer r s', [], Panicked)
         | Err m \<Rightarrow> (s', [], Returned)
         | Ok enc \<Rightarrow>
             (s', case p_Writer (s_store s' r) of
                    None \<Rightarrow> []
                  | Some w \<Rightarrow> [WritePacket w enc (cfg_FEC (s_cfg s'))], Returned))"

text \<open>\<^verbatim>\<open>ByteIn\<close> and \<^verbatim>\<open>CumRx\<close>\<close>

definition count_in :: "nat \<Rightarrow> Peer \<Rightarrow> Peer" where
  "count_in n p = p\<lparr>p_ByteIn := p_ByteIn p + of_nat n, p_CumRx := p_CumRx p + of_nat n\<rparr>"

text \<open>What happens to a packet that decrypted: \<open>mark\<close> is the filter key to set, if any.\<close>

definition accept_packet ::
  "crypto \<Rightarrow> env \<Rightarrow> bool \<Rightarrow> nat \<Rightarrow> bytes option \<Rightarrow> bytes \<Rightarrow> server \<Rightarrow> server \<times> effect list \<times> ending" where
  "accept_packet C e isQUIC r mark decrypted s =
     (let s1 = (case mark of
                  None \<Rightarrow> s
                | Some k \<Rightarrow> s\<lparr>s_bloom := bloomSet (s_bloom s) k, s_bloomCount := s_bloomCount s + 1\<rparr>);
          s2 = upd_peer r (\<lambda>p. p\<lparr>p_LastSeen := e_unix e\<rparr>) s1
      in if decrypted = [] then keep_alive_echo C e isQUIC r s2
         else if \<not> e_tunOK e decrypted then (s2, [], Returned)
         else (upd_peer r (count_in (length decrypted)) s2, [TunWrite decrypted], Returned))"

definition processPacket :: "crypto \<Rightarrow> env \<Rightarrow> IncomingPacket \<Rightarrow> server \<Rightarrow> server \<times> effect list \<times> ending" where
  "processPacket C e pkt s =
     (case map_of (s_peers s) (in_ShortID pkt) of
        None \<Rightarrow> let (s', eff) = drop_noPeer e s in (s', eff, Returned)
      | Some r \<Rightarrow>
          let s1 = upd_peer r (set_writer (in_Writer pkt)) s;
              packet = in_Data pkt;
              bkey = (if \<not> in_IsQUIC pkt \<and> 4 + 2 + 12 \<le> length packet \<and> \<not> cfg_NoEncrypt (s_cfg s)
                      then Some (bloomKey (in_ShortID pkt) (slice_of packet 6 18)) else None)
          in if p_cpLocked (s_store s1 r) then (s1, [], Blocked)
             else if (case bkey of None \<Rightarrow> False | Some k \<Rightarrow> \<not> bloomCheck (s_bloom s1) k)
             then let (s', eff) = drop_replay e s1 in (s', eff, Returned)
             else (case peer_decrypt C (in_IsQUIC pkt) (s_store s1 r) packet of
                     Panic \<Rightarrow> (lock_peer r (upd_peer r (\<lambda>p. p\<lparr>p_CP := map_option (with_mode (in_IsQUIC pkt)) (p_CP p)\<rparr>) s1),
                               [], Panicked)
                   | Err msg \<Rightarrow> let (s', eff) = drop_failed e msg s1 in (s', eff, Returned)
                   | Ok decrypted \<Rightarrow> accept_packet C e (in_IsQUIC pkt) r bkey decrypted s1))"

section \<open>XHTTP\<close>

text \<open>The short id a packet of the standard format addresses.\<close>

definition packet_shortID :: "string \<Rightarrow> bytes \<Rightarrow> 16 word" where
  "packet_shortID salt pkt =
     get16 (slice_of pkt 4 6) XOR Fnv1a16 (str_bytes salt @ slice_of pkt 6 18)"

text \<open>Decrypting and delivering for peer \<open>r\<close>. The third component is what the handler writes
  to \<^verbatim>\<open>w\<close>; the byte counters grow even when the TUN write failed.\<close>

definition xhttp_deliver ::
  "crypto \<Rightarrow> env \<Rightarrow> nat \<Rightarrow> bytes \<Rightarrow> server \<Rightarrow> server \<times> effect list \<times> bytes \<times> ending" where
  "xhttp_deliver C e r pkt s =
     (if p_cpLocked (s_store s r) then (s, [], [], Blocked)
      else case peer_decrypt C False (s_store s r) pkt of
        Panic \<Rightarrow> (lock_peer r s, [], [], Panicked)
      | Err msg \<Rightarrow> (s, [], [], Returned)
      | Ok decrypted \<Rightarrow>
          if decrypted = []
          then let (res, s') = peer_encrypt C e False r [1] s
               in case res of
                    Panic \<Rightarrow> (lock_peer r s', [], [], Panicked)
                  | Err m \<Rightarrow> (s', [], [], Returned)
                  | Ok enc \<Rightarrow> (s', [], enc, Returned)
          else (upd_peer r (count_in (length decrypted)) s,
                if e_tunOK e decrypted then [TunWrite decrypted] else [], [], Returned))"

text \<open>The filter is set before the packet is decrypted.\<close>

definition xhttpProcessPacket ::
  "crypto \<Rightarrow> env \<Rightarrow> bytes \<Rightarrow> server \<Rightarrow> server \<times> effect list \<times> bytes \<times> ending" where
  "xhttpProcessPacket C e pkt s =
     (if length pkt < 4 + 2 + 12 then (s, [], [], Returned)
      else let shortID = packet_shortID (s_routingSalt s) pkt
      in case map_of (s_peers s) shortID of
           None \<Rightarrow> (s, [], [], Returned)
         | Some r \<Rightarrow>
             let bkey = bloomKey shortID (slice_of pkt 6 18)
             in if cfg_NoEncrypt (s_cfg s) then xhttp_deliver C e r pkt s
                else if \<not> bloomCheck (s_bloom s) bkey then (s, [], [], Returned)
                else xhttp_deliver C e r pkt
                       (s\<lparr>s_bloom := bloomSet (s_bloom s) bkey, s_bloomCount := s_bloomCount s + 1\<rparr>))"

text \<open>
  The batch loop over \<^verbatim>\<open>[len(4) data]*\<close>. A packet that panics or blocks ends the handler:
  the echoes collected so far are then never written (\<open>ending\<close> tells).
\<close>

function xhttp_batch ::
  "crypto \<Rightarrow> env \<Rightarrow> bytes \<Rightarrow> nat \<Rightarrow> nat \<Rightarrow> nat \<Rightarrow> server \<Rightarrow> server \<times> effect list \<times> bytes \<times> ending" where
  "xhttp_batch C e body count i off s =
     (if \<not> (i < count \<and> off + 6 \<le> length body) then (s, [], [], Returned)
      else let pktLen = unat (get32 (drop off body))
           in if length body < off + 4 + pktLen \<or> pktLen < 4 + 2 + 12 then (s, [], [], Returned)
              else let (s1, eff, echo, ending) = xhttpProcessPacket C e (slice_of body (off + 4) (off + 4 + pktLen)) s
                   in if ending \<noteq> Returned then (s1, eff, echo, ending)
                      else let (s2, eff', echo', ending') = xhttp_batch C e body count (i + 1) (off + 4 + pktLen) s1
                           in (s2, eff @ eff', echo @ echo', ending'))"
  by pat_completeness auto
termination by (relation "measure (\<lambda>(C, e, body, count, i, off, s). count - i)") auto

declare xhttp_batch.simps [simp del]

text \<open>The HTTP handler; \<open>None\<close> is a body that could not be read.\<close>

definition xhttp_handler ::
  "crypto \<Rightarrow> env \<Rightarrow> string \<Rightarrow> bytes option \<Rightarrow> server \<Rightarrow> server \<times> effect list \<times> ending" where
  "xhttp_handler C e meth req s =
     (if meth \<noteq> ''POST'' then (s, [HttpError 405], Returned)
      else case req of
        None \<Rightarrow> (s, [], Returned)
      | Some body \<Rightarrow>
          if length body < 4 then (s, [], Returned)
          else let count = unat (get32 body)
          in if count = 0 \<and> length body < 4 + 2 + 12 then (s, [], Returned)
             else let (s', eff, echo, ending) =
                        (if count = 0 then xhttpProcessPacket C e (drop 4 body) s
                         else xhttp_batch C e body count 0 4 s)
                  in (s', if ending = Returned \<and> echo \<noteq> [] then eff @ [HttpWrite echo] else eff, ending))"

section \<open>What every handler keeps\<close>

text \<open>A cipher context may advance its counters and its generator, nothing else.\<close>

definition same_cp :: "CipherPack option \<Rightarrow> CipherPack option \<Rightarrow> bool" where
  "same_cp a b \<longleftrightarrow>
     (case (a, b) of
        (None, None) \<Rightarrow> True
      | (Some x, Some y) \<Rightarrow>
          cp_key y = cp_key x \<and> cp_gcm y = cp_gcm x \<and> cp_noEncrypt y = cp_noEncrypt x
          \<and> cp_Mode y = cp_Mode x \<and> cp_PadMax y = cp_PadMax x
      | _ \<Rightarrow> False)"

definition same_peer :: "Peer \<Rightarrow> Peer \<Rightarrow> bool" where
  "same_peer p q \<longleftrightarrow>
     p_ShortID q = p_ShortID p \<and> p_Name q = p_Name p \<and> p_KeyRaw q = p_KeyRaw p \<and> p_Key q = p_Key p
     \<and> p_Internal q = p_Internal p \<and> same_cp (p_CP p) (p_CP q) \<and> (p_cpLocked p \<longrightarrow> p_cpLocked q)"

text \<open>The tables, the configuration and the identities stay; the filter only grows.\<close>

definition keeps :: "server \<Rightarrow> server \<Rightarrow> bool" where
  "keeps s s' \<longleftrightarrow>
     s_nextRef s' = s_nextRef s \<and> s_peers s' = s_peers s \<and> s_ipToPeer s' = s_ipToPeer s
     \<and> s_cfg s' = s_cfg s \<and> s_routingSalt s' = s_routingSalt s
     \<and> (\<forall>r. same_peer (s_store s r) (s_store s' r))
     \<and> (length (s_bloom s) = 8192 \<longrightarrow>
          length (s_bloom s') = 8192 \<and> (\<forall>k. \<not> bloomCheck (s_bloom s) k \<longrightarrow> \<not> bloomCheck (s_bloom s') k))"

lemma same_cp_refl [simp]: "same_cp a a"
  by (simp add: same_cp_def split: option.split)

lemma same_cp_trans: "same_cp a b \<Longrightarrow> same_cp b c \<Longrightarrow> same_cp a c"
  by (auto simp: same_cp_def split: option.splits)

lemma same_peer_refl [simp]: "same_peer p p"
  by (simp add: same_peer_def)

lemma same_peer_trans: "same_peer p q \<Longrightarrow> same_peer q r \<Longrightarrow> same_peer p r"
  unfolding same_peer_def by (metis same_cp_trans)

lemma keeps_refl [simp, intro]: "keeps s s"
  by (simp add: keeps_def)

lemma keeps_trans [trans]: "keeps s t \<Longrightarrow> keeps t u \<Longrightarrow> keeps s u"
  unfolding keeps_def by (metis same_peer_trans)

lemma keeps_upd_peer:
  "(\<And>p. p = s_store s r \<Longrightarrow> same_peer p (f p)) \<Longrightarrow> keeps s (upd_peer r f s)"
  by (simp add: keeps_def)

lemma keeps_bloom [intro]:
  "keeps s (s\<lparr>s_bloom := bloomSet (s_bloom s) k, s_bloomCount := n\<rparr>)"
  by (simp add: keeps_def bloom.add_keeps)

lemma keeps_logDrops [simp, intro]: "keeps s (fst (logDrops e s))"
  by (simp add: keeps_def)

lemma same_peer_set_writer [simp, intro]: "same_peer p (set_writer w p)"
  by (simp add: same_peer_def set_writer_def split: option.split PacketWriter.split)

lemma same_peer_count_in [simp, intro]: "same_peer p (count_in n p)"
  by (simp add: same_peer_def count_in_def)

lemma keeps_lock_peer [simp, intro]: "keeps s (lock_peer r s)"
  unfolding lock_peer_def by (rule keeps_upd_peer) (simp add: same_peer_def)

lemma keeps_set_writer [simp, intro]: "keeps s (upd_peer r (set_writer w) s)"
  by (rule keeps_upd_peer) simp

lemma keeps_drop [intro]:
  "keeps s (fst (drop_noPeer e s))" "keeps s (fst (drop_replay e s))" "keeps s (fst (drop_failed e m s))"
  unfolding drop_noPeer_def drop_replay_def drop_failed_def
  by (rule keeps_trans [OF _ keeps_logDrops]; simp add: keeps_def)+

lemma Encrypt_same_cp:
  "Encrypt C padBuf cp g pt sid salt = (res, cp', g') \<Longrightarrow> same_cp (Some cp) (Some cp')"
  by (auto simp: Encrypt_def encryptQUIC_def encryptStandard_def choose_pad_def same_cp_def Let_def
      split: prod.splits if_splits outcome.splits option.splits)

lemma same_cp_with_mode:
  "same_cp (Some (with_mode q cp)) (Some cp') \<Longrightarrow> same_cp (Some cp) (Some (cp'\<lparr>cp_Mode := cp_Mode cp\<rparr>))"
  by (simp add: same_cp_def with_mode_def split: if_splits)

lemma keeps_peer_encrypt: "peer_encrypt C e q r data s = (res, s') \<Longrightarrow> keeps s s'"
  unfolding peer_encrypt_def
  by (auto simp: keeps_def same_peer_def split: option.splits prod.splits
      intro!: same_cp_with_mode [OF Encrypt_same_cp])

lemma keeps_keep_alive_echo: "keeps s (fst (keep_alive_echo C e q r s))"
  unfolding keep_alive_echo_def
  by (auto split: prod.splits outcome.splits intro: keeps_peer_encrypt keeps_trans)

lemma keeps_last_seen [simp, intro]: "keeps s (upd_peer r (\<lambda>p. p\<lparr>p_LastSeen := t\<rparr>) s)"
  by (rule keeps_upd_peer) (simp add: same_peer_def)

lemma keeps_count_in [simp, intro]: "keeps s (upd_peer r (count_in n) s)"
  by (rule keeps_upd_peer) simp

lemma keeps_accept_packet: "keeps s (fst (accept_packet C e q r mark d s))"
proof -
  define s1 where "s1 = (case mark of None \<Rightarrow> s
    | Some k \<Rightarrow> s\<lparr>s_bloom := bloomSet (s_bloom s) k, s_bloomCount := s_bloomCount s + 1\<rparr>)"
  have "keeps s s1" by (auto simp: s1_def split: option.split)
  also have "keeps s1 (upd_peer r (\<lambda>p. p\<lparr>p_LastSeen := e_unix e\<rparr>) s1)" (is "keeps s1 ?s2") by simp
  finally have "keeps s ?s2" .
  then show ?thesis
    unfolding accept_packet_def s1_def [symmetric] Let_def
    by (auto intro: keeps_trans [OF _ keeps_keep_alive_echo] keeps_trans [OF _ keeps_count_in])
qed

lemma keeps_dropped:
  "drop_noPeer e s = (s', eff) \<Longrightarrow> keeps s s'" "drop_replay e s = (s', eff) \<Longrightarrow> keeps s s'"
  "drop_failed e m s = (s', eff) \<Longrightarrow> keeps s s'"
  using keeps_drop [of s e] by (metis fst_conv)+

lemma keeps_mode [intro]:
  "keeps s (upd_peer r (\<lambda>p. p\<lparr>p_CP := map_option (with_mode False) (p_CP p)\<rparr>) s)"
  by (rule keeps_upd_peer) (auto simp: same_peer_def same_cp_def with_mode_def split: option.split)

lemma keeps_processPacket:
  assumes "\<not> in_IsQUIC pkt"
  shows "keeps s (fst (processPacket C e pkt s))"
proof (cases "map_of (s_peers s) (in_ShortID pkt)")
  case None
  then show ?thesis by (auto simp: processPacket_def split: prod.split dest: keeps_dropped)
next
  case (Some r)
  define s1 where "s1 = upd_peer r (set_writer (in_Writer pkt)) s"
  have "keeps s1 (fst (processPacket C e pkt s))"
    using assms
    unfolding processPacket_def Some option.case Let_def s1_def [symmetric]
    by (auto split: prod.splits outcome.splits dest: keeps_dropped
      intro: keeps_accept_packet keeps_trans [OF keeps_mode keeps_lock_peer])
  then show ?thesis using keeps_set_writer keeps_trans s1_def by metis
qed

lemma keeps_xhttp_deliver: "keeps s (fst (xhttp_deliver C e r pkt s))"
  unfolding xhttp_deliver_def
  by (auto split: outcome.splits prod.splits simp del: fun_upd_apply
      intro: keeps_peer_encrypt keeps_trans [OF keeps_peer_encrypt keeps_lock_peer])

lemma keeps_xhttpProcessPacket: "keeps s (fst (xhttpProcessPacket C e pkt s))"
  unfolding xhttpProcessPacket_def Let_def
  by (auto split: option.splits intro: keeps_xhttp_deliver keeps_trans [OF keeps_bloom keeps_xhttp_deliver])

lemma keeps_xhttp_batch: "keeps s (fst (xhttp_batch C e body count i off s))"
proof (induction C e body count i off s rule: xhttp_batch.induct)
  case (1 C e body count i off s)
  define n where "n = unat (get32 (drop off body))"
  obtain s1 eff echo en where
    p: "xhttpProcessPacket C e (slice_of body (off + 4) (off + 4 + n)) s = (s1, eff, echo, en)"
    by (cases "xhttpProcessPacket C e (slice_of body (off + 4) (off + 4 + n)) s") auto
  have k: "keeps s s1" using keeps_xhttpProcessPacket [of s C e "slice_of body (off + 4) (off + 4 + n)"] p by simp
  show ?case
  proof (cases "(i < count \<and> off + 6 \<le> length body) \<and> \<not> (length body < off + 4 + n \<or> n < 4 + 2 + 12) \<and> en = Returned")
    case True
    with 1 [of n, OF _ n_def _ p [symmetric] refl refl] p k show ?thesis
      by (subst xhttp_batch.simps) (auto simp: n_def [symmetric] Let_def split: prod.splits intro: keeps_trans)
  next
    case False
    with p k show ?thesis
      by (subst xhttp_batch.simps) (auto simp: n_def [symmetric] Let_def split: prod.splits)
  qed
qed

lemma keeps_xhttp_handler: "keeps s (fst (xhttp_handler C e meth req s))"
  unfolding xhttp_handler_def Let_def
  using keeps_xhttpProcessPacket [of s C e] keeps_xhttp_batch [of s C e]
  by (auto split: option.splits prod.splits)
     (metis fst_conv)+

lemma keeps_server_inv: "keeps s s' \<Longrightarrow> server_inv s \<Longrightarrow> server_inv s'"
  unfolding server_inv_def keeps_def same_peer_def by metis

lemma keeps_bloom_length: "keeps s s' \<Longrightarrow> length (s_bloom s) = 8192 \<Longrightarrow> length (s_bloom s') = 8192"
  by (simp add: keeps_def)

lemma keeps_seen:
  "keeps s s' \<Longrightarrow> length (s_bloom s) = 8192 \<Longrightarrow> \<not> bloomCheck (s_bloom s) k \<Longrightarrow> \<not> bloomCheck (s_bloom s') k"
  by (simp add: keeps_def)

end
