(* ===== verification/Wire.thy ===== *)
theory Wire
  imports Handlers
begin

text \<open>
  The two ends of each transport: the client connections of \<^verbatim>\<open>core/transport.go\<close>
  (\<^verbatim>\<open>quicUDPConn\<close>, \<^verbatim>\<open>xhttpConn\<close>) and the server's readers of \<^verbatim>\<open>server/server.go\<close>
  (UDP, WebSocket), which turn what arrives into an \<^verbatim>\<open>IncomingPacket\<close>.
\<close>

section \<open>Server readers\<close>

text \<open>One datagram of the UDP reader; \<open>None\<close> is \<^verbatim>\<open>continue\<close> without a packet.\<close>

definition udp_reader :: "string \<Rightarrow> udp_addr \<Rightarrow> bytes \<Rightarrow> IncomingPacket option" where
  "udp_reader salt addr buffer =
     (if 7 + 4 + 2 + 12 \<le> length buffer \<and> buffer ! 0 AND 0xC0 = 0x40 \<and> buffer ! 1 = 0 \<and> buffer ! 2 = 0
      then Some \<lparr>in_Data = drop 7 buffer, in_Writer = Some (UDPWriter addr),
                 in_ShortID = get16 (slice_of buffer 3 5), in_IsQUIC = False\<rparr>
      else if length buffer < 4 + 2 + 12 then None
      else Some \<lparr>in_Data = buffer, in_Writer = Some (UDPWriter addr),
                 in_ShortID = packet_shortID salt buffer, in_IsQUIC = False\<rparr>)"

text \<open>One message of a WebSocket reader, with its \<^verbatim>\<open>firstPacket\<close> flag and the connection's
  \<^verbatim>\<open>ShortID\<close>.\<close>

record ws_reader =
  wr_conn :: nat
  wr_firstPacket :: bool
  wr_ShortID :: "16 word"

definition ws_reader_start :: "nat \<Rightarrow> ws_reader" where
  "ws_reader_start c = \<lparr>wr_conn = c, wr_firstPacket = True, wr_ShortID = 0\<rparr>"

definition ws_reader_step :: "string \<Rightarrow> bytes \<Rightarrow> ws_reader \<Rightarrow> ws_reader \<times> IncomingPacket option" where
  "ws_reader_step salt msg w =
     (if length msg < 4 + 2 + 12 then (w, None)
      else let shortID = packet_shortID salt msg
           in (if wr_firstPacket w then w\<lparr>wr_firstPacket := False, wr_ShortID := shortID\<rparr> else w,
               Some \<lparr>in_Data = msg, in_Writer = Some (WSSPeerConn (wr_conn w)),
                     in_ShortID = shortID, in_IsQUIC = False\<rparr>))"

fun ws_reader_run :: "string \<Rightarrow> bytes list \<Rightarrow> ws_reader \<Rightarrow> ws_reader \<times> IncomingPacket list" where
  "ws_reader_run salt [] w = (w, [])"
| "ws_reader_run salt (m # ms) w =
     (let (w1, p) = ws_reader_step salt m w; (w2, ps) = ws_reader_run salt ms w1
      in (w2, (case p of None \<Rightarrow> [] | Some x \<Rightarrow> [x]) @ ps))"

section \<open>The QUIC-header connection of the client\<close>

text \<open>The frame buffer has 65549 bytes.\<close>

record quicUDPConn =
  qc_shortID :: "16 word"
  qc_packetNum :: "64 word"

definition quicUDP_Write :: "quicUDPConn \<Rightarrow> bytes \<Rightarrow> bytes outcome \<times> quicUDPConn" where
  "quicUDP_Write c b =
     (let pn = ucast (qc_packetNum c) :: 32 word;
          c' = c\<lparr>qc_packetNum := qc_packetNum c + 1\<rparr>
      in if 7 + length b > 65535 + 14 then (Panic, c')
         else (Ok ([0x40 OR (ucast (pn AND 7) :: byte)] @ be16 0 @ be16 (qc_shortID c) @ be16 (ucast pn) @ b), c'))"

section \<open>The batching connection of the client\<close>

record xhttpConn =
  xc_closed :: bool
  xc_batch :: bytes
  xc_batchN :: nat
  xc_readBuf :: bytes
  xc_readIdx :: nat

definition DialXHTTP_conn :: xhttpConn where
  "DialXHTTP_conn = \<lparr>xc_closed = False, xc_batch = [], xc_batchN = 0, xc_readBuf = [], xc_readIdx = 0\<rparr>"

text \<open>\<open>post\<close> is the HTTP exchange: the response body, or None for an error. The result names
  the body that was posted.\<close>

definition xhttp_flush :: "(bytes \<Rightarrow> bytes option) \<Rightarrow> xhttpConn \<Rightarrow> xhttpConn \<times> bytes option" where
  "xhttp_flush post c =
     (if xc_batchN c = 0 then (c, None)
      else let body = be32 (of_nat (xc_batchN c)) @ xc_batch c;
               c1 = c\<lparr>xc_batch := [], xc_batchN := 0\<rparr>
           in case post body of
                None \<Rightarrow> (c1, Some body)
              | Some readBody \<Rightarrow>
                  (if length readBody > 0 then c1\<lparr>xc_readBuf := readBody, xc_readIdx := 0\<rparr> else c1, Some body))"

definition xhttp_Write ::
  "(bytes \<Rightarrow> bytes option) \<Rightarrow> bytes \<Rightarrow> xhttpConn \<Rightarrow> (string + nat) \<times> xhttpConn \<times> bytes option" where
  "xhttp_Write post b c =
     (if xc_closed c then (Inl ''closed'', c, None)
      else let c1 = c\<lparr>xc_batch := xc_batch c @ be32 (of_nat (length b)) @ b, xc_batchN := xc_batchN c + 1\<rparr>
           in if xc_batchN c1 \<ge> 500 then let (c2, p) = xhttp_flush post c1 in (Inr (length b), c2, p)
              else (Inr (length b), c1, None))"

text \<open>\<open>n\<close>: the size of the caller's buffer.\<close>

definition xhttp_Read ::
  "(bytes \<Rightarrow> bytes option) \<Rightarrow> nat \<Rightarrow> xhttpConn \<Rightarrow> (string + bytes) \<times> xhttpConn \<times> bytes option" where
  "xhttp_Read post n c =
     (let (c1, p) = (if length (xc_readBuf c) \<le> xc_readIdx c then xhttp_flush post c else (c, None))
      in if length (xc_readBuf c1) \<le> xc_readIdx c1 then (Inl ''no data'', c1, p)
         else let got = take n (drop (xc_readIdx c1) (xc_readBuf c1))
              in (Inr got, c1\<lparr>xc_readIdx := xc_readIdx c1 + length got\<rparr>, p))"

definition xhttp_Close :: "xhttpConn \<Rightarrow> xhttpConn" where
  "xhttp_Close c = c\<lparr>xc_closed := True\<rparr>"

text \<open>A sequence of writes, with the bodies posted on the way.\<close>

fun xhttp_writes :: "(bytes \<Rightarrow> bytes option) \<Rightarrow> bytes list \<Rightarrow> xhttpConn \<Rightarrow> xhttpConn \<times> bytes list" where
  "xhttp_writes post [] c = (c, [])"
| "xhttp_writes post (b # bs) c =
     (let (r, c1, p) = xhttp_Write post b c; (c2, ps) = xhttp_writes post bs c1
      in (c2, (case p of None \<Rightarrow> [] | Some x \<Rightarrow> [x]) @ ps))"

section \<open>The batch format\<close>

definition xhttp_frame :: "bytes \<Rightarrow> bytes" where
  "xhttp_frame b = be32 (of_nat (length b)) @ b"

definition xhttp_body :: "bytes list \<Rightarrow> bytes" where
  "xhttp_body bs = be32 (of_nat (length bs)) @ concat (map xhttp_frame bs)"

text \<open>Packets of one request in order, until one does not return.\<close>

fun xhttp_seq :: "crypto \<Rightarrow> env \<Rightarrow> bytes list \<Rightarrow> server \<Rightarrow> server \<times> effect list \<times> bytes \<times> ending" where
  "xhttp_seq C e [] s = (s, [], [], Returned)"
| "xhttp_seq C e (p # ps) s =
     (let (s1, eff, echo, ending) = xhttpProcessPacket C e p s
      in if ending \<noteq> Returned then (s1, eff, echo, ending)
         else let (s2, eff', echo', ending') = xhttp_seq C e ps s1
              in (s2, eff @ eff', echo @ echo', ending'))"

lemma length_xhttp_frame [simp]: "length (xhttp_frame b) = 4 + length b"
  by (simp add: xhttp_frame_def)

lemma unat32_of_nat: "n < 2 ^ 32 \<Longrightarrow> unat (of_nat n :: 32 word) = n"
  by (simp add: unat_of_nat take_bit_nat_eq_self)

lemma xhttp_batch_step:
  assumes "i < count" and "unat (get32 (drop off body)) = n" and "off + 4 + n \<le> length body" and "18 \<le> n"
  shows "xhttp_batch C e body count i off s =
    (let (s1, eff, echo, ending) = xhttpProcessPacket C e (slice_of body (off + 4) (off + 4 + n)) s
     in if ending \<noteq> Returned then (s1, eff, echo, ending)
        else let (s2, eff', echo', ending') = xhttp_batch C e body count (i + 1) (off + 4 + n) s1
             in (s2, eff @ eff', echo @ echo', ending'))"
  using assms by (subst xhttp_batch.simps) simp

lemma xhttp_batch_then:
  assumes "\<forall>b \<in> set bs. 18 \<le> length b \<and> length b < 2 ^ 32" and "off = length pre" and "i + length bs \<le> count"
    and "body = pre @ concat (map xhttp_frame bs) @ rest"
    and "\<And>s. xhttp_batch C e body count (i + length bs) (length (pre @ concat (map xhttp_frame bs))) s = (s, [], [], Returned)"
  shows "xhttp_batch C e body count i off s = xhttp_seq C e bs s"
  using assms
proof (induction bs arbitrary: pre i off s)
  case Nil
  then show ?case by simp
next
  case (Cons b bs)
  have n: "unat (get32 (drop off body)) = length b"
    using Cons.prems by (simp add: xhttp_frame_def unat32_of_nat)
  have sl: "slice_of body (off + 4) (off + 4 + length b) = b"
    using Cons.prems(2,4) by (simp add: slice_of_def xhttp_frame_def)
  have stop: "xhttp_batch C e body count (i + 1 + length bs)
      (length ((pre @ xhttp_frame b) @ concat (map xhttp_frame bs))) s' = (s', [], [], Returned)" for s'
    using Cons.prems(5) [of s'] by simp
  have IH: "xhttp_batch C e body count (i + 1) (off + 4 + length b) s' = xhttp_seq C e bs s'" for s'
    by (rule Cons.IH [where pre = "pre @ xhttp_frame b"]) (use Cons.prems stop in simp_all)
  have len: "off + 4 + length b \<le> length body" "i < count" "18 \<le> length b"
    using Cons.prems by auto
  show ?case
    unfolding xhttp_batch_step [OF len(2) n len(1,3)] sl IH xhttp_seq.simps ..
qed

lemma xhttp_batch_end: "xhttp_batch C e body count count off s = (s, [], [], Returned)"
  by (simp add: xhttp_batch.simps)

lemma xhttp_batch_short:
  assumes "length b < 18" and "body = pre @ xhttp_frame b @ behind" and "off = length pre"
  shows "xhttp_batch C e body count i off s = (s, [], [], Returned)"
proof -
  from assms have "unat (get32 (drop off body)) = length b"
    by (simp add: xhttp_frame_def unat32_of_nat)
  with assms(1) show ?thesis by (subst xhttp_batch.simps) simp
qed

lemma xhttp_handler_body:
  assumes "bs \<noteq> []" and "length bs < 2 ^ 32" and "\<forall>b \<in> set bs. 18 \<le> length b \<and> length b < 2 ^ 32"
  shows "xhttp_handler C e ''POST'' (Some (xhttp_body bs)) s =
    (let (s', eff, echo, ending) = xhttp_seq C e bs s
     in (s', if ending = Returned \<and> echo \<noteq> [] then eff @ [HttpWrite echo] else eff, ending))"
proof -
  have n: "unat (get32 (xhttp_body bs)) = length bs" using assms(2) by (simp add: xhttp_body_def unat32_of_nat)
  have "xhttp_batch C e (xhttp_body bs) (length bs) 0 4 s = xhttp_seq C e bs s"
    by (rule xhttp_batch_then [OF assms(3), where pre = "be32 (of_nat (length bs))" and rest = "[]"])
      (simp_all add: xhttp_body_def xhttp_batch_end)
  moreover have "4 \<le> length (xhttp_body bs)" by (simp add: xhttp_body_def)
  ultimately show ?thesis
    using assms(1) by (simp add: xhttp_handler_def n Let_def)
qed

section \<open>The client's batches\<close>

text \<open>The connection holds the packets \<open>ps\<close> that were written and not yet posted.\<close>

definition xc_pending :: "bytes list \<Rightarrow> xhttpConn \<Rightarrow> bool" where
  "xc_pending ps c \<longleftrightarrow> xc_batch c = concat (map xhttp_frame ps) \<and> xc_batchN c = length ps
     \<and> length ps < 500 \<and> \<not> xc_closed c"

lemma xc_pending_Dial: "xc_pending [] DialXHTTP_conn"
  by (simp add: xc_pending_def DialXHTTP_conn_def)

lemma flush_posts:
  "xc_batch c = concat (map xhttp_frame ps) \<Longrightarrow> xc_batchN c = length ps \<Longrightarrow> ps \<noteq> [] \<Longrightarrow>
    snd (xhttp_flush post c) = Some (xhttp_body ps)"
  by (simp add: xhttp_flush_def xhttp_body_def Let_def split: option.split)

lemma flush_pending:
  "\<not> xc_closed c \<Longrightarrow> xc_batchN c \<noteq> 0 \<Longrightarrow> xc_pending [] (fst (xhttp_flush post c))"
  by (simp add: xhttp_flush_def xc_pending_def Let_def split: option.split)

lemma write_pending:
  assumes "xc_pending ps c"
  obtains c' where "length ps < 499" and "xhttp_Write post b c = (Inr (length b), c', None)" and "xc_pending (ps @ [b]) c'"
  | c' where "length ps = 499" and "xhttp_Write post b c = (Inr (length b), c', Some (xhttp_body (ps @ [b])))"
    and "xc_pending [] c'"
proof -
  define c1 where "c1 = c\<lparr>xc_batch := xc_batch c @ be32 (of_nat (length b)) @ b, xc_batchN := xc_batchN c + 1\<rparr>"
  have c1: "xc_batch c1 = concat (map xhttp_frame (ps @ [b]))" "xc_batchN c1 = length (ps @ [b])" "\<not> xc_closed c1"
    using assms by (simp_all add: c1_def xc_pending_def xhttp_frame_def)
  have W: "xhttp_Write post b c = (if 500 \<le> xc_batchN c1
      then (let (c2, p) = xhttp_flush post c1 in (Inr (length b), c2, p)) else (Inr (length b), c1, None))"
    using assms unfolding xhttp_Write_def xc_pending_def c1_def Let_def by simp
  show ?thesis
  proof (cases "length ps < 499")
    case True
    with c1 W have "xhttp_Write post b c = (Inr (length b), c1, None)" "xc_pending (ps @ [b]) c1"
      by (simp_all add: xc_pending_def)
    with True that(1) show ?thesis by blast
  next
    case False
    with assms have l: "length ps = 499" by (simp add: xc_pending_def)
    have "snd (xhttp_flush post c1) = Some (xhttp_body (ps @ [b]))" by (rule flush_posts) (use c1 in simp_all)
    moreover have "xc_pending [] (fst (xhttp_flush post c1))" by (rule flush_pending) (use c1 in simp_all)
    moreover have "xhttp_Write post b c = (let (c2, p) = xhttp_flush post c1 in (Inr (length b), c2, p))"
      using c1 l W by simp
    ultimately show ?thesis using that(2) l by (cases "xhttp_flush post c1") simp
  qed
qed

lemma writes_pending:
  assumes "xc_pending ps c"
  shows "\<exists>groups ps'. snd (xhttp_writes post bs c) = map xhttp_body groups \<and> concat groups @ ps' = ps @ bs
    \<and> (\<forall>g \<in> set groups. length g = 500) \<and> xc_pending ps' (fst (xhttp_writes post bs c))"
  using assms
proof (induction bs arbitrary: ps c)
  case Nil
  then show ?case by (intro exI [of _ "[]"] exI [of _ ps]) simp
next
  case (Cons b bs)
  from Cons.prems show ?case
  proof (cases rule: write_pending [where b = b and post = post])
    case (1 c')
    from Cons.IH [OF 1(3)] 1(2) show ?thesis by (auto split: prod.splits)
  next
    case (2 c')
    from Cons.IH [OF 2(3)] obtain groups ps' where
      g: "snd (xhttp_writes post bs c') = map xhttp_body groups" "concat groups @ ps' = bs"
        "\<forall>g \<in> set groups. length g = 500" "xc_pending ps' (fst (xhttp_writes post bs c'))"
      by auto
    with 2 show ?thesis
      by (intro exI [of _ "(ps @ [b]) # groups"] exI [of _ ps']) (auto split: prod.splits)
  qed
qed

section \<open>Packets of the standard format on the wire\<close>

lemma be16_first: "be16 w @ xs \<noteq> []"
  by (simp add: be16_def)

context crypto_laws
begin

lemma std_packet_shape:
  assumes "std_ctx cp key k" and "fst (Encrypt C padBuf cp g pt sid salt) = Ok pkt"
  shows "packet_shortID salt pkt = sid" and "36 \<le> length pkt" and "bit (pkt ! 0) 6"
    and "\<And>rcv. std_ctx rcv key k \<Longrightarrow> Decrypt C rcv pkt = (pkt, Ok pt)"
proof -
  have k: "cp_gcm cp = Some k" and key: "cp_key cp = key" using assms(1) by (simp_all add: std_ctx_def)
  from assms have "fst (encryptStandard C padBuf cp pt sid salt) = Ok pkt"
    by (simp add: Encrypt_standard)
  from encryptStandard_Ok [OF this k] obtain n inner
    where inner: "build_inner padBuf pt n = Ok inner"
      and pkt: "pkt = std_frame C key k (std_nonce cp) inner sid salt" by (metis key)
  note parts = std_frame_parts [OF length_mac length_std_nonce pkt]
  show "packet_shortID salt pkt = sid"
    by (simp add: packet_shortID_def parts route_mask_def)
  from inner have "2 \<le> length inner" by (auto simp: build_inner_Ok_iff)
  then show "36 \<le> length pkt" by (simp add: parts length_seal)
  have "take 4 (c_mac C key (be16 (sid XOR route_mask salt (std_nonce cp)) @ std_nonce cp)) \<noteq> []"
    using length_mac by (metis length_0_conv take_eq_Nil zero_neq_numeral)
  moreover have "pkt ! 0 = take 4 pkt ! 0" by simp
  ultimately show "bit (pkt ! 0) 6"
    by (simp add: parts set_marker_bit_def nth_list_update bit_simps del: nth_take)
  fix rcv assume r: "std_ctx rcv key k"
  then have "cp_gcm rcv = Some k" "cp_key rcv = key" by (simp_all add: std_ctx_def)
  with decrypt_std_frame [OF this(1) length_std_nonce] open_build_inner [OF inner]
  have "decryptStandard C rcv pkt = Ok pt" by (simp add: pkt)
  with r show "Decrypt C rcv pkt = (pkt, Ok pt)" by (simp add: Decrypt_def std_ctx_def)
qed

end

lemma quic_bits: "bit (b :: byte) 6 \<Longrightarrow> b AND 0xC0 = 0x40 \<longleftrightarrow> \<not> bit b 7"
proof -
  assume b6: "bit b 6"
  have "(0xC0 :: byte) = push_bit 6 1 OR push_bit 7 1" by simp
  moreover have "b AND 0xC0 = 0x40 \<longleftrightarrow> (\<forall>n < 8. bit (b AND 0xC0) n \<longleftrightarrow> bit (0x40 :: byte) n)"
    by (auto intro: bit_word_eqI)
  moreover have "\<forall>n < 8. bit (b AND 0xC0) n \<longleftrightarrow> (n = 6 \<or> n = 7) \<and> bit b n"
    by (simp add: numeral_eq_Suc less_Suc_eq all_conj_distrib bit_simps)
  ultimately show ?thesis using b6 by (auto simp: bit_simps numeral_eq_Suc less_Suc_eq)
qed

section \<open>Properties\<close>

text \<open>
  A packet of fewer than 18 bytes in a batch ends it: the packets before it are
  processed and every packet behind it is dropped (a no-encryption keep-alive is 2 bytes).
\<close>

theorem xhttp_short_packet_ends_batch:
  assumes "\<forall>b \<in> set bs. 18 \<le> length b \<and> length b < 2 ^ 32" and "length b < 18"
    and "length (bs @ b # behind) < 2 ^ 32"
  shows "xhttp_handler C e ''POST'' (Some (xhttp_body (bs @ b # behind))) s =
    (let (s', eff, echo, ending) = xhttp_seq C e bs s
     in (s', if ending = Returned \<and> echo \<noteq> [] then eff @ [HttpWrite echo] else eff, ending))"
proof -
  let ?all = "bs @ b # behind"
  have n: "unat (get32 (xhttp_body ?all)) = length ?all" using assms(3) by (simp only: xhttp_body_def get32_be32 unat32_of_nat)
  have "xhttp_batch C e (xhttp_body ?all) (length ?all) 0 4 s = xhttp_seq C e bs s"
    by (rule xhttp_batch_then [OF assms(1), where pre = "be32 (of_nat (length ?all))"
          and rest = "xhttp_frame b @ concat (map xhttp_frame behind)"])
      (auto simp: xhttp_body_def intro!: xhttp_batch_short [OF assms(2), where behind = "concat (map xhttp_frame behind)"])
  moreover have "4 \<le> length (xhttp_body ?all)" by (simp add: xhttp_body_def)
  ultimately show ?thesis
    by (simp add: xhttp_handler_def n [simplified] Let_def)
qed

theorem xhttp_short_packet_ends_batch_witness:
  "xhttp_handler go_crypto sample_io ''POST'' (Some (xhttp_body [[0, 0], replicate 40 1])) sample_server = (sample_server, [], Returned)"
  using xhttp_short_packet_ends_batch [of "[]" "[0, 0]" "[replicate 40 1]"] by simp

text \<open>A list is cut into groups of one size and a shorter rest in only one way.\<close>

lemma groups_unique:
  assumes "concat gs @ r = concat gs' @ r'" and "\<forall>g \<in> set gs \<union> set gs'. length g = n" and "length r < n" and "length r' < n"
  shows "gs = gs' \<and> r = r'"
  using assms
proof (induction gs arbitrary: gs')
  case Nil
  then show ?case by (cases gs') auto
next
  case (Cons g gs)
  show ?case
  proof (cases gs')
    case Nil
    with Cons.prems(1) have "g @ concat gs @ r = r'" by simp
    from arg_cong [OF this, of length] have "length g \<le> length r'" by simp
    moreover have "length g = n" using Cons.prems(2) by simp
    ultimately show ?thesis using Cons.prems(4) by simp
  next
    case (Cons g' hs)
    with Cons.prems have "g = g'" "concat gs @ r = concat hs @ r'" by auto
    with Cons.IH [of hs] Cons.prems(2-4) Cons show ?thesis by simp
  qed
qed

text \<open>The handler processes the packets of a body up to the first short one.\<close>

lemma xhttp_handler_prefix:
  assumes "g \<noteq> []" and "length g < 2 ^ 32" and "\<forall>b \<in> set g. length b < 2 ^ 32"
  shows "xhttp_handler C e ''POST'' (Some (xhttp_body g)) s =
    (let (s', eff, echo, ending) = xhttp_seq C e (takeWhile (\<lambda>b. 18 \<le> length b) g) s
     in (s', if ending = Returned \<and> echo \<noteq> [] then eff @ [HttpWrite echo] else eff, ending))"
proof (cases "dropWhile (\<lambda>b. 18 \<le> length b) g")
  case Nil
  then have "\<forall>b \<in> set g. 18 \<le> length b" by (simp add: dropWhile_eq_Nil_conv)
  with xhttp_handler_body [OF assms(1,2), of C e s] assms(3) show ?thesis by (simp add: takeWhile_eq_all_conv [THEN iffD2])
next
  case (Cons b behind)
  let ?t = "takeWhile (\<lambda>b. 18 \<le> length b) g"
  have g: "?t @ b # behind = g" using Cons takeWhile_dropWhile_id [of "\<lambda>b. 18 \<le> length b" g] by simp
  have "\<not> 18 \<le> length b" using Cons by (metis (no_types, lifting) hd_dropWhile list.distinct(1) list.sel(1))
  moreover have "\<forall>b \<in> set ?t. 18 \<le> length b \<and> length b < 2 ^ 32" using assms(3) by (auto dest: set_takeWhileD)
  ultimately show ?thesis using xhttp_short_packet_ends_batch [of ?t b behind C e s] assms(2) by (simp add: g)
qed



text \<open>
  A packet sent through the QUIC-header connection arrives at the server's UDP reader
  as the same packet, under the sender's short id and with the sender as reply address,
  for every packet number.
\<close>

theorem quic_udp_reaches_reader:
  assumes "18 \<le> length b" and "length b \<le> 65542"
  shows "\<exists>frame c'. quicUDP_Write c b = (Ok frame, c') \<and> qc_shortID c' = qc_shortID c
    \<and> udp_reader salt addr frame = Some \<lparr>in_Data = b, in_Writer = Some (UDPWriter addr),
          in_ShortID = qc_shortID c, in_IsQUIC = False\<rparr>"
proof -
  let ?h = "0x40 OR (ucast ((ucast (qc_packetNum c) :: 32 word) AND 7) :: byte)"
  have "?h AND 0xC0 = 0x40"
  proof (rule bit_word_eqI)
    fix n assume "n < LENGTH(8)"
    then have "n \<in> {0, 1, 2, 3, 4, 5, 6, 7}" by auto
    then show "bit (?h AND 0xC0) n = bit (0x40 :: byte) n"
      by (auto simp: bit_simps bit_numeral_rec)
  qed
  moreover have "be16 0 = [0, 0]" by (simp add: be16_def)
  ultimately show ?thesis using assms
    by (auto simp: quicUDP_Write_def udp_reader_def Let_def slice_of_def)
qed

theorem quic_udp_reaches_reader_witness:
  "\<exists>frame c'. quicUDP_Write \<lparr>qc_shortID = 7, qc_packetNum = 0x1FFFF\<rparr> (replicate 18 5) = (Ok frame, c')
    \<and> udp_reader [] ''a'' frame = Some \<lparr>in_Data = replicate 18 5, in_Writer = Some (UDPWriter ''a''),
          in_ShortID = 7, in_IsQUIC = False\<rparr>"
  using quic_udp_reaches_reader [of "replicate 18 5" "\<lparr>qc_shortID = 7, qc_packetNum = 0x1FFFF\<rparr>" "[]" "''a''"] by auto

text \<open>
  A standard packet is routed to its sender's short id by both readers, except that
  the UDP reader takes a packet whose first three bytes look like a QUIC short header
  (bit 7 clear, two zero bytes) for one: it then cuts off 7 bytes and takes two bytes of
  ciphertext material for the short id.
\<close>

theorem readers_route_standard_packets:
  assumes "std_ctx cp key k" and "fst (Encrypt go_crypto padBuf cp g pt sid salt) = Ok pkt"
  shows "udp_reader salt addr pkt =
      (if \<not> bit (pkt ! 0) 7 \<and> pkt ! 1 = 0 \<and> pkt ! 2 = 0
       then Some \<lparr>in_Data = drop 7 pkt, in_Writer = Some (UDPWriter addr),
                  in_ShortID = get16 (slice_of pkt 3 5), in_IsQUIC = False\<rparr>
       else Some \<lparr>in_Data = pkt, in_Writer = Some (UDPWriter addr), in_ShortID = sid, in_IsQUIC = False\<rparr>)
    \<and> snd (ws_reader_step salt pkt w) =
       Some \<lparr>in_Data = pkt, in_Writer = Some (WSSPeerConn (wr_conn w)), in_ShortID = sid, in_IsQUIC = False\<rparr>"
  using std.std_packet_shape(1-3) [OF assms]
  by (auto simp: udp_reader_def ws_reader_step_def Let_def quic_bits)

theorem readers_route_standard_packets_witness:
  "\<exists>pkt. fst (Encrypt go_crypto (\<lambda>_. 0) sample_cp qglobals_init [72, 105] 3 ''salt'') = Ok pkt
    \<and> snd (ws_reader_step ''salt'' pkt (ws_reader_start 1)) =
       Some \<lparr>in_Data = pkt, in_Writer = Some (WSSPeerConn 1), in_ShortID = 3, in_IsQUIC = False\<rparr>"
proof -
  obtain pkt where "fst (Encrypt go_crypto (\<lambda>_. 0) sample_cp qglobals_init [72, 105] 3 ''salt'') = Ok pkt"
    using std.std_round_trip [OF sample_ctx sample_ctx, of "[72, 105]" "\<lambda>_. 0" qglobals_init 3 "''salt''"]
    by (auto simp: sample_cp_def)
  with readers_route_standard_packets [OF sample_ctx this] show ?thesis
    by (simp add: ws_reader_start_def)
qed

end
