(* ===== verification/Downlink.thy ===== *)
theory Downlink
  imports Wire
begin

text \<open>
  The server's background loops (\<^verbatim>\<open>server/server.go\<close>, \<^verbatim>\<open>main\<close>): the TUN reader that
  encrypts packets to the clients, the resets of the replay filter, and the statistics.
\<close>

section \<open>TUN reader\<close>

text \<open>\<^verbatim>\<open>net.IP.String\<close> for four bytes.\<close>

definition ipv4_string :: "bytes \<Rightarrow> string" where
  "ipv4_string b = dec_str (unat (b ! 0)) @ ''.'' @ dec_str (unat (b ! 1)) @ ''.''
     @ dec_str (unat (b ! 2)) @ ''.'' @ dec_str (unat (b ! 3))"

text \<open>\<^verbatim>\<open>ByteOut\<close> and \<^verbatim>\<open>CumTx\<close>\<close>

definition count_out :: "nat \<Rightarrow> nat \<Rightarrow> Peer \<Rightarrow> Peer" where
  "count_out n fec p =
     p\<lparr>p_ByteOut := p_ByteOut p + of_nat n * of_nat fec, p_CumTx := p_CumTx p + of_nat n * of_nat fec\<rparr>"

text \<open>One packet read from the device. A panic ends the goroutine (it is recovered) with the
  peer's lock held.\<close>

definition tun_reader_step :: "crypto \<Rightarrow> env \<Rightarrow> bytes \<Rightarrow> server \<Rightarrow> server \<times> effect list \<times> ending" where
  "tun_reader_step C e packet s =
     (if length packet < 20 \<or> drop_bit 4 (packet ! 0) \<noteq> 4 then (s, [], Returned)
      else let dstIP = ipv4_string (slice_of packet 16 20)
      in if dstIP = ''10.0.0.2'' then (s, [], Returned)
      else case map_of (s_ipToPeer s) dstIP of
        None \<Rightarrow> (s, [], Returned)
      | Some r \<Rightarrow>
         (case p_Writer (s_store s r) of
            None \<Rightarrow> (s, [], Returned)
          | Some writer \<Rightarrow>
              if p_cpLocked (s_store s r) then (s, [], Blocked)
              else let (res, s1) = peer_encrypt C e False r packet s
                   in case res of
                        Panic \<Rightarrow> (lock_peer r s1, [], Panicked)
                      | Err m \<Rightarrow> (s1, [], Returned)
                      | Ok enc \<Rightarrow>
                          let fec = clamp_fec (cfg_FEC (s_cfg s1))
                          in (upd_peer r (count_out (length packet) fec) s1,
                              [WritePacket writer enc (int fec)], Returned)))"

section \<open>Resets of the replay filter\<close>

datatype bloom_ticker = ticker | checkTicker

definition bloomCapacity :: int where
  "bloomCapacity = 85000"

definition bloom_tick :: "bloom_ticker \<Rightarrow> server \<Rightarrow> server" where
  "bloom_tick t s =
     (let reset = (case t of ticker \<Rightarrow> True | checkTicker \<Rightarrow> bloomCapacity \<le> sint (s_bloomCount s))
      in if reset then s\<lparr>s_bloom := bloom_clear (s_bloom s), s_bloomCount := 0\<rparr> else s)"

section \<open>Statistics\<close>

text \<open>The sums over the peer map and the differences to the last interval; \<^verbatim>\<open>int64\<close>
  arithmetic wraps. The report is (sent, received, total sent, total received).\<close>

definition stats_totals :: "server \<Rightarrow> 64 word \<times> 64 word" where
  "stats_totals s =
     (sum_list (map (\<lambda>(k, r). p_CumTx (s_store s r)) (s_peers s)),
      sum_list (map (\<lambda>(k, r). p_CumRx (s_store s r)) (s_peers s)))"

definition stats_tick ::
  "server \<Rightarrow> 64 word \<times> 64 word
     \<Rightarrow> (64 word \<times> 64 word \<times> 64 word \<times> 64 word) option \<times> (64 word \<times> 64 word)" where
  "stats_tick s prev =
     (let (totalOut, totalIn) = stats_totals s;
          (prevOut, prevIn) = prev;
          deltaOut = totalOut - prevOut;
          deltaIn = totalIn - prevIn
      in (if 0 < sint deltaOut \<or> 0 < sint deltaIn then Some (deltaOut, deltaIn, totalOut, totalIn) else None,
          (totalOut, totalIn)))"

section \<open>Invariants\<close>

lemma same_peer_count_out [simp, intro]: "same_peer p (count_out n m p)"
  by (simp add: same_peer_def count_out_def)

lemma keeps_count_out [simp, intro]: "keeps s (upd_peer r (count_out n m) s)"
  by (rule keeps_upd_peer) simp

lemma keeps_tun_reader_step: "keeps s (fst (tun_reader_step C e packet s))"
  unfolding tun_reader_step_def Let_def
  by (auto split: option.splits outcome.splits prod.splits
      intro: keeps_peer_encrypt keeps_trans [OF keeps_peer_encrypt keeps_lock_peer]
        keeps_trans [OF keeps_peer_encrypt keeps_count_out])

lemma server_inv_bloom_tick: "server_inv s \<Longrightarrow> server_inv (bloom_tick t s)"
  by (erule server_inv_cong) (simp_all add: bloom_tick_def Let_def)

text \<open>What a standard-mode peer's encryption leaves and gives.\<close>

context crypto_laws
begin

lemma peer_encrypt_std:
  assumes "p_CP (s_store s r) = Some cp" and "std_ctx cp key k" and "std_ctx rcv key k"
    and "cp_PadMax cp \<le> 0" and "length pt \<le> 65493"
  shows "\<exists>pkt. peer_encrypt C e False r pt s =
      (Ok pkt, upd_peer r (\<lambda>p. p\<lparr>p_CP := Some (cp\<lparr>cp_nonce := cp_nonce cp + 1,
        cp_prng := prng_next (prng_next (cp_prng cp))\<rparr>)\<rparr>) s)
    \<and> snd (Decrypt C rcv pkt) = Ok pt \<and> packet_shortID (s_routingSalt s) pkt = p_ShortID (s_store s r)"
proof -
  obtain pkt where E: "Encrypt C (e_padBuf e) cp (s_quic s) pt (p_ShortID (s_store s r)) (s_routingSalt s)
      = (Ok pkt, cp\<lparr>cp_nonce := cp_nonce cp + 1, cp_prng := prng_next (prng_next (cp_prng cp))\<rparr>, s_quic s)"
    and D: "Decrypt C rcv pkt = (pkt, Ok pt)"
    using std_round_trip [OF assms(2-5)] by metis
  from std_packet_shape(1) [OF assms(2), of "e_padBuf e" "s_quic s" pt] E
  have "packet_shortID (s_routingSalt s) pkt = p_ShortID (s_store s r)" by (metis fst_conv)
  moreover have "(upd_peer r f s)\<lparr>s_quic := s_quic s\<rparr> = upd_peer r f s" for f
    by (simp add: upd_peer_def)
  ultimately show ?thesis
    using assms(1) E D by (simp add: peer_encrypt_def with_mode_def)
qed

text \<open>One packet of the device, for a peer with a transport.\<close>

lemma tun_reader_encrypts:
  assumes "20 \<le> length packet" and "length packet \<le> 65493" and "drop_bit 4 (packet ! 0) = 4"
    and "ipv4_string (slice_of packet 16 20) \<noteq> ''10.0.0.2''"
    and "map_of (s_ipToPeer s) (ipv4_string (slice_of packet 16 20)) = Some r"
    and "p_Writer (s_store s r) = Some w" and "\<not> p_cpLocked (s_store s r)"
    and "p_CP (s_store s r) = Some cp" and "std_ctx cp key k" and "std_ctx rcv key k" and "cp_PadMax cp \<le> 0"
  shows "\<exists>enc. tun_reader_step C e packet s = (upd_peer r (\<lambda>p. count_out (length packet) (clamp_fec (cfg_FEC (s_cfg s)))
        (p\<lparr>p_CP := Some (cp\<lparr>cp_nonce := cp_nonce cp + 1, cp_prng := prng_next (prng_next (cp_prng cp))\<rparr>)\<rparr>)) s,
      [WritePacket w enc (int (clamp_fec (cfg_FEC (s_cfg s))))], Returned)
    \<and> snd (Decrypt C rcv enc) = Ok packet
    \<and> packet_shortID (s_routingSalt s) enc = p_ShortID (s_store s r)"
proof -
  let ?cp = "cp\<lparr>cp_nonce := cp_nonce cp + 1, cp_prng := prng_next (prng_next (cp_prng cp))\<rparr>"
  obtain pkt where P: "peer_encrypt C e False r packet s =
      (Ok pkt, upd_peer r (\<lambda>p. p\<lparr>p_CP := Some ?cp\<rparr>) s)"
    and D: "snd (Decrypt C rcv pkt) = Ok packet"
      "packet_shortID (s_routingSalt s) pkt = p_ShortID (s_store s r)"
    using peer_encrypt_std [OF assms(8-11,2)] by metis
  show ?thesis
    using assms(1,3-7) P D
    by (simp add: tun_reader_step_def Let_def not_less upd_peer_def)
qed

end

section \<open>Properties\<close>

text \<open>
  C15: an IPv4 packet from the device goes, under the server's invariant, to the reply
  transport of the peer whose address it carries and to nobody else: it is encrypted once,
  addressed with that peer's short id, decrypts under the peer's key to exactly the packet,
  is sent with the clamped duplication factor, and only that peer's counters and cipher
  counters change.
\<close>

theorem tun_packet_goes_to_its_peer:
  assumes "server_inv s" and "20 \<le> length packet" and "length packet \<le> 65493" and "drop_bit 4 (packet ! 0) = 4"
    and "ipv4_string (slice_of packet 16 20) \<noteq> ''10.0.0.2''"
    and "map_of (s_ipToPeer s) (ipv4_string (slice_of packet 16 20)) = Some r"
    and "p_Writer (s_store s r) = Some w" and "\<not> p_cpLocked (s_store s r)"
    and "p_CP (s_store s r) = Some cp" and "std_ctx cp key k" and "std_ctx rcv key k" and "cp_PadMax cp \<le> 0"
  shows "\<exists>enc s'. tun_reader_step go_crypto e packet s =
      (s', [WritePacket w enc (int (clamp_fec (cfg_FEC (s_cfg s))))], Returned)
    \<and> p_Internal (s_store s r) = ipv4_string (slice_of packet 16 20)
    \<and> map_of (s_peers s) (p_ShortID (s_store s r)) = Some r
    \<and> snd (Decrypt go_crypto rcv enc) = Ok packet
    \<and> packet_shortID (s_routingSalt s) enc = p_ShortID (s_store s r)
    \<and> p_CumTx (s_store s' r) = p_CumTx (s_store s r) + of_nat (length packet) * of_nat (clamp_fec (cfg_FEC (s_cfg s)))
    \<and> (\<forall>q. q \<noteq> r \<longrightarrow> s_store s' q = s_store s q)
    \<and> s_bloom s' = s_bloom s"
proof -
  obtain enc s' where T: "tun_reader_step go_crypto e packet s = (s', [WritePacket w enc (int (clamp_fec (cfg_FEC (s_cfg s))))], Returned)"
    "snd (Decrypt go_crypto rcv enc) = Ok packet" "packet_shortID (s_routingSalt s) enc = p_ShortID (s_store s r)"
    "s' = upd_peer r (\<lambda>p. count_out (length packet) (clamp_fec (cfg_FEC (s_cfg s)))
      (p\<lparr>p_CP := Some (cp\<lparr>cp_nonce := cp_nonce cp + 1, cp_prng := prng_next (prng_next (cp_prng cp))\<rparr>)\<rparr>)) s"
    using std.tun_reader_encrypts [OF assms(2-12)] by metis
  have "p_Internal (s_store s r) = ipv4_string (slice_of packet 16 20)" "map_of (s_peers s) (p_ShortID (s_store s r)) = Some r"
    using server_invD(5) [OF assms(1,6)] by blast+
  with T show ?thesis by (simp add: count_out_def)
qed

definition sample_frame :: bytes where
  "sample_frame = [0x45, 0, 0, 20, 0, 0, 0, 0, 64, 17, 0, 0, 8, 8, 8, 8, 10, 0, 0, 5]"

lemma sample_frame_dst: "ipv4_string (slice_of sample_frame 16 20) = ''10.0.0.5''"
  by code_simp

theorem tun_packet_goes_to_its_peer_witness:
  "\<exists>enc s'. tun_reader_step go_crypto sample_io sample_frame sample_server = (s', [WritePacket (UDPWriter ''c:1'') enc 1], Returned)
    \<and> snd (Decrypt go_crypto sample_cp enc) = Ok sample_frame"
proof -
  have "length sample_frame = 20" "drop_bit 4 (sample_frame ! 0) = 4" by (simp_all add: sample_frame_def)
  then show ?thesis
    using tun_packet_goes_to_its_peer [OF sample_server_inv, of sample_frame 0 "UDPWriter ''c:1''" sample_cp,
        OF _ _ _ _ _ _ _ _ sample_ctx sample_ctx, of sample_io]
    by (auto simp: sample_frame_dst sample_cp_def clamp_fec_def zero_Config_def)
qed

text \<open>
  A packet from the device that is not IPv4, is addressed to the server or to no peer,
  or whose peer has no reply transport yet, changes nothing and sends nothing.
\<close>

theorem tun_packet_ignored:
  assumes "length packet < 20 \<or> drop_bit 4 (packet ! 0) \<noteq> 4 \<or> ipv4_string (slice_of packet 16 20) = ''10.0.0.2''
    \<or> (case map_of (s_ipToPeer s) (ipv4_string (slice_of packet 16 20)) of
         None \<Rightarrow> True | Some r \<Rightarrow> p_Writer (s_store s r) = None)"
  shows "tun_reader_step C e packet s = (s, [], Returned)"
  using assms by (auto simp: tun_reader_step_def Let_def split: option.splits)

theorem tun_packet_ignored_witness:
  "tun_reader_step go_crypto sample_io [0x60, 0, 0] (init_server zero_Config) = (init_server zero_Config, [], Returned)"
  by (rule tun_packet_ignored) simp

text \<open>
  The replay filter is emptied every minute and whenever its count of insertions has
  reached 85000; then every key counts as fresh again. Otherwise the check changes nothing.
\<close>

theorem bloom_tick_forgets:
  assumes "length (s_bloom s) = 8192"
  shows "bloomCheck (s_bloom (bloom_tick ticker s)) key \<and> s_bloomCount (bloom_tick ticker s) = 0
    \<and> bloom_tick checkTicker s = (if 85000 \<le> sint (s_bloomCount s) then bloom_tick ticker s else s)"
  using assms bloom.fresh_empty [of key] by (simp add: bloom_tick_def bloomCapacity_def bloom_zero_def)

theorem bloom_tick_forgets_witness:
  "bloomCheck (s_bloom (bloom_tick ticker (init_server zero_Config))) [1, 2, 3]"
  using bloom_tick_forgets [of "init_server zero_Config" "[1, 2, 3]"]
  by (simp add: init_server_def bloom.invar_empty)

end
