(* ===== verification/WebPanel.thy ===== *)
theory WebPanel
  imports Peers "HOL-Library.Signed_Division"
begin

text \<open>
  The admin panel (\<^verbatim>\<open>server/webpanel.go\<close>): authentication, routing, the user API, the
  statistics and the saved configuration. JSON and PNG encoding belong to libraries: a
  response carries the value that is encoded. Requests reach the handlers with the clean
  paths \<^verbatim>\<open>http.ServeMux\<close> dispatches on.
\<close>

section \<open>Requests, responses, state\<close>

record create_req =
  rq_ShortID :: "16 word"
  rq_Name :: string
  rq_SecretKey :: string
  rq_IP :: string

text \<open>\<open>hr_create\<close>: the body as \<^verbatim>\<open>createUser\<close> decodes it, None when it is not such JSON.\<close>

record http_req =
  hr_Method :: string
  hr_Path :: string
  hr_Header_Token :: string
  hr_Query_Token :: string
  hr_create :: "create_req option"

record UserResp =
  ur_ShortID :: "16 word"
  ur_Name :: string
  ur_IP :: string
  ur_Online :: bool
  ur_LastSeen :: "64 word"
  ur_ByteIn :: "64 word"
  ur_ByteOut :: "64 word"

record ClientCfg =
  cc_ProfileName :: string
  cc_ServerIP :: string
  cc_Port :: int
  cc_ShortID :: "16 word"
  cc_SecretKey :: string
  cc_RoutingSalt :: string
  cc_InternalIP :: string
  cc_GatewayIP :: string
  cc_DNS :: string

record StatsResp =
  sr_uptime :: "64 word"
  sr_peers_total :: nat
  sr_peers_online :: nat
  sr_total_in :: "64 word"
  sr_total_out :: "64 word"
  sr_tx_speed :: "64 word"
  sr_rx_speed :: "64 word"
  sr_health :: "int \<times> int \<times> int"

datatype resp_body =
    NoBody
  | RawBody string
  | StatusBody string
  | StatsBody StatsResp
  | HealthBody "int \<times> int \<times> int" string    \<comment> \<open>percentages and the detail figures\<close>
  | UsersBody "UserResp list"
  | ConfigBody ClientCfg string    \<comment> \<open>with the file name of the attachment\<close>
  | QRBody ClientCfg
  | IndexPage
  | Redirect string

type_synonym http_resp = "nat \<times> resp_body"

record panel =
  pn_server :: server
  pn_adminPath :: string
  pn_prevBytesIn :: "64 word"
  pn_prevBytesOut :: "64 word"
  pn_lastSpeedAt :: "int option"
  pn_file :: "Config option"

text \<open>
  What a handler reads from outside: the clock, \<^verbatim>\<open>int64(now.Sub(lastSpeedAt).Seconds())\<close>,
  the uptime, the health figures, whether the configuration file can be written, and
  whether the QR library accepts the data.
\<close>

record panel_env =
  pe_unix :: "64 word"
  pe_nanos :: int
  pe_elapsed :: "64 word"
  pe_uptime :: "64 word"
  pe_health :: "int \<times> int \<times> int"
  pe_healthDetail :: string
  pe_writeOK :: bool
  pe_qrOK :: "ClientCfg \<Rightarrow> bool"

definition init_panel :: "server \<Rightarrow> panel" where
  "init_panel s =
     \<lparr>pn_server = s, pn_adminPath = cfg_AdminPath (s_cfg s), pn_prevBytesIn = 0, pn_prevBytesOut = 0,
      pn_lastSpeedAt = None, pn_file = None\<rparr>"

section \<open>Saving the configuration\<close>

definition saved_users :: "server \<Rightarrow> User list" where
  "saved_users s = sort_key u_ShortID
     (map (\<lambda>(k, r). let p = s_store s r
        in \<lparr>u_ShortID = p_ShortID p, u_Name = p_Name p, u_SecretKey = p_KeyRaw p, u_IP = p_Internal p\<rparr>)
      (s_peers s))"

text \<open>The users are put into the running configuration even when the write fails.\<close>

definition saveConfig :: "panel_env \<Rightarrow> panel \<Rightarrow> panel" where
  "saveConfig e pn =
     (let s = pn_server pn;
          cfg = (s_cfg s)\<lparr>cfg_Users := saved_users s\<rparr>;
          pn1 = pn\<lparr>pn_server := s\<lparr>s_cfg := cfg\<rparr>\<rparr>
      in if pe_writeOK e then pn1\<lparr>pn_file := Some cfg\<rparr> else pn1)"

section \<open>Users\<close>

definition peer_online :: "panel_env \<Rightarrow> Peer \<Rightarrow> bool" where
  "peer_online e p \<longleftrightarrow> sint (pe_unix e - 90) < sint (p_LastSeen p)"

definition user_resp :: "panel_env \<Rightarrow> Peer \<Rightarrow> UserResp" where
  "user_resp e p =
     \<lparr>ur_ShortID = p_ShortID p, ur_Name = p_Name p, ur_IP = p_Internal p, ur_Online = peer_online e p,
      ur_LastSeen = p_LastSeen p, ur_ByteIn = p_CumRx p, ur_ByteOut = p_CumTx p\<rparr>"

definition listUsers :: "panel_env \<Rightarrow> panel \<Rightarrow> http_resp" where
  "listUsers e pn =
     (200, UsersBody (sort_key ur_ShortID
        (map (\<lambda>(k, r). user_resp e (s_store (pn_server pn) r)) (s_peers (pn_server pn)))))"

text \<open>The new peer gets no cipher context.\<close>

definition createUser :: "crypto \<Rightarrow> panel_env \<Rightarrow> http_req \<Rightarrow> panel \<Rightarrow> panel \<times> http_resp" where
  "createUser C e r pn =
     (case hr_create r of
        None \<Rightarrow> (pn, (400, RawBody ''{\"error\":\"invalid json\"}''))
      | Some req \<Rightarrow>
          if rq_ShortID req = 0 \<or> rq_SecretKey req = [] \<or> rq_IP req = []
          then (pn, (400, RawBody ''{\"error\":\"short_id, secret_key and ip are required\"}''))
          else if map_of (s_peers (pn_server pn)) (rq_ShortID req) \<noteq> None
          then (pn, (409, RawBody ''{\"error\":\"short_id already exists\"}''))
          else if map_of (s_ipToPeer (pn_server pn)) (rq_IP req) \<noteq> None
          then (pn, (409, RawBody ''{\"error\":\"ip already exists\"}''))
          else let p = new_peer (rq_ShortID req) (rq_Name req) (rq_SecretKey req)
                         (c_sha C (str_bytes (rq_SecretKey req))) None (rq_IP req)
               in (saveConfig e (pn\<lparr>pn_server := add_peer p (pn_server pn)\<rparr>), (201, StatusBody ''created'')))"

definition deleteUser :: "panel_env \<Rightarrow> 16 word \<Rightarrow> panel \<Rightarrow> panel \<times> http_resp" where
  "deleteUser e shortID pn =
     (let s = pn_server pn
      in case map_of (s_peers s) shortID of
           None \<Rightarrow> (pn, (404, RawBody ''{\"error\":\"user not found\"}''))
         | Some r \<Rightarrow>
             let s' = s\<lparr>s_peers := AList.delete shortID (s_peers s),
                        s_ipToPeer := AList.delete (p_Internal (s_store s r)) (s_ipToPeer s)\<rparr>
             in (saveConfig e (pn\<lparr>pn_server := s'\<rparr>), (200, StatusBody ''deleted'')))"

section \<open>Client configurations\<close>

definition buildClientCfg :: "Config \<Rightarrow> Peer \<Rightarrow> ClientCfg" where
  "buildClientCfg cfg p =
     \<lparr>cc_ProfileName = (if p_Name p = [] then ''User-'' @ dec_str (unat (p_ShortID p)) else p_Name p),
      cc_ServerIP = cfg_ServerIP cfg, cc_Port = cfg_Port cfg, cc_ShortID = p_ShortID p,
      cc_SecretKey = p_KeyRaw p, cc_RoutingSalt = cfg_RoutingSalt cfg, cc_InternalIP = p_Internal p,
      cc_GatewayIP = cfg_GatewayIP cfg, cc_DNS = cfg_DNS cfg\<rparr>"

definition serveConfig :: "16 word \<Rightarrow> panel \<Rightarrow> http_resp" where
  "serveConfig shortID pn =
     (case map_of (s_peers (pn_server pn)) shortID of
        None \<Rightarrow> (404, RawBody ''{\"error\":\"user not found\"}'')
      | Some r \<Rightarrow>
          let p = s_store (pn_server pn) r;
              filename = (if p_Name p = [] then ''user-'' @ dec_str (unat shortID) else p_Name p)
          in (200, ConfigBody (buildClientCfg (s_cfg (pn_server pn)) p) (filename @ ''.json'')))"

definition serveQR :: "panel_env \<Rightarrow> 16 word \<Rightarrow> panel \<Rightarrow> http_resp" where
  "serveQR e shortID pn =
     (case map_of (s_peers (pn_server pn)) shortID of
        None \<Rightarrow> (404, RawBody ''{\"error\":\"user not found\"}'')
      | Some r \<Rightarrow>
          let data = buildClientCfg (s_cfg (pn_server pn)) (s_store (pn_server pn) r)
          in if pe_qrOK e data then (200, QRBody data)
             else (500, RawBody ''{\"error\":\"qr generation failed\"}''))"

section \<open>Statistics and reset\<close>

text \<open>\<^verbatim>\<open>int64\<close> division truncates.\<close>

definition int64_div :: "64 word \<Rightarrow> 64 word \<Rightarrow> 64 word" where
  "int64_div a b = word_of_int (sint a sdiv sint b)"

definition handleStats :: "panel_env \<Rightarrow> http_req \<Rightarrow> panel \<Rightarrow> panel \<times> http_resp" where
  "handleStats e r pn =
     (if hr_Method r \<noteq> ''GET'' then (pn, (405, NoBody))
      else let ps = map (\<lambda>(k, r). s_store (pn_server pn) r) (s_peers (pn_server pn));
               totalIn = sum_list (map p_CumRx ps);
               totalOut = sum_list (map p_CumTx ps);
               online = length (filter (peer_online e) ps);
               speed = pn_lastSpeedAt pn \<noteq> None \<and> 0 < sint (pe_elapsed e)
           in (pn\<lparr>pn_prevBytesOut := totalOut, pn_prevBytesIn := totalIn, pn_lastSpeedAt := Some (pe_nanos e)\<rparr>,
               (200, StatsBody
                  \<lparr>sr_uptime = pe_uptime e, sr_peers_total = length (s_peers (pn_server pn)),
                   sr_peers_online = online, sr_total_in = totalIn, sr_total_out = totalOut,
                   sr_tx_speed = (if speed then int64_div (totalOut - pn_prevBytesOut pn) (pe_elapsed e) else 0),
                   sr_rx_speed = (if speed then int64_div (totalIn - pn_prevBytesIn pn) (pe_elapsed e) else 0),
                   sr_health = pe_health e\<rparr>)))"

definition handleHealthDetail :: "panel_env \<Rightarrow> http_req \<Rightarrow> http_resp" where
  "handleHealthDetail e r = (if hr_Method r \<noteq> ''GET'' then (405, NoBody) else (200, HealthBody (pe_health e) (pe_healthDetail e)))"

definition reset_peers :: "server \<Rightarrow> server" where
  "reset_peers s = foldl (\<lambda>s (k, r). upd_peer r (\<lambda>p. p\<lparr>p_ByteIn := 0, p_ByteOut := 0\<rparr>) s) s (s_peers s)"

definition handleReset :: "http_req \<Rightarrow> panel \<Rightarrow> panel \<times> http_resp" where
  "handleReset r pn =
     (if hr_Method r \<noteq> ''POST'' then (pn, (405, NoBody))
      else (pn\<lparr>pn_server := reset_peers (pn_server pn), pn_prevBytesIn := 0, pn_prevBytesOut := 0\<rparr>,
            (200, StatusBody ''reset'')))"

section \<open>Routing\<close>

text \<open>\<^verbatim>\<open>strconv.ParseUint(s, 10, 16)\<close>; None is an error.\<close>

fun parse_digits :: "nat \<Rightarrow> string \<Rightarrow> nat option" where
  "parse_digits n [] = Some n"
| "parse_digits n (c # cs) =
     (let d = of_char c :: nat in if 48 \<le> d \<and> d \<le> 57 then parse_digits (n * 10 + (d - 48)) cs else None)"

definition ParseUint16 :: "string \<Rightarrow> 16 word option" where
  "ParseUint16 s =
     (if s = [] then None
      else case parse_digits 0 s of None \<Rightarrow> None | Some n \<Rightarrow> if n < 65536 then Some (of_nat n) else None)"

definition TrimPrefix :: "string \<Rightarrow> string \<Rightarrow> string" where
  "TrimPrefix s pre = (if starts_with pre s then drop (length pre) s else s)"

text \<open>\<^verbatim>\<open>strings.SplitN(s, "/", 2)\<close>: the part before the first slash and, if there is one,
  the part behind it.\<close>

fun SplitN2 :: "string \<Rightarrow> string \<times> string option" where
  "SplitN2 [] = ([], None)"
| "SplitN2 (c # cs) =
     (if c = CHR ''/'' then ([], Some cs) else let (a, b) = SplitN2 cs in (c # a, b))"

definition handleUsersRoute :: "crypto \<Rightarrow> panel_env \<Rightarrow> http_req \<Rightarrow> panel \<Rightarrow> panel \<times> http_resp" where
  "handleUsersRoute C e r pn =
     (if hr_Method r = ''GET'' then (pn, listUsers e pn)
      else if hr_Method r = ''POST'' then createUser C e r pn
      else (pn, (405, NoBody)))"

definition handleUserRoute :: "panel_env \<Rightarrow> http_req \<Rightarrow> panel \<Rightarrow> panel \<times> http_resp" where
  "handleUserRoute e r pn =
     (let trimmed = TrimPrefix (hr_Path r) (pn_adminPath pn @ ''/api/users/'');
          (part0, part1) = SplitN2 trimmed
      in case ParseUint16 part0 of
           None \<Rightarrow> (pn, (400, RawBody ''{\"error\":\"invalid id\"}''))
         | Some shortID \<Rightarrow>
             let sub = (case part1 of None \<Rightarrow> [] | Some p \<Rightarrow> p)
             in if sub = [] then (if hr_Method r = ''DELETE'' then deleteUser e shortID pn else (pn, (405, NoBody)))
                else if sub = ''config'' then (pn, serveConfig shortID pn)
                else if sub = ''qr'' then (pn, serveQR e shortID pn)
                else (pn, (404, RawBody ''{\"error\":\"not found\"}'')))"

definition withAuth ::
  "(http_req \<Rightarrow> panel \<Rightarrow> panel \<times> http_resp) \<Rightarrow> http_req \<Rightarrow> panel \<Rightarrow> panel \<times> http_resp" where
  "withAuth next r pn =
     (let token = (if hr_Header_Token r = [] then hr_Query_Token r else hr_Header_Token r)
      in if token \<noteq> cfg_AdminToken (s_cfg (pn_server pn))
         then (pn, (401, RawBody ''{\"error\":\"unauthorized\"}''))
         else next r pn)"

text \<open>The registered patterns, the longest first.\<close>

definition panel_mux :: "crypto \<Rightarrow> panel_env \<Rightarrow> http_req \<Rightarrow> panel \<Rightarrow> panel \<times> http_resp" where
  "panel_mux C e r pn =
     (let p = pn_adminPath pn; path = hr_Path r
      in if path = p @ ''/api/stats'' then withAuth (handleStats e) r pn
         else if path = p @ ''/api/health/detail'' then withAuth (\<lambda>r pn. (pn, handleHealthDetail e r)) r pn
         else if path = p @ ''/api/users'' then withAuth (handleUsersRoute C e) r pn
         else if starts_with (p @ ''/api/users/'') path then withAuth (handleUserRoute e) r pn
         else if path = p @ ''/api/reset'' then withAuth handleReset r pn
         else if starts_with (p @ ''/'') path then (pn, (200, IndexPage))
         else if path = p then (pn, (301, Redirect (p @ ''/'')))
         else (pn, (404, NoBody)))"

section \<open>The tables under the panel's operations\<close>

text \<open>An address of a filed peer may be missing from the address map only when two
  configured users share it; the panel never makes that happen.\<close>

definition addresses_filed :: "server \<Rightarrow> bool" where
  "addresses_filed s \<longleftrightarrow>
     (\<forall>k r. map_of (s_peers s) k = Some r \<longrightarrow> map_of (s_ipToPeer s) (p_Internal (s_store s r)) = Some r)"

lemma server_inv_saveConfig [simp]: "server_inv (pn_server (saveConfig e pn)) \<longleftrightarrow> server_inv (pn_server pn)"
  by (simp add: saveConfig_def Let_def server_inv_def)

lemma saveConfig_select [simp]:
  "s_store (pn_server (saveConfig e pn)) = s_store (pn_server pn)"
  "s_peers (pn_server (saveConfig e pn)) = s_peers (pn_server pn)"
  "s_ipToPeer (pn_server (saveConfig e pn)) = s_ipToPeer (pn_server pn)"
  "s_nextRef (pn_server (saveConfig e pn)) = s_nextRef (pn_server pn)"
  "s_bloom (pn_server (saveConfig e pn)) = s_bloom (pn_server pn)"
  "s_routingSalt (pn_server (saveConfig e pn)) = s_routingSalt (pn_server pn)"
  "s_cfg (pn_server (saveConfig e pn)) = (s_cfg (pn_server pn))\<lparr>cfg_Users := saved_users (pn_server pn)\<rparr>"
  "pn_file (saveConfig e pn) = (if pe_writeOK e then Some (s_cfg (pn_server (saveConfig e pn))) else pn_file pn)"
  by (simp_all add: saveConfig_def Let_def)

lemma server_inv_delete:
  assumes "server_inv s" and "map_of (s_peers s) k = Some r"
  shows "server_inv (s\<lparr>s_peers := AList.delete k (s_peers s),
    s_ipToPeer := AList.delete (p_Internal (s_store s r)) (s_ipToPeer s)\<rparr>)" (is "server_inv ?s")
proof -
  have p: "map_of (s_peers ?s) = (map_of (s_peers s))(k := None)"
    and i: "map_of (s_ipToPeer ?s) = (map_of (s_ipToPeer s))(p_Internal (s_store s r) := None)"
    by (simp_all add: delete_conv')
  show ?thesis
  proof (rule server_invI)
    fix j q assume "map_of (s_peers ?s) j = Some q"
    then have "map_of (s_peers s) j = Some q" unfolding p by (simp split: if_splits)
    with server_invD(4) [OF assms(1)]
    show "q < s_nextRef ?s \<and> p_ShortID (s_store ?s q) = j \<and> j \<noteq> 0" by auto
  next
    fix ip q assume "map_of (s_ipToPeer ?s) ip = Some q"
    then have q: "map_of (s_ipToPeer s) ip = Some q" "ip \<noteq> p_Internal (s_store s r)"
      unfolding i by (simp_all split: if_splits)
    from server_invD(5) [OF assms(1) q(1)] q(2) assms(2)
    show "p_Internal (s_store ?s q) = ip \<and> map_of (s_peers ?s) (p_ShortID (s_store ?s q)) = Some q"
      unfolding p by auto
  qed (use server_invD(1-3) [OF assms(1)] in \<open>simp_all add: distinct_delete\<close>)
qed

lemma reset_peers_select [simp]:
  "s_peers (reset_peers s) = s_peers s" "s_ipToPeer (reset_peers s) = s_ipToPeer s"
  "s_nextRef (reset_peers s) = s_nextRef s" "s_bloom (reset_peers s) = s_bloom s" "s_cfg (reset_peers s) = s_cfg s"
  "p_ShortID (s_store (reset_peers s) r) = p_ShortID (s_store s r)"
  "p_Internal (s_store (reset_peers s) r) = p_Internal (s_store s r)"
  "p_CumRx (s_store (reset_peers s) r) = p_CumRx (s_store s r)"
  "p_CumTx (s_store (reset_peers s) r) = p_CumTx (s_store s r)"
proof -
  have "let t = foldl (\<lambda>s (k, r). upd_peer r (\<lambda>p. p\<lparr>p_ByteIn := 0, p_ByteOut := 0\<rparr>) s) s xs
    in s_peers t = s_peers s \<and> s_ipToPeer t = s_ipToPeer s \<and> s_nextRef t = s_nextRef s \<and> s_bloom t = s_bloom s
      \<and> s_cfg t = s_cfg s
      \<and> p_ShortID (s_store t r) = p_ShortID (s_store s r) \<and> p_Internal (s_store t r) = p_Internal (s_store s r)
      \<and> p_CumRx (s_store t r) = p_CumRx (s_store s r) \<and> p_CumTx (s_store t r) = p_CumTx (s_store s r)" for xs
    by (induction xs arbitrary: s) (auto simp: Let_def)
  from this [of "s_peers s"] show
    "s_peers (reset_peers s) = s_peers s" "s_ipToPeer (reset_peers s) = s_ipToPeer s"
    "s_nextRef (reset_peers s) = s_nextRef s" "s_bloom (reset_peers s) = s_bloom s" "s_cfg (reset_peers s) = s_cfg s"
    "p_ShortID (s_store (reset_peers s) r) = p_ShortID (s_store s r)"
    "p_Internal (s_store (reset_peers s) r) = p_Internal (s_store s r)"
    "p_CumRx (s_store (reset_peers s) r) = p_CumRx (s_store s r)"
    "p_CumTx (s_store (reset_peers s) r) = p_CumTx (s_store s r)"
    by (simp_all add: reset_peers_def Let_def)
qed

lemma server_inv_reset_peers [simp]: "server_inv (reset_peers s) \<longleftrightarrow> server_inv s"
  by (simp add: server_inv_def)

lemma server_inv_createUser:
  "server_inv (pn_server pn) \<Longrightarrow> server_inv (pn_server (fst (createUser C e r pn)))"
  by (auto simp: createUser_def new_peer_def Let_def split: option.split intro!: server_inv_add_peer
      simp del: map_of_eq_None_iff)

lemma server_inv_deleteUser:
  "server_inv (pn_server pn) \<Longrightarrow> server_inv (pn_server (fst (deleteUser e k pn)))"
  using server_inv_delete by (auto simp: deleteUser_def Let_def split: option.split)

lemma server_inv_panel_mux:
  "server_inv (pn_server pn) \<Longrightarrow> server_inv (pn_server (fst (panel_mux C e r pn)))"
  by (auto simp: panel_mux_def withAuth_def handleUsersRoute_def handleUserRoute_def handleStats_def
      handleReset_def Let_def server_inv_createUser server_inv_deleteUser split: prod.split option.split)

section \<open>Registering a list of users\<close>

definition peer_user :: "Peer \<Rightarrow> User" where
  "peer_user p = \<lparr>u_ShortID = p_ShortID p, u_Name = p_Name p, u_SecretKey = p_KeyRaw p, u_IP = p_Internal p\<rparr>"

text \<open>The user filed under a short id.\<close>

definition user_at :: "server \<Rightarrow> 16 word \<Rightarrow> User option" where
  "user_at s k = map_option (\<lambda>r. peer_user (s_store s r)) (map_of (s_peers s) k)"

text \<open>The tables without the address map's law, which duplicate addresses break.\<close>

definition peers_inv :: "server \<Rightarrow> bool" where
  "peers_inv s \<longleftrightarrow> distinct (map fst (s_peers s))
     \<and> (\<forall>k r. map_of (s_peers s) k = Some r \<longrightarrow> r < s_nextRef s \<and> p_ShortID (s_store s r) = k)"

lemma peers_inv_add_peer:
  assumes "peers_inv s" and "map_of (s_peers s) (p_ShortID p) = None"
  shows "peers_inv (add_peer p s)"
    and "user_at (add_peer p s) = (user_at s)(p_ShortID p \<mapsto> peer_user p)"
    and "peers_have_cp s \<Longrightarrow> p_CP p \<noteq> None \<Longrightarrow> peers_have_cp (add_peer p s)"
proof -
  have old: "\<forall>k r. map_of (s_peers s) k = Some r \<longrightarrow> r < s_nextRef s \<and> p_ShortID (s_store s r) = k"
    using assms(1) unfolding peers_inv_def by blast
  have new: "map_of (s_peers s) k \<noteq> Some (s_nextRef s)" for k
    using old by (metis less_irrefl)
  have m: "map_of (s_peers (add_peer p s)) = (map_of (s_peers s))(p_ShortID p \<mapsto> s_nextRef s)"
    by (simp add: add_peer_def Let_def update_conv')
  have st: "s_store (add_peer p s) = (s_store s)(s_nextRef s := p)" "s_nextRef (add_peer p s) = s_nextRef s + 1"
    by (simp_all add: add_peer_def Let_def)
  have "\<forall>k r. map_of (s_peers (add_peer p s)) k = Some r \<longrightarrow>
      r < s_nextRef (add_peer p s) \<and> p_ShortID (s_store (add_peer p s) r) = k"
    unfolding m st using old by (auto split: if_splits simp del: map_of_eq_Some_iff intro: less_SucI)
  moreover have "distinct (map fst (s_peers (add_peer p s)))"
    using assms(1) by (simp add: peers_inv_def add_peer_def Let_def distinct_update)
  ultimately show "peers_inv (add_peer p s)" by (simp add: peers_inv_def)
  show "user_at (add_peer p s) = (user_at s)(p_ShortID p \<mapsto> peer_user p)"
    unfolding user_at_def m st using new
    by (auto simp: fun_eq_iff option.map_comp split: option.split simp del: map_of_eq_Some_iff intro!: option.map_cong0)
  show "peers_have_cp (add_peer p s)" if "peers_have_cp s" "p_CP p \<noteq> None"
    using that old unfolding peers_have_cp_def m st by (auto split: if_splits simp del: map_of_eq_Some_iff)
qed

lemma server_inv_peers_inv: "server_inv s \<Longrightarrow> peers_inv s"
  unfolding server_inv_def peers_inv_def by blast

text \<open>A list of users with distinct non-zero ids registers completely.\<close>

lemma register_users_Ok:
  assumes "\<And>m. c_key_ok C (c_sha C m)"
    and "distinct (map (\<lambda>(u, seed). u_ShortID u) us)" and "\<forall>(u, seed) \<in> set us. u_ShortID u \<noteq> 0"
    and "\<forall>(u, seed) \<in> set us. map_of (s_peers s) (u_ShortID u) = None"
    and "peers_inv s" and "peers_have_cp s"
  shows "\<exists>s'. register_users C us s = Ok s' \<and> peers_inv s' \<and> peers_have_cp s'
    \<and> user_at s' = user_at s ++ map_of (rev (map (\<lambda>(u, seed). (u_ShortID u, u)) us))"
  using assms(2-)
proof (induction us arbitrary: s)
  case Nil
  then show ?case by simp
next
  case (Cons x us)
  obtain u seed where x: "x = (u, seed)" by (cases x)
  have "\<exists>cp. (if cfg_NoEncrypt (s_cfg s) then Ok NewNoopCipherPack
      else NewCipherPack C (c_sha C (str_bytes (u_SecretKey u))) seed) = Ok cp"
    by (cases "prng_Uint32 seed") (simp add: NewCipherPack_def assms(1))
  then obtain cp where cp: "(if cfg_NoEncrypt (s_cfg s) then Ok NewNoopCipherPack
      else NewCipherPack C (c_sha C (str_bytes (u_SecretKey u))) seed) = Ok cp" ..
  define p where "p = new_peer (u_ShortID u) (u_Name u) (u_SecretKey u)
    (c_sha C (str_bytes (u_SecretKey u))) (Some cp) (u_IP u)"
  have p: "p_ShortID p = u_ShortID u" "p_CP p \<noteq> None" "peer_user p = u"
    by (simp_all add: p_def new_peer_def peer_user_def)
  have fresh: "map_of (s_peers s) (p_ShortID p) = None" "u_ShortID u \<noteq> 0"
    using Cons.prems(2,3) by (simp_all add: x p)
  have step: "register_users C (x # us) s = register_users C us (add_peer p s)"
    using fresh p(1) by (simp add: x Let_def cp p_def [symmetric] del: map_of_eq_None_iff)
  note add = peers_inv_add_peer [OF Cons.prems(4) fresh(1)]
  have "\<forall>(v, seed) \<in> set us. map_of (s_peers (add_peer p s)) (u_ShortID v) = None"
  proof (intro ballI, clarify)
    fix v sd assume v: "(v, sd) \<in> set us"
    with Cons.prems(1) have "u_ShortID v \<noteq> u_ShortID u" by (force simp: x)
    moreover have "map_of (s_peers s) (u_ShortID v) = None"
      using Cons.prems(3) v by (auto simp: x simp del: map_of_eq_None_iff)
    ultimately show "map_of (s_peers (add_peer p s)) (u_ShortID v) = None"
      by (simp add: p add_peer_def Let_def update_conv' del: map_of_eq_None_iff)
  qed
  with Cons.IH [OF _ _ _ add(1) add(3) [OF Cons.prems(5) p(2)]] Cons.prems(1,2)
  obtain s' where s': "register_users C us (add_peer p s) = Ok s'" "peers_inv s'" "peers_have_cp s'"
      "user_at s' = user_at (add_peer p s) ++ map_of (rev (map (\<lambda>(u, seed). (u_ShortID u, u)) us))"
    by (auto simp: x)
  then show ?case
    unfolding step by (auto simp: x add(2) p map_add_upd_left)
qed

section \<open>The saved users are the filed users\<close>

lemma saved_users_alt:
  "saved_users s = sort_key u_ShortID (map (\<lambda>(k, r). peer_user (s_store s r)) (s_peers s))"
  by (simp add: saved_users_def peer_user_def Let_def)

lemma peer_user_ShortID [simp]: "u_ShortID (peer_user p) = p_ShortID p"
  by (simp add: peer_user_def)

lemma peers_inv_keys:
  assumes "peers_inv s"
  shows "map (\<lambda>(k, r). p_ShortID (s_store s r)) (s_peers s) = map fst (s_peers s)"
  using assms unfolding peers_inv_def by (auto dest: map_of_is_SomeI)

lemma distinct_map_sort_key: "distinct (map f (sort_key g xs)) \<longleftrightarrow> distinct (map f xs)"
  by (simp add: distinct_map)

lemma saved_users_distinct:
  assumes "peers_inv s"
  shows "distinct (map u_ShortID (saved_users s))"
proof -
  have "map u_ShortID (map (\<lambda>(k, r). peer_user (s_store s r)) (s_peers s)) = map fst (s_peers s)"
    using peers_inv_keys [OF assms] by (simp add: comp_def case_prod_unfold)
  then have "distinct (map u_ShortID (map (\<lambda>(k, r). peer_user (s_store s r)) (s_peers s)))"
    by (metis assms peers_inv_def)
  then show ?thesis unfolding saved_users_alt distinct_map_sort_key .
qed

lemma saved_users_set:
  assumes "peers_inv s"
  shows "u \<in> set (saved_users s) \<longleftrightarrow> user_at s (u_ShortID u) = Some u"
proof -
  have d: "distinct (map fst (s_peers s))" and
    id: "\<And>k r. map_of (s_peers s) k = Some r \<Longrightarrow> p_ShortID (s_store s r) = k"
    using assms unfolding peers_inv_def by blast+
  have "u \<in> set (saved_users s) \<longleftrightarrow> (\<exists>k r. map_of (s_peers s) k = Some r \<and> u = peer_user (s_store s r))"
    using d by (auto simp: saved_users_alt)
  also have "\<dots> \<longleftrightarrow> user_at s (u_ShortID u) = Some u"
  proof
    assume "\<exists>k r. map_of (s_peers s) k = Some r \<and> u = peer_user (s_store s r)"
    then obtain k r where k: "map_of (s_peers s) k = Some r" "u = peer_user (s_store s r)" by blast
    then show "user_at s (u_ShortID u) = Some u" by (simp add: user_at_def id del: map_of_eq_Some_iff)
  next
    assume "user_at s (u_ShortID u) = Some u"
    then show "\<exists>k r. map_of (s_peers s) k = Some r \<and> u = peer_user (s_store s r)"
      by (auto simp: user_at_def simp del: map_of_eq_Some_iff)
  qed
  finally show ?thesis .
qed

lemma user_at_ShortID: "peers_inv s \<Longrightarrow> user_at s k = Some u \<Longrightarrow> u_ShortID u = k"
  by (auto simp: user_at_def peers_inv_def simp del: map_of_eq_Some_iff)

lemma saved_users_map:
  assumes "peers_inv s"
  shows "map_of (map (\<lambda>u. (u_ShortID u, u)) (rev (saved_users s))) = user_at s"
proof
  fix k
  have "distinct (map fst (map (\<lambda>u. (u_ShortID u, u)) (rev (saved_users s))))"
    using saved_users_distinct [OF assms] by (simp add: comp_def rev_map [symmetric])
  then have "map_of (map (\<lambda>u. (u_ShortID u, u)) (rev (saved_users s))) k = Some u \<longleftrightarrow> user_at s k = Some u" for u
  proof -
    from saved_users_set [OF assms, of u] user_at_ShortID [OF assms, of k u] show ?thesis
      using \<open>distinct _\<close> by auto
  qed
  then show "map_of (map (\<lambda>u. (u_ShortID u, u)) (rev (saved_users s))) k = user_at s k"
    by (metis option.exhaust)
qed

lemma user_at_init [simp]: "user_at (init_server cfg) = Map.empty"
  by (simp add: user_at_def init_server_def fun_eq_iff)

lemma delete_update_fresh: "map_of xs k = None \<Longrightarrow> AList.delete k (AList.update k v xs) = xs"
  by (induction xs) (auto simp: delete_id)

section \<open>Paths\<close>

lemma parse_digits_append:
  "parse_digits n (xs @ ys) = (case parse_digits n xs of None \<Rightarrow> None | Some m \<Rightarrow> parse_digits m ys)"
  by (induction xs arbitrary: n) (simp_all add: Let_def)

lemma parse_digits_dec_str: "parse_digits 0 (dec_str n) = Some n"
proof (induction n rule: dec_str.induct)
  case (1 n)
  then show ?case
    by (cases "n < 10") (simp_all add: dec_str.simps [of n] parse_digits_append Let_def)
qed

lemma ParseUint16_dec_str: "ParseUint16 (dec_str n) = (if n < 65536 then Some (of_nat n) else None)"
proof -
  have "dec_str n \<noteq> []" by (simp add: dec_str.simps [of n])
  then show ?thesis by (simp add: ParseUint16_def parse_digits_dec_str)
qed

lemma dec_str_no_slash: "CHR ''/'' \<notin> set (dec_str n)"
proof (induction n rule: dec_str.induct)
  case (1 n)
  have "CHR ''/'' \<noteq> char_of (48 + m)" if "m < 10" for m :: nat
  proof
    assume "CHR ''/'' = char_of (48 + m)"
    then have "of_char (char_of (48 + m) :: char) = (of_char CHR ''/'' :: nat)" by simp
    with that show False by simp
  qed
  from this [of n] this [of "n mod 10"] 1 show ?case
    unfolding dec_str.simps [of n] by (simp split: if_split)
qed

lemma SplitN2_no_slash: "CHR ''/'' \<notin> set xs \<Longrightarrow> SplitN2 xs = (xs, None)"
  by (induction xs) auto

lemma SplitN2_slash: "CHR ''/'' \<notin> set xs \<Longrightarrow> SplitN2 (xs @ CHR ''/'' # ys) = (xs, Some ys)"
  by (induction xs) auto

lemma starts_with_common [simp]: "starts_with (p @ q) (p @ r) = starts_with q r"
  by (induction p) simp_all

lemma TrimPrefix_append [simp]: "TrimPrefix (p @ s) p = s"
  by (simp add: TrimPrefix_def)

section \<open>Properties\<close>

definition sample_panel :: panel where
  "sample_panel = init_panel sample_server"

definition sample_env :: panel_env where
  "sample_env = \<lparr>pe_unix = 1000, pe_nanos = 0, pe_elapsed = 5, pe_uptime = 60, pe_health = (0, 0, 0),
     pe_healthDetail = [], pe_writeOK = True, pe_qrOK = (\<lambda>_. True)\<rparr>"

definition sample_req :: http_req where
  "sample_req = \<lparr>hr_Method = ''POST'', hr_Path = ''/api/users'', hr_Header_Token = [], hr_Query_Token = [],
     hr_create = Some \<lparr>rq_ShortID = 5, rq_Name = ''bob'', rq_SecretKey = ''k'', rq_IP = ''10.0.0.6''\<rparr>\<rparr>"

lemma sample_panel_select [simp]:
  "pn_server sample_panel = sample_server" "pn_adminPath sample_panel = []"
  by (simp_all add: sample_panel_def init_panel_def zero_Config_def)

lemma sample_user: "user_at sample_server = [3 \<mapsto> \<lparr>u_ShortID = 3, u_Name = ''alice'', u_SecretKey = ''secret'', u_IP = ''10.0.0.5''\<rparr>]"
  by (simp add: fun_eq_iff user_at_def peer_user_def sample_server_def add_peer_def new_peer_def init_server_def Let_def)

definition stats_sums :: "server \<Rightarrow> 64 word \<times> 64 word" where
  "stats_sums s = (sum_list (map (\<lambda>(k, r). p_CumTx (s_store s r)) (s_peers s)),
     sum_list (map (\<lambda>(k, r). p_CumRx (s_store s r)) (s_peers s)))"

definition request_token :: "http_req \<Rightarrow> string" where
  "request_token r = (if hr_Header_Token r = [] then hr_Query_Token r else hr_Header_Token r)"

text \<open>
  C39: without the admin token no request changes anything, and every API path answers 401.
\<close>

theorem wrong_token_changes_nothing:
  assumes "request_token r \<noteq> cfg_AdminToken (s_cfg (pn_server pn))"
  shows "fst (panel_mux C e r pn) = pn
    \<and> (starts_with (pn_adminPath pn @ ''/api/users/'') (hr_Path r)
       \<or> hr_Path r \<in> (\<lambda>x. pn_adminPath pn @ x) ` {''/api/stats'', ''/api/health/detail'', ''/api/users'', ''/api/reset''}
       \<longrightarrow> snd (panel_mux C e r pn) = (401, RawBody ''{\"error\":\"unauthorized\"}''))"
  using assms by (auto simp: panel_mux_def withAuth_def request_token_def Let_def)

theorem wrong_token_changes_nothing_witness:
  "panel_mux go_crypto sample_env (sample_req\<lparr>hr_Header_Token := ''guess''\<rparr>) sample_panel =
     (sample_panel, (401, RawBody ''{\"error\":\"unauthorized\"}''))"
  using wrong_token_changes_nothing [of "sample_req\<lparr>hr_Header_Token := ''guess''\<rparr>" sample_panel go_crypto sample_env]
  by (simp add: request_token_def sample_req_def zero_Config_def prod_eq_iff)

text \<open>
  Every request, whatever its path, method, token and body, keeps the peer tables
  consistent (distinct keys, allocated references, ids and addresses matching).
\<close>

theorem panel_keeps_server_inv:
  assumes "server_inv (pn_server pn)"
  shows "server_inv (pn_server (fst (panel_mux C e r pn)))"
  using assms by (rule server_inv_panel_mux)

theorem panel_keeps_server_inv_witness:
  "server_inv (pn_server (fst (panel_mux go_crypto sample_env sample_req sample_panel)))"
  using panel_keeps_server_inv [of sample_panel go_crypto sample_env sample_req] sample_server_inv by simp

text \<open>
  Creating a user answers 201 exactly when the body decodes, id, key and address are
  given and neither id nor address is taken; then exactly this user is added to the table,
  and to the saved users, and otherwise nothing changes.
\<close>

theorem create_user_outcome:
  assumes "server_inv (pn_server pn)"
  shows "(\<exists>req. hr_create r = Some req \<and> rq_ShortID req \<noteq> 0 \<and> rq_SecretKey req \<noteq> [] \<and> rq_IP req \<noteq> []
        \<and> map_of (s_peers (pn_server pn)) (rq_ShortID req) = None
        \<and> map_of (s_ipToPeer (pn_server pn)) (rq_IP req) = None
        \<and> createUser C e r pn = (fst (createUser C e r pn), (201, StatusBody ''created''))
        \<and> user_at (pn_server (fst (createUser C e r pn))) = (user_at (pn_server pn))(rq_ShortID req \<mapsto>
             \<lparr>u_ShortID = rq_ShortID req, u_Name = rq_Name req, u_SecretKey = rq_SecretKey req, u_IP = rq_IP req\<rparr>)
        \<and> (\<forall>u. u \<in> set (cfg_Users (s_cfg (pn_server (fst (createUser C e r pn)))))
             \<longleftrightarrow> user_at (pn_server (fst (createUser C e r pn))) (u_ShortID u) = Some u))
    \<or> (\<exists>code msg. createUser C e r pn = (pn, (code, RawBody msg)) \<and> code \<in> {400, 409})"
proof -
  have saved: "user_at (pn_server (saveConfig e q)) = user_at (pn_server q)" for q
    by (simp add: user_at_def fun_eq_iff)
  show ?thesis
  proof (cases "hr_create r")
    case None
    then show ?thesis by (simp add: createUser_def)
  next
    case (Some req)
    define p where "p = new_peer (rq_ShortID req) (rq_Name req) (rq_SecretKey req)
      (c_sha C (str_bytes (rq_SecretKey req))) None (rq_IP req)"
    have p: "p_ShortID p = rq_ShortID req" "p_Internal p = rq_IP req"
      "peer_user p = \<lparr>u_ShortID = rq_ShortID req, u_Name = rq_Name req, u_SecretKey = rq_SecretKey req, u_IP = rq_IP req\<rparr>"
      by (simp_all add: p_def new_peer_def peer_user_def)
    note add = peers_inv_add_peer [OF server_inv_peers_inv [OF assms], of p]
    show ?thesis
      using Some add(1,2) saved_users_set [of "add_peer p (pn_server pn)"]
      unfolding createUser_def Some option.case Let_def p_def [symmetric]
      by (simp add: saved p del: map_of_eq_None_iff)
  qed
qed

theorem create_user_outcome_witness:
  "user_at (pn_server (fst (createUser go_crypto sample_env sample_req sample_panel))) 5 =
     Some \<lparr>u_ShortID = 5, u_Name = ''bob'', u_SecretKey = ''k'', u_IP = ''10.0.0.6''\<rparr>"
proof -
  have "snd (createUser go_crypto sample_env sample_req sample_panel) = (201, StatusBody ''created'')"
    by (simp add: createUser_def sample_req_def)
  with create_user_outcome [of sample_panel, where C = go_crypto and e = sample_env and r = sample_req] sample_server_inv
  show ?thesis by (auto simp: sample_req_def)
qed

text \<open>
  Deleting a user that was just created restores the tables and the saved users.
\<close>

theorem create_delete_restores:
  assumes "server_inv (pn_server pn)" and "createUser C e r pn = (pn1, (201, b))" and "hr_create r = Some req"
  shows "\<exists>pn2. deleteUser e (rq_ShortID req) pn1 = (pn2, (200, StatusBody ''deleted''))
    \<and> s_peers (pn_server pn2) = s_peers (pn_server pn) \<and> s_ipToPeer (pn_server pn2) = s_ipToPeer (pn_server pn)
    \<and> cfg_Users (s_cfg (pn_server pn2)) = saved_users (pn_server pn)
    \<and> user_at (pn_server pn2) = user_at (pn_server pn)"
proof -
  let ?s = "pn_server pn"
  define p where "p = new_peer (rq_ShortID req) (rq_Name req) (rq_SecretKey req)
    (c_sha C (str_bytes (rq_SecretKey req))) None (rq_IP req)"
  have p: "p_ShortID p = rq_ShortID req" "p_Internal p = rq_IP req" by (simp_all add: p_def new_peer_def)
  from assms(2,3) have free: "map_of (s_peers ?s) (rq_ShortID req) = None" "map_of (s_ipToPeer ?s) (rq_IP req) = None"
    and pn1: "pn1 = saveConfig e (pn\<lparr>pn_server := add_peer p ?s\<rparr>)"
    unfolding createUser_def p_def
    by (auto simp: Let_def simp del: map_of_eq_None_iff split: if_splits)
  have peers1: "s_peers (pn_server pn1) = AList.update (rq_ShortID req) (s_nextRef ?s) (s_peers ?s)"
      "s_ipToPeer (pn_server pn1) = AList.update (rq_IP req) (s_nextRef ?s) (s_ipToPeer ?s)"
      "s_store (pn_server pn1) = (s_store ?s)(s_nextRef ?s := p)"
    by (simp_all add: pn1 add_peer_def Let_def p)
  have old: "map_of (s_peers ?s) k = Some q \<Longrightarrow> q \<noteq> s_nextRef ?s" for k q
    using server_invD(4) [OF assms(1), of k q] by (metis less_irrefl)
  have same: "map (\<lambda>(k, q). peer_user (((s_store ?s)(s_nextRef ?s := p)) q)) (s_peers ?s)
      = map (\<lambda>(k, q). peer_user (s_store ?s q)) (s_peers ?s)"
    using old server_invD(2) [OF assms(1)] by auto
  have del: "AList.delete (rq_ShortID req) (s_peers (pn_server pn1)) = s_peers ?s"
      "AList.delete (rq_IP req) (s_ipToPeer (pn_server pn1)) = s_ipToPeer ?s"
    unfolding peers1 by (simp_all only: delete_update_fresh [OF free(1)] delete_update_fresh [OF free(2)])
  define s2 where "s2 = (pn_server pn1)\<lparr>s_peers := s_peers ?s, s_ipToPeer := s_ipToPeer ?s\<rparr>"
  have "map_of (s_peers (pn_server pn1)) (rq_ShortID req) = Some (s_nextRef ?s)"
    by (simp add: peers1 update_conv')
  then have D: "deleteUser e (rq_ShortID req) pn1 = (saveConfig e (pn1\<lparr>pn_server := s2\<rparr>), (200, StatusBody ''deleted''))"
    using del by (simp add: deleteUser_def Let_def peers1(3) p s2_def del: map_of_eq_Some_iff)
  have s2: "s_peers s2 = s_peers ?s" "s_ipToPeer s2 = s_ipToPeer ?s" "s_store s2 = (s_store ?s)(s_nextRef ?s := p)"
    by (simp_all add: s2_def peers1)
  have "saved_users s2 = saved_users ?s"
    unfolding saved_users_alt s2 same ..
  moreover have "user_at s2 = user_at ?s"
    unfolding user_at_def s2 using old by (auto simp: fun_eq_iff simp del: map_of_eq_Some_iff intro!: map_option_cong)
  ultimately show ?thesis
    using D s2 by (simp add: user_at_def fun_eq_iff)
qed

theorem create_delete_restores_witness:
  "\<exists>pn2. deleteUser sample_env 5 (fst (createUser go_crypto sample_env sample_req sample_panel))
      = (pn2, (200, StatusBody ''deleted'')) \<and> s_peers (pn_server pn2) = [(3, 0)]"
proof -
  have "createUser go_crypto sample_env sample_req sample_panel
      = (fst (createUser go_crypto sample_env sample_req sample_panel), (201, StatusBody ''created''))"
    by (simp add: createUser_def sample_req_def)
  from create_delete_restores [OF _ this] sample_server_inv show ?thesis
    by (auto simp: sample_req_def)
qed

text \<open>
  The user list is strictly sorted by short id, and lists exactly the filed users.
\<close>

theorem list_users_sorted_and_complete:
  assumes "server_inv (pn_server pn)"
  shows "\<exists>l. listUsers e pn = (200, UsersBody l) \<and> sorted_wrt (<) (map ur_ShortID l)
    \<and> (\<forall>k n ip. (\<exists>x \<in> set l. ur_ShortID x = k \<and> ur_Name x = n \<and> ur_IP x = ip)
         \<longleftrightarrow> (\<exists>u. user_at (pn_server pn) k = Some u \<and> u_Name u = n \<and> u_IP u = ip))"
proof -
  let ?s = "pn_server pn"
  let ?m = "map (\<lambda>(k, r). user_resp e (s_store ?s r)) (s_peers ?s)"
  let ?l = "sort_key ur_ShortID ?m"
  have pinv: "peers_inv ?s" by (rule server_inv_peers_inv [OF assms])
  have "map ur_ShortID ?m = map fst (s_peers ?s)"
    using peers_inv_keys [OF pinv] by (simp add: user_resp_def comp_def case_prod_unfold)
  then have "distinct (map ur_ShortID ?m)" by (metis pinv peers_inv_def)
  then have "distinct (map ur_ShortID ?l)" unfolding distinct_map_sort_key .
  then have "sorted_wrt (<) (map ur_ShortID ?l)" by (simp add: strict_sorted_iff)
  moreover have "(\<exists>x \<in> set ?l. ur_ShortID x = k \<and> ur_Name x = n \<and> ur_IP x = ip)
      \<longleftrightarrow> (\<exists>u. user_at ?s k = Some u \<and> u_Name u = n \<and> u_IP u = ip)" for k n ip
  proof -
    have d: "distinct (map fst (s_peers ?s))" using pinv by (simp add: peers_inv_def)
    have "(\<exists>x \<in> set ?l. ur_ShortID x = k \<and> ur_Name x = n \<and> ur_IP x = ip)
        \<longleftrightarrow> (\<exists>u \<in> set (saved_users ?s). u_ShortID u = k \<and> u_Name u = n \<and> u_IP u = ip)"
      unfolding saved_users_alt set_sort set_map bex_simps
      by (simp add: user_resp_def peer_user_def case_prod_unfold)
    also have "\<dots> \<longleftrightarrow> (\<exists>u. user_at ?s k = Some u \<and> u_Name u = n \<and> u_IP u = ip)"
      using saved_users_set [OF pinv] user_at_ShortID [OF pinv] by metis
    finally show ?thesis .
  qed
  ultimately show ?thesis by (auto simp: listUsers_def)
qed

theorem list_users_sorted_and_complete_witness:
  "\<exists>l. listUsers sample_env sample_panel = (200, UsersBody l)
    \<and> (\<exists>x \<in> set l. ur_ShortID x = 3 \<and> ur_Name x = ''alice'' \<and> ur_IP x = ''10.0.0.5'')"
proof -
  obtain l where l: "listUsers sample_env sample_panel = (200, UsersBody l)"
    "(\<exists>x \<in> set l. ur_ShortID x = 3 \<and> ur_Name x = ''alice'' \<and> ur_IP x = ''10.0.0.5'')
       \<longleftrightarrow> (\<exists>u. user_at (pn_server sample_panel) 3 = Some u \<and> u_Name u = ''alice'' \<and> u_IP u = ''10.0.0.5'')"
    using list_users_sorted_and_complete [of sample_panel sample_env] sample_server_inv by auto
  from l(2) have "\<exists>x \<in> set l. ur_ShortID x = 3 \<and> ur_Name x = ''alice'' \<and> ur_IP x = ''10.0.0.5''"
    by (simp add: sample_user)
  with l(1) show ?thesis by blast
qed

text \<open>
  C38: a configuration the panel saved can be started from: all its users register, each
  with a cipher context, and the new tables hold exactly the users the panel showed.
\<close>

theorem saved_config_restarts:
  assumes "server_inv (pn_server pn)" and "pn_file (saveConfig e pn) = Some cfg" and "pe_writeOK e"
  shows "\<exists>s'. register_users go_crypto (map (\<lambda>u. (u, seed u)) (cfg_Users cfg)) (init_server cfg) = Ok s'
    \<and> user_at s' = user_at (pn_server pn) \<and> peers_have_cp s'"
proof -
  let ?s = "pn_server pn"
  have pinv: "peers_inv ?s" by (rule server_inv_peers_inv [OF assms(1)])
  have cfg: "cfg_Users cfg = saved_users ?s" using assms(2,3) by auto
  have key: "c_key_ok go_crypto (c_sha go_crypto m)" for m
    by (rule std.key32_ok) (rule std.length_sha)
  have ids: "\<forall>u \<in> set (saved_users ?s). u_ShortID u \<noteq> 0"
    using saved_users_set [OF pinv] server_invD(4) [OF assms(1)]
    by (auto simp: user_at_def simp del: map_of_eq_Some_iff)
  have "\<exists>s'. register_users go_crypto (map (\<lambda>u. (u, seed u)) (saved_users ?s)) (init_server cfg) = Ok s'
    \<and> peers_inv s' \<and> peers_have_cp s'
    \<and> user_at s' = user_at (init_server cfg) ++ map_of (rev (map (\<lambda>(u, seed). (u_ShortID u, u)) (map (\<lambda>u. (u, seed u)) (saved_users ?s))))"
    by (rule register_users_Ok [OF key])
      (use ids saved_users_distinct [OF pinv] in
        \<open>auto simp: comp_def init_server_def peers_inv_def peers_have_cp_def\<close>)
  then show ?thesis
    using saved_users_map [OF pinv] by (auto simp: cfg comp_def rev_map)
qed

theorem saved_config_restarts_witness:
  "\<exists>cfg s'. pn_file (saveConfig sample_env sample_panel) = Some cfg
    \<and> register_users go_crypto (map (\<lambda>u. (u, 7)) (cfg_Users cfg)) (init_server cfg) = Ok s'
    \<and> user_at s' = user_at sample_server"
proof -
  define cfg where "cfg = s_cfg (pn_server (saveConfig sample_env sample_panel))"
  have "pn_file (saveConfig sample_env sample_panel) = Some cfg" by (simp add: sample_env_def cfg_def)
  from saved_config_restarts [OF _ this, of "\<lambda>_. 7"] this sample_server_inv show ?thesis
    by (auto simp: sample_env_def)
qed

text \<open>
  Deleting the last user saves a configuration the server refuses to start from.
\<close>

theorem deleting_last_user_blocks_restart:
  assumes "s_peers (pn_server pn) = [(k, r)]" and "pe_writeOK e"
    and "cfg_Users (decode content zero_Config) = cfg_Users (s_cfg (pn_server (fst (deleteUser e k pn))))"
  shows "snd (deleteUser e k pn) = (200, StatusBody ''deleted'')
    \<and> pn_file (fst (deleteUser e k pn)) = Some (s_cfg (pn_server (fst (deleteUser e k pn))))
    \<and> server_loadConfig (\<lambda>_. Inr content) decode port path = Err ''no users in config''"
  using assms by (simp add: deleteUser_def Let_def saved_users_def server_loadConfig_def LoadConfig_def)

theorem deleting_last_user_blocks_restart_witness:
  "server_loadConfig (\<lambda>_. Inr ''{}'') (\<lambda>_ c. c) 0 ''server_config.json'' = Err ''no users in config''
   \<and> snd (deleteUser sample_env 3 sample_panel) = (200, StatusBody ''deleted'')"
proof -
  have "cfg_Users (s_cfg (pn_server (fst (deleteUser sample_env 3 sample_panel)))) = []"
    by (simp add: deleteUser_def Let_def saved_users_def)
  then show ?thesis
    using deleting_last_user_blocks_restart [of sample_panel 3 0 sample_env "\<lambda>_ c. c" "''{}''" 0 "''server_config.json''"]
    by (simp add: sample_env_def zero_Config_def)
qed

text \<open>
  The paths of the user API lead to the operation they name: DELETE on the decimal id
  deletes that user, and its config and qr paths serve its configuration.
\<close>

theorem user_routes:
  assumes "request_token r = cfg_AdminToken (s_cfg (pn_server pn))"
    and "hr_Path r = pn_adminPath pn @ ''/api/users/'' @ dec_str (unat (k :: 16 word)) @ sub"
  shows "panel_mux C e r pn =
    (if sub = [] then if hr_Method r = ''DELETE'' then deleteUser e k pn else (pn, (405, NoBody))
     else if sub = ''/config'' then (pn, serveConfig k pn)
     else if sub = ''/qr'' then (pn, serveQR e k pn)
     else panel_mux C e r pn)"
proof -
  let ?p = "pn_adminPath pn"
  let ?d = "dec_str (unat k)"
  have T: "TrimPrefix (hr_Path r) (?p @ ''/api/users/'') = ?d @ sub"
    using TrimPrefix_append [of "?p @ ''/api/users/''" "?d @ sub"] assms(2) by simp
  have M: "panel_mux C e r pn = handleUserRoute e r pn"
    using assms by (simp add: panel_mux_def withAuth_def request_token_def Let_def)
  have P: "ParseUint16 ?d = Some k" using unat16_less [of k] by (simp add: ParseUint16_dec_str)
  have split: "SplitN2 ?d = (?d, None)" "SplitN2 (?d @ CHR ''/'' # x) = (?d, Some x)" for x
    using dec_str_no_slash by (simp_all add: SplitN2_no_slash SplitN2_slash)
  show ?thesis unfolding M
    by (auto simp: handleUserRoute_def T P split Let_def)
qed

theorem user_routes_witness:
  "panel_mux go_crypto sample_env (sample_req\<lparr>hr_Path := ''/api/users/3'', hr_Method := ''DELETE''\<rparr>) sample_panel
     = deleteUser sample_env 3 sample_panel"
proof -
  have "dec_str 3 = ''3''" by code_simp
  with user_routes [of "sample_req\<lparr>hr_Path := ''/api/users/3'', hr_Method := ''DELETE''\<rparr>" sample_panel 3 "[]"]
  show ?thesis by (simp add: sample_req_def request_token_def zero_Config_def)
qed

text \<open>
  After a reset the next statistics report every byte ever transferred as the traffic
  of the last interval: the reset clears the previous totals while the totals themselves
  are the cumulative counters, which it leaves.
\<close>

theorem reset_inflates_speed:
  assumes "hr_Method r = ''POST''" and "hr_Method q = ''GET''" and "pn_lastSpeedAt pn \<noteq> None" and "0 < sint (pe_elapsed e)"
  shows "\<exists>sr. snd (handleStats e q (fst (handleReset r pn))) = (200, StatsBody sr)
    \<and> sr_total_out sr = fst (stats_sums (pn_server pn)) \<and> sr_tx_speed sr = int64_div (fst (stats_sums (pn_server pn))) (pe_elapsed e)
    \<and> sr_total_in sr = snd (stats_sums (pn_server pn)) \<and> sr_rx_speed sr = int64_div (snd (stats_sums (pn_server pn))) (pe_elapsed e)"
  using assms
  by (simp add: handleStats_def handleReset_def Let_def stats_sums_def comp_def case_prod_unfold)

theorem reset_inflates_speed_witness:
  "\<exists>sr. snd (handleStats sample_env (sample_req\<lparr>hr_Method := ''GET''\<rparr>)
        (fst (handleReset sample_req (sample_panel\<lparr>pn_lastSpeedAt := Some 0\<rparr>)))) = (200, StatsBody sr)"
  using reset_inflates_speed [of sample_req "sample_req\<lparr>hr_Method := ''GET''\<rparr>" "sample_panel\<lparr>pn_lastSpeedAt := Some 0\<rparr>" sample_env]
  by (auto simp: sample_req_def sample_env_def)

end
