(* ===== verification/Server.thy ===== *)
theory Server
  imports Downlink WebPanel
begin

text \<open>
  The server as a whole: the events its goroutines react to (datagrams, WebSocket
  messages, XHTTP requests, packets from the TUN device, the filter's tickers, panel
  requests), runs of such events, the invariant of reachable states, and what the packet
  handlers guarantee along a run.
\<close>

section \<open>Events and runs\<close>

datatype event =
    UdpDatagram udp_addr bytes
  | WsMessage ws_reader bytes
  | XhttpRequest string "bytes option"
  | TunPacket bytes
  | BloomTick bloom_ticker
  | PanelRequest panel_env http_req

definition main_loop :: "crypto \<Rightarrow> env \<Rightarrow> IncomingPacket option \<Rightarrow> server \<Rightarrow> server \<times> effect list \<times> ending" where
  "main_loop C e pkt s = (case pkt of None \<Rightarrow> (s, [], Returned) | Some p \<Rightarrow> processPacket C e p s)"

fun server_handle :: "crypto \<Rightarrow> env \<Rightarrow> event \<Rightarrow> server \<Rightarrow> server \<times> effect list \<times> ending" where
  "server_handle C e (UdpDatagram addr buf) s = main_loop C e (udp_reader (s_routingSalt s) addr buf) s"
| "server_handle C e (WsMessage w msg) s = main_loop C e (snd (ws_reader_step (s_routingSalt s) msg w)) s"
| "server_handle C e (XhttpRequest meth body) s = xhttp_handler C e meth body s"
| "server_handle C e (TunPacket packet) s = tun_reader_step C e packet s"
| "server_handle C e (BloomTick t) s = (bloom_tick t s, [], Returned)"
| "server_handle C e (PanelRequest pe r) s = (s, [], Returned)"

definition server_event :: "crypto \<Rightarrow> env \<Rightarrow> event \<Rightarrow> panel \<Rightarrow> panel \<times> effect list \<times> ending" where
  "server_event C e ev pn =
     (case ev of
        PanelRequest pe r \<Rightarrow> (fst (panel_mux C pe r pn), [], Returned)
      | _ \<Rightarrow> let (s', eff, ending) = server_handle C e ev (pn_server pn) in (pn\<lparr>pn_server := s'\<rparr>, eff, ending))"

text \<open>A panic in the main loop ends the process and a blocked main loop handles nothing more;
  the HTTP server and the TUN reader's own recover confine a panic there.\<close>

fun fatal :: "event \<Rightarrow> ending \<Rightarrow> bool" where
  "fatal (UdpDatagram _ _) en = (en \<noteq> Returned)"
| "fatal (WsMessage _ _) en = (en \<noteq> Returned)"
| "fatal _ en = False"

inductive server_run :: "crypto \<Rightarrow> panel \<Rightarrow> (env \<times> event) list \<Rightarrow> effect list \<Rightarrow> panel \<Rightarrow> bool" for C where
  run_nil: "server_run C pn [] [] pn"
| run_step: "server_event C e ev pn = (pn1, eff, en) \<Longrightarrow> \<not> fatal ev en \<Longrightarrow> server_run C pn1 evs effs pn2 \<Longrightarrow>
    server_run C pn ((e, ev) # evs) (eff @ effs) pn2"

inductive_cases server_run_ConsE: "server_run C pn ((e, ev) # evs) effs pn2"
inductive_simps server_run_Nil [simp]: "server_run C pn [] effs pn2"

section \<open>One event\<close>

lemma keeps_main_loop:
  "(\<And>p. pkt = Some p \<Longrightarrow> \<not> in_IsQUIC p) \<Longrightarrow> keeps s (fst (main_loop C e pkt s))"
  by (auto simp: main_loop_def split: option.split intro: keeps_processPacket)

lemma udp_reader_not_QUIC: "udp_reader salt a buf = Some p \<Longrightarrow> \<not> in_IsQUIC p"
  by (auto simp: udp_reader_def split: if_splits)

lemma ws_reader_not_QUIC: "snd (ws_reader_step salt m w) = Some p \<Longrightarrow> \<not> in_IsQUIC p"
  by (auto simp: ws_reader_step_def Let_def split: if_splits)

lemma keeps_server_handle: "(\<And>t. ev \<noteq> BloomTick t) \<Longrightarrow> keeps s (fst (server_handle C e ev s))"
  by (cases ev) (auto intro!: keeps_main_loop keeps_xhttp_handler keeps_tun_reader_step
      dest: udp_reader_not_QUIC ws_reader_not_QUIC)

text \<open>The panel leaves the filter, the salt and the encryption switch alone.\<close>

lemma add_peer_select [simp]:
  "s_bloom (add_peer p s) = s_bloom s" "s_cfg (add_peer p s) = s_cfg s"
  by (simp_all add: add_peer_def Let_def)

definition panel_frame :: "panel \<Rightarrow> panel \<Rightarrow> bool" where
  "panel_frame pn pn' \<longleftrightarrow> s_bloom (pn_server pn') = s_bloom (pn_server pn)
     \<and> cfg_NoEncrypt (s_cfg (pn_server pn')) = cfg_NoEncrypt (s_cfg (pn_server pn))"

lemma panel_frame_refl [simp]: "panel_frame pn pn"
  by (simp add: panel_frame_def)

lemma panel_frame_createUser: "panel_frame pn (fst (createUser C pe r pn))"
  by (auto simp: createUser_def Let_def panel_frame_def split: option.split)

lemma panel_frame_deleteUser: "panel_frame pn (fst (deleteUser pe k pn))"
  by (auto simp: deleteUser_def Let_def panel_frame_def split: option.split)

lemma panel_frame_plain:
  "panel_frame pn (fst (handleStats pe r pn))" "panel_frame pn (fst (handleReset r pn))"
  by (simp_all add: handleStats_def handleReset_def Let_def panel_frame_def)

lemma panel_frame_mux: "panel_frame pn (fst (panel_mux C pe r pn))"
  by (auto simp: panel_mux_def withAuth_def handleUsersRoute_def handleUserRoute_def Let_def
      panel_frame_createUser panel_frame_deleteUser panel_frame_plain split: prod.split option.split)

lemma panel_mux_select:
  "s_bloom (pn_server (fst (panel_mux C pe r pn))) = s_bloom (pn_server pn)"
  "cfg_NoEncrypt (s_cfg (pn_server (fst (panel_mux C pe r pn)))) = cfg_NoEncrypt (s_cfg (pn_server pn))"
  using panel_frame_mux by (simp_all add: panel_frame_def)

lemma server_inv_event:
  assumes "server_inv (pn_server pn)" and "server_event C e ev pn = (pn', eff, en)"
  shows "server_inv (pn_server pn')"
proof (cases ev)
  case (BloomTick t)
  with assms server_inv_bloom_tick show ?thesis by (auto simp: server_event_def)
next
  case (PanelRequest pe r)
  with assms server_inv_panel_mux show ?thesis by (auto simp: server_event_def)
qed (use assms keeps_server_inv [OF keeps_server_handle [of ev "pn_server pn" C e]] in
    \<open>auto simp: server_event_def split: prod.splits\<close>)

lemma server_inv_run:
  "server_run C pn evs effs pn' \<Longrightarrow> server_inv (pn_server pn) \<Longrightarrow> server_inv (pn_server pn')"
  by (induction rule: server_run.induct) (auto dest: server_inv_event)

text \<open>What the filter has seen stays seen while it is not reset.\<close>

lemma event_keeps_seen:
  assumes "server_event C e ev pn = (pn', eff, en)" and "\<And>t. ev \<noteq> BloomTick t"
    and "length (s_bloom (pn_server pn)) = 8192" and "\<not> bloomCheck (s_bloom (pn_server pn)) k"
  shows "\<not> bloomCheck (s_bloom (pn_server pn')) k"
    and "cfg_NoEncrypt (s_cfg (pn_server pn')) = cfg_NoEncrypt (s_cfg (pn_server pn))"
proof -
  have "\<not> bloomCheck (s_bloom (pn_server pn')) k
    \<and> cfg_NoEncrypt (s_cfg (pn_server pn')) = cfg_NoEncrypt (s_cfg (pn_server pn))"
  proof (cases "\<exists>pe r. ev = PanelRequest pe r")
    case True
    then obtain pe r where "ev = PanelRequest pe r" by blast
    with assms panel_mux_select [of C pe r pn] show ?thesis by (auto simp: server_event_def)
  next
    case False
    with assms(1) have "pn_server pn' = fst (server_handle C e ev (pn_server pn))"
      by (cases ev) (auto simp: server_event_def split: prod.splits)
    with keeps_server_handle [OF assms(2), of "pn_server pn" C e] assms(3,4) show ?thesis
      by (simp add: keeps_def)
  qed
  then show "\<not> bloomCheck (s_bloom (pn_server pn')) k"
    and "cfg_NoEncrypt (s_cfg (pn_server pn')) = cfg_NoEncrypt (s_cfg (pn_server pn))" by simp_all
qed

lemma run_keeps_seen:
  assumes "server_run C pn evs effs pn'" and "\<And>e t. (e, BloomTick t) \<notin> set evs"
    and "server_inv (pn_server pn)" and "\<not> bloomCheck (s_bloom (pn_server pn)) k"
  shows "\<not> bloomCheck (s_bloom (pn_server pn')) k
    \<and> cfg_NoEncrypt (s_cfg (pn_server pn')) = cfg_NoEncrypt (s_cfg (pn_server pn))"
  using assms
proof (induction rule: server_run.induct)
  case (run_step e ev pn pn1 eff en evs effs pn2)
  have ev: "ev \<noteq> BloomTick t" for t using run_step.prems(1) by (metis list.set_intros(1))
  have rest: "(e, BloomTick t) \<notin> set evs" for e t using run_step.prems(1) by auto
  note len = server_invD(1) [OF run_step.prems(2)]
  from run_step.IH [OF rest server_inv_event [OF run_step.prems(2) run_step.hyps(1)]]
    event_keeps_seen [OF run_step.hyps(1) ev len run_step.prems(3)]
  show ?case by simp
qed simp

section \<open>One packet\<close>

definition silent :: "effect list \<Rightarrow> bool" where
  "silent eff \<longleftrightarrow> list_all (\<lambda>x. case x of DropReport _ _ _ _ _ \<Rightarrow> True | _ \<Rightarrow> False) eff"

lemma silent_logDrops [simp]: "silent (snd (logDrops e s))"
  by (simp add: logDrops_def silent_def Let_def)

lemma silent_Nil [simp]: "silent []"
  by (simp add: silent_def)

lemma silent_drops [simp]:
  "silent (snd (drop_noPeer e s))" "silent (snd (drop_replay e s))" "silent (snd (drop_failed e m s))"
  by (simp_all add: drop_noPeer_def drop_replay_def drop_failed_def)

lemma silent_dropped:
  "drop_noPeer e s = (s', eff) \<Longrightarrow> silent eff" "drop_replay e s = (s', eff) \<Longrightarrow> silent eff"
  "drop_failed e m s = (s', eff) \<Longrightarrow> silent eff"
  using silent_drops by (metis snd_conv)+

definition replay_key :: "IncomingPacket \<Rightarrow> bytes" where
  "replay_key pkt = bloomKey (in_ShortID pkt) (slice_of (in_Data pkt) 6 18)"

text \<open>A packet of the standard format that the filter applies to.\<close>

definition filtered :: "server \<Rightarrow> IncomingPacket \<Rightarrow> bool" where
  "filtered s pkt \<longleftrightarrow> \<not> in_IsQUIC pkt \<and> 18 \<le> length (in_Data pkt) \<and> \<not> cfg_NoEncrypt (s_cfg s)"

lemma replay_silent:
  assumes "filtered s pkt" and "\<not> bloomCheck (s_bloom s) (replay_key pkt)"
  shows "silent (fst (snd (processPacket C e pkt s)))"
  using assms
  by (auto simp: processPacket_def filtered_def replay_key_def Let_def split: option.split prod.split
      dest: silent_dropped)

lemma process_peer:
  assumes "filtered s pkt" and "map_of (s_peers s) (in_ShortID pkt) = Some r" and "\<not> p_cpLocked (s_store s r)"
    and "bloomCheck (s_bloom s) (replay_key pkt)"
  shows "processPacket C e pkt s =
    (let s1 = upd_peer r (set_writer (in_Writer pkt)) s
     in case peer_decrypt C False (s_store s r) (in_Data pkt) of
          Panic \<Rightarrow> (lock_peer r (upd_peer r (\<lambda>p. p\<lparr>p_CP := map_option (with_mode False) (p_CP p)\<rparr>) s1), [], Panicked)
        | Err msg \<Rightarrow> let (s', eff) = drop_failed e msg s1 in (s', eff, Returned)
        | Ok decrypted \<Rightarrow> accept_packet C e False r (Some (replay_key pkt)) decrypted s1)"
proof -
  have w: "p_CP (set_writer w p) = p_CP p" "p_cpLocked (set_writer w p) = p_cpLocked p" for w p
    by (auto simp: set_writer_def split: option.split PacketWriter.split)
  have "peer_decrypt C False (set_writer w p) d = peer_decrypt C False p d" for w p d
    by (simp add: peer_decrypt_def w)
  with assms show ?thesis
    by (auto simp: processPacket_def filtered_def replay_key_def Let_def w split: outcome.split)
qed

lemma accept_marks:
  assumes "length (s_bloom s) = 8192"
  shows "\<not> bloomCheck (s_bloom (fst (accept_packet C e q r (Some k) d s))) k"
proof -
  let ?s1 = "s\<lparr>s_bloom := bloomSet (s_bloom s) k, s_bloomCount := s_bloomCount s + 1\<rparr>"
  let ?s2 = "upd_peer r (\<lambda>p. p\<lparr>p_LastSeen := e_unix e\<rparr>) ?s1"
  have seen: "\<not> bloomCheck (s_bloom ?s2) k" "length (s_bloom ?s2) = 8192"
    using assms bloom.add_seen by simp_all
  with keeps_seen [OF keeps_keep_alive_echo seen(2,1)] show ?thesis
    by (simp add: accept_packet_def Let_def)
qed

text \<open>A delivery marks the key.\<close>

lemma delivery_marks:
  assumes "length (s_bloom s) = 8192" and "filtered s pkt" and "processPacket C e pkt s = (s', eff, en)" and "\<not> silent eff"
  shows "\<not> bloomCheck (s_bloom s') (replay_key pkt)"
proof -
  have fresh: "bloomCheck (s_bloom s) (replay_key pkt)"
    using replay_silent [OF assms(2), of C e] assms(3,4) by auto
  obtain r where r: "map_of (s_peers s) (in_ShortID pkt) = Some r"
    using assms(3,4) silent_dropped(1)
    by (cases "map_of (s_peers s) (in_ShortID pkt)") (auto simp: processPacket_def split: prod.splits)
  have unlocked: "\<not> p_cpLocked (s_store s r)"
  proof
    assume "p_cpLocked (s_store s r)"
    then have "p_cpLocked (set_writer w (s_store s r))" for w
      by (simp add: set_writer_def split: option.split PacketWriter.split)
    with assms(3,4) r show False by (simp add: processPacket_def Let_def)
  qed
  from process_peer [OF assms(2) r unlocked fresh, of C e] assms(3,4) obtain d where
    "(s', eff, en) = accept_packet C e False r (Some (replay_key pkt)) d (upd_peer r (set_writer (in_Writer pkt)) s)"
    by (auto simp: Let_def split: outcome.splits prod.splits dest: silent_dropped)
  with accept_marks [of "upd_peer r (set_writer (in_Writer pkt)) s" C e False r "replay_key pkt" d] assms(1)
  show ?thesis by (metis fst_conv upd_peer_select(4))
qed

section \<open>Genuine packets\<close>

text \<open>A packet that the peer's client sent: the client's context shares the peer's keys.\<close>

definition genuine :: "crypto \<Rightarrow> server \<Rightarrow> IncomingPacket \<Rightarrow> bytes \<Rightarrow> nat \<Rightarrow> bytes \<Rightarrow> bytes \<Rightarrow> bool" where
  "genuine C s pkt pt r key k \<longleftrightarrow>
     map_of (s_peers s) (in_ShortID pkt) = Some r \<and> \<not> in_IsQUIC pkt \<and> \<not> cfg_NoEncrypt (s_cfg s)
     \<and> (\<exists>cp. p_CP (s_store s r) = Some cp \<and> std_ctx cp key k)
     \<and> (\<exists>cl padBuf g. std_ctx cl key k
          \<and> fst (Encrypt C padBuf cl g pt (in_ShortID pkt) (s_routingSalt s)) = Ok (in_Data pkt))"

context crypto_laws
begin

lemma genuine_facts:
  assumes "genuine C s pkt pt r key k"
  shows "filtered s pkt" and "peer_decrypt C False (s_store s r) (in_Data pkt) = Ok pt"
    and "packet_shortID (s_routingSalt s) (in_Data pkt) = in_ShortID pkt"
proof -
  from assms obtain cp cl padBuf g where g: "p_CP (s_store s r) = Some cp" "std_ctx cp key k" "std_ctx cl key k"
      "fst (Encrypt C padBuf cl g pt (in_ShortID pkt) (s_routingSalt s)) = Ok (in_Data pkt)"
    by (auto simp: genuine_def)
  note shape = std_packet_shape [OF g(3,4)]
  show "filtered s pkt" using assms shape(2) by (simp add: filtered_def genuine_def)
  show "peer_decrypt C False (s_store s r) (in_Data pkt) = Ok pt"
    using g(1) shape(4) [OF g(2)] by (simp add: peer_decrypt_def with_mode_def)
  show "packet_shortID (s_routingSalt s) (in_Data pkt) = in_ShortID pkt" by (rule shape(1))
qed

lemma deliver_genuine:
  assumes "genuine C s pkt pt r key k" and "\<not> p_cpLocked (s_store s r)" and "bloomCheck (s_bloom s) (replay_key pkt)"
  shows "processPacket C e pkt s =
    accept_packet C e False r (Some (replay_key pkt)) pt (upd_peer r (set_writer (in_Writer pkt)) s)"
proof -
  have "map_of (s_peers s) (in_ShortID pkt) = Some r" using assms(1) by (simp add: genuine_def)
  from process_peer [OF genuine_facts(1) [OF assms(1)] this assms(2,3)] genuine_facts(2) [OF assms(1)]
  show ?thesis by (simp add: Let_def)
qed

lemma truncated_fails:
  assumes "p_CP p = Some cp" and "std_ctx cp key k" and "length d \<le> 65535"
    and "\<And>pl. drop 18 d \<noteq> c_seal C k (slice_of d 6 18) pl"
  shows "\<exists>m. peer_decrypt C False p d = Err m"
proof -
  have "snd (Decrypt C cp d) \<noteq> Panic"
    by (rule decrypt_no_panic) (use assms(2,3) in \<open>simp_all add: std_ctx_def\<close>)
  moreover have "snd (Decrypt C cp d) \<noteq> Ok x" for x
    using decrypt_standard_Ok [of cp d x] assms(2,4) by (auto simp: Decrypt_def std_ctx_def)
  ultimately show ?thesis
    using assms(1) by (cases "snd (Decrypt C cp d)") (auto simp: peer_decrypt_def with_mode_def)
qed

lemma keep_alive_echoed:
  assumes "genuine C s pkt [] r key k" and "\<not> p_cpLocked (s_store s r)" and "bloomCheck (s_bloom s) (replay_key pkt)"
    and "in_Writer pkt = Some w" and "p_CP (s_store s r) = Some cp" and "cp_PadMax cp \<le> 0" and "std_ctx rcv key k"
    and "server_inv s"
  shows "\<exists>s' enc. processPacket C e pkt s = (s', [WritePacket w enc (cfg_FEC (s_cfg s))], Returned)
    \<and> snd (Decrypt C rcv enc) = Ok [1] \<and> packet_shortID (s_routingSalt s) enc = in_ShortID pkt
    \<and> p_CumRx (s_store s' r) = p_CumRx (s_store s r) \<and> p_LastSeen (s_store s' r) = e_unix e"
proof -
  define s1 where "s1 = upd_peer r (\<lambda>p. p\<lparr>p_LastSeen := e_unix e\<rparr>) ((upd_peer r (set_writer (in_Writer pkt)) s)
    \<lparr>s_bloom := bloomSet (s_bloom s) (replay_key pkt), s_bloomCount := s_bloomCount s + 1\<rparr>)"
  have sel: "p_CP (set_writer w p) = p_CP p" "p_ShortID (set_writer w p) = p_ShortID p" "p_CumRx (set_writer w p) = p_CumRx p"
    "p_Writer (set_writer (Some v) p) = Some v" for w p v
    by (auto simp: set_writer_def split: option.split PacketWriter.split)
  have s1: "p_CP (s_store s1 r) = Some cp" "s_cfg s1 = s_cfg s" "s_routingSalt s1 = s_routingSalt s"
      "p_ShortID (s_store s1 r) = p_ShortID (s_store s r)" "p_Writer (s_store s1 r) = Some w"
      "p_CumRx (s_store s1 r) = p_CumRx (s_store s r)" "p_LastSeen (s_store s1 r) = e_unix e"
    using assms(4,5) by (simp_all add: s1_def sel)
  have ctx: "std_ctx cp key k" using assms(1,5) by (auto simp: genuine_def)
  have id: "p_ShortID (s_store s r) = in_ShortID pkt"
    using assms(1) server_invD(4) [OF assms(8)] by (auto simp: genuine_def)
  obtain enc cp' where enc: "peer_encrypt C e False r [1] s1 = (Ok enc, upd_peer r (\<lambda>p. p\<lparr>p_CP := Some cp'\<rparr>) s1)"
      "snd (Decrypt C rcv enc) = Ok [1]" "packet_shortID (s_routingSalt s1) enc = p_ShortID (s_store s1 r)"
    using peer_encrypt_std [OF s1(1) ctx assms(7,6), of "[1]" e] by auto
  have "processPacket C e pkt s = keep_alive_echo C e False r s1"
    unfolding deliver_genuine [OF assms(1-3)] by (simp add: accept_packet_def Let_def s1_def)
  then show ?thesis using enc id by (simp add: keep_alive_echo_def s1)
qed

lemma no_seal_of_nothing: "[] \<noteq> c_seal C k n p"
  using length_seal [of k n p] by auto

end

section \<open>Samples\<close>

lemma sample_genuine:
  assumes "length pt \<le> 65493"
  obtains d where "genuine go_crypto sample_server \<lparr>in_Data = d, in_Writer = w, in_ShortID = 3, in_IsQUIC = False\<rparr> pt 0
      (replicate 32 9) (replicate 32 9)"
proof -
  have "cp_PadMax sample_cp \<le> 0" by (simp add: sample_cp_def)
  from std.std_round_trip [OF sample_ctx sample_ctx this assms, of "\<lambda>_. 0" qglobals_init 3 "s_routingSalt sample_server"]
  obtain d where "fst (Encrypt go_crypto (\<lambda>_. 0) sample_cp qglobals_init pt 3 (s_routingSalt sample_server)) = Ok d"
    by auto
  with sample_ctx have "genuine go_crypto sample_server \<lparr>in_Data = d, in_Writer = w, in_ShortID = 3, in_IsQUIC = False\<rparr> pt 0
      (replicate 32 9) (replicate 32 9)"
    by (auto simp: genuine_def zero_Config_def)
  then show ?thesis by (rule that)
qed

section \<open>Properties\<close>

text \<open>
  C12: every state the server reaches, by any sequence of datagrams, WebSocket messages,
  XHTTP requests, device packets, filter resets and panel requests, keeps the peer tables
  consistent.
\<close>

theorem reachable_tables_consistent:
  assumes "server_run C pn evs effs pn'" and "server_inv (pn_server pn)"
  shows "server_inv (pn_server pn')"
  using assms by (rule server_inv_run)

theorem reachable_tables_consistent_witness:
  "server_inv (pn_server (fst (server_event go_crypto sample_io (BloomTick ticker) sample_panel)))"
proof -
  let ?ev = "(sample_io, BloomTick ticker)"
  obtain pn' eff en where ev: "server_event go_crypto sample_io (BloomTick ticker) sample_panel = (pn', eff, en)"
    by (cases "server_event go_crypto sample_io (BloomTick ticker) sample_panel") auto
  from run_step [OF ev _ run_nil] have "server_run go_crypto sample_panel [?ev] (eff @ []) pn'" by simp
  from reachable_tables_consistent [OF this] sample_server_inv ev show ?thesis by simp
qed

text \<open>
  A packet from the peer's client is delivered: exactly its plaintext goes to the TUN
  device, the filter remembers its nonce, the reply transport, the last-seen time and the
  byte counters of that peer are updated, and no other peer is touched.
\<close>

theorem genuine_packet_delivered:
  assumes "genuine go_crypto s pkt pt r key k" and "\<not> p_cpLocked (s_store s r)" and "bloomCheck (s_bloom s) (replay_key pkt)"
    and "pt \<noteq> []" and "e_tunOK e pt" and "length (s_bloom s) = 8192"
  shows "\<exists>s'. processPacket go_crypto e pkt s = (s', [TunWrite pt], Returned)
    \<and> \<not> bloomCheck (s_bloom s') (replay_key pkt) \<and> s_bloomCount s' = s_bloomCount s + 1
    \<and> s_store s' r = (set_writer (in_Writer pkt) (s_store s r))\<lparr>p_LastSeen := e_unix e,
         p_ByteIn := p_ByteIn (s_store s r) + of_nat (length pt), p_CumRx := p_CumRx (s_store s r) + of_nat (length pt)\<rparr>
    \<and> (\<forall>q. q \<noteq> r \<longrightarrow> s_store s' q = s_store s q)"
proof -
  have sel: "p_ByteIn (set_writer w p) = p_ByteIn p" "p_CumRx (set_writer w p) = p_CumRx p" for w p
    by (auto simp: set_writer_def split: option.split PacketWriter.split)
  show ?thesis
    unfolding std.deliver_genuine [OF assms(1-3)]
    using assms(4-6) bloom.add_seen [of "s_bloom s" "replay_key pkt"]
    by (simp add: accept_packet_def Let_def count_in_def sel)
qed

theorem genuine_packet_delivered_witness:
  "\<exists>d s'. processPacket go_crypto sample_io \<lparr>in_Data = d, in_Writer = None, in_ShortID = 3, in_IsQUIC = False\<rparr> sample_server
    = (s', [TunWrite [72, 105]], Returned)"
proof -
  obtain d where "genuine go_crypto sample_server \<lparr>in_Data = d, in_Writer = None, in_ShortID = 3, in_IsQUIC = False\<rparr>
      [72, 105] 0 (replicate 32 9) (replicate 32 9)"
    using sample_genuine [of "[72, 105]" None] by auto
  from genuine_packet_delivered [OF this, of sample_io] show ?thesis
    by (auto simp: bloom.fresh_empty bloom.invar_empty sample_io_def [THEN arg_cong [where f = e_tunOK]])
qed

lemma bloom_key_xhttp:
  "packet_shortID salt (in_Data pkt) = in_ShortID pkt \<Longrightarrow>
    bloomKey (packet_shortID salt (in_Data pkt)) (slice_of (in_Data pkt) 6 18) = replay_key pkt"
  by (simp add: replay_key_def)

lemma xhttp_replay:
  assumes "filtered s pkt" and "\<not> bloomCheck (s_bloom s) (replay_key pkt)"
    and "packet_shortID (s_routingSalt s) (in_Data pkt) = in_ShortID pkt"
  shows "xhttpProcessPacket C e (in_Data pkt) s = (s, [], [], Returned)"
  using assms by (simp add: xhttpProcessPacket_def filtered_def replay_key_def Let_def split: option.split)

text \<open>
  The first visible effect of a packet: a TUN write or an echo on the reply transport by the
  main loop, a TUN write or an echo in the response by the XHTTP handler. The rest of a batch
  that the handler still goes through is part of the same request.
\<close>

inductive first_effect :: "crypto \<Rightarrow> IncomingPacket \<Rightarrow> server \<Rightarrow> server \<Rightarrow> bool" for C pkt where
  by_main_loop: "processPacket C e pkt s = (s1, eff, Returned) \<Longrightarrow> \<not> silent eff \<Longrightarrow> first_effect C pkt s s1"
| by_xhttp: "xhttpProcessPacket C e (in_Data pkt) s = (s1, eff, resp, en) \<Longrightarrow> \<not> silent eff \<or> resp \<noteq> [] \<Longrightarrow>
    packet_shortID (s_routingSalt s) (in_Data pkt) = in_ShortID pkt \<Longrightarrow> first_effect C pkt s s1"
| rest_of_batch: "first_effect C pkt s s1 \<Longrightarrow> xhttp_batch C e body count i off s1 = (s2, eff, resp, en) \<Longrightarrow>
    first_effect C pkt s s2"

lemma xhttp_marks:
  assumes "length (s_bloom s) = 8192" and "filtered s pkt"
    and "packet_shortID (s_routingSalt s) (in_Data pkt) = in_ShortID pkt"
    and "xhttpProcessPacket C e (in_Data pkt) s = (s', eff, resp, en)" and "\<not> silent eff \<or> resp \<noteq> []"
  shows "\<not> bloomCheck (s_bloom s') (replay_key pkt)"
proof -
  let ?s1 = "s\<lparr>s_bloom := bloomSet (s_bloom s) (replay_key pkt), s_bloomCount := s_bloomCount s + 1\<rparr>"
  have fresh: "bloomCheck (s_bloom s) (replay_key pkt)"
  proof (rule ccontr)
    assume "\<not> bloomCheck (s_bloom s) (replay_key pkt)"
    from xhttp_replay [OF assms(2) this assms(3), of C e] assms(4,5) show False by simp
  qed
  obtain r where "map_of (s_peers s) (in_ShortID pkt) = Some r"
    using assms(2-5) by (cases "map_of (s_peers s) (in_ShortID pkt)") (auto simp: xhttpProcessPacket_def filtered_def)
  with assms(2-4) fresh have d: "xhttp_deliver C e r (in_Data pkt) ?s1 = (s', eff, resp, en)"
    by (simp add: xhttpProcessPacket_def filtered_def replay_key_def Let_def del: map_of_eq_Some_iff)
  have "\<not> bloomCheck (s_bloom ?s1) (replay_key pkt)" "length (s_bloom ?s1) = 8192"
    using assms(1) bloom.add_seen by simp_all
  with keeps_seen [OF keeps_xhttp_deliver this(2,1)] d show ?thesis by (metis fst_conv)
qed

lemma first_effect_marks:
  assumes "first_effect C pkt s s1" and "server_inv s" and "filtered s pkt"
  shows "keeps s s1 \<and> \<not> bloomCheck (s_bloom s1) (replay_key pkt)"
  using assms
proof (induction rule: first_effect.induct)
  case (by_main_loop e s s1 eff)
  note len = server_invD(1) [OF by_main_loop.prems(1)]
  have "keeps s (fst (processPacket C e pkt s))"
    using keeps_processPacket by_main_loop.prems(2) by (simp add: filtered_def)
  with delivery_marks [OF len by_main_loop.prems(2) by_main_loop.hyps] by_main_loop.hyps(1)
  show ?case by simp
next
  case (by_xhttp e s s1 eff resp en)
  note len = server_invD(1) [OF by_xhttp.prems(1)]
  from xhttp_marks [OF len by_xhttp.prems(2) by_xhttp.hyps(3,1,2)]
    keeps_xhttpProcessPacket [of s C e "in_Data pkt"] by_xhttp.hyps(1)
  show ?case by simp
next
  case (rest_of_batch s s1 e body count i off s2 eff resp en)
  then have k: "keeps s s1" and seen: "\<not> bloomCheck (s_bloom s1) (replay_key pkt)" by simp_all
  have b: "keeps s1 s2" using keeps_xhttp_batch [of s1 C e body count i off] rest_of_batch.hyps(2) by simp
  have "length (s_bloom s1) = 8192"
    using server_invD(1) [OF keeps_server_inv [OF k rest_of_batch.prems(1)]] .
  with keeps_seen [OF b this seen] keeps_trans [OF k b] show ?case by simp
qed

text \<open>
  C6: replay protection. Once a packet had a visible effect, a TUN write or an echo, by the
  main loop or by XHTTP (alone or anywhere in a batch), then after any further run without a
  filter reset, whatever the run does (packets, panel requests that delete and create users),
  no packet with the same short id and nonce reaches the device or gets an answer again, by
  the main loop or by XHTTP.
\<close>

theorem replay_rejected:
  assumes "server_inv (pn_server pn)" and "filtered (pn_server pn) pkt"
    and "first_effect C pkt (pn_server pn) s1"
    and "server_run C (pn\<lparr>pn_server := s1\<rparr>) evs effs pn2" and "\<And>e t. (e, BloomTick t) \<notin> set evs"
    and "replay_key pkt' = replay_key pkt" and "filtered (pn_server pn2) pkt'"
  shows "silent (fst (snd (processPacket C e' pkt' (pn_server pn2))))
    \<and> (packet_shortID (s_routingSalt (pn_server pn2)) (in_Data pkt') = in_ShortID pkt' \<longrightarrow>
         xhttpProcessPacket C e' (in_Data pkt') (pn_server pn2) = (pn_server pn2, [], [], Returned))"
proof -
  note m = first_effect_marks [OF assms(3,1,2)]
  have inv: "server_inv (pn_server (pn\<lparr>pn_server := s1\<rparr>))"
    using keeps_server_inv [OF conjunct1 [OF m] assms(1)] by simp
  have "\<not> bloomCheck (s_bloom (pn_server (pn\<lparr>pn_server := s1\<rparr>))) (replay_key pkt)" using m by simp
  from run_keeps_seen [OF assms(4,5) inv this]
  have "\<not> bloomCheck (s_bloom (pn_server pn2)) (replay_key pkt')" by (simp add: assms(6))
  with replay_silent [OF assms(7)] xhttp_replay [OF assms(7)] show ?thesis by blast
qed

text \<open>Either path delivers a genuine packet to the fresh server; afterwards the other drops it.\<close>

lemma sample_delivered:
  assumes "genuine go_crypto sample_server pkt [72, 105] 0 key k" and "in_Writer pkt = None"
  obtains s1 sx where "processPacket go_crypto sample_io pkt sample_server = (s1, [TunWrite [72, 105]], Returned)"
    and "xhttpProcessPacket go_crypto sample_io (in_Data pkt) sample_server = (sx, [TunWrite [72, 105]], [], Returned)"
    and "filtered s1 pkt" and "filtered sx pkt" and "packet_shortID (s_routingSalt s1) (in_Data pkt) = in_ShortID pkt"
proof -
  note f = std.genuine_facts [OF assms(1)]
  have r: "map_of (s_peers sample_server) (in_ShortID pkt) = Some 0" using assms(1) by (simp add: genuine_def)
  have q: "\<not> in_IsQUIC pkt" using f(1) by (simp add: filtered_def)
  have "processPacket go_crypto sample_io pkt sample_server =
      accept_packet go_crypto sample_io False 0 (Some (replay_key pkt)) [72, 105] (upd_peer 0 (set_writer None) sample_server)"
    using std.deliver_genuine [OF assms(1)] assms(2) by (simp add: bloom.fresh_empty)
  then obtain s1 where s1: "processPacket go_crypto sample_io pkt sample_server = (s1, [TunWrite [72, 105]], Returned)"
    by (simp add: accept_packet_def Let_def sample_io_def)
  obtain sx where sx: "xhttpProcessPacket go_crypto sample_io (in_Data pkt) sample_server = (sx, [TunWrite [72, 105]], [], Returned)"
    using r f by (simp add: xhttpProcessPacket_def filtered_def replay_key_def Let_def xhttp_deliver_def bloom.fresh_empty
        sample_io_def del: map_of_eq_Some_iff)
  have "keeps sample_server s1" using keeps_processPacket [OF q, of sample_server go_crypto sample_io] s1 by simp
  moreover have "keeps sample_server sx"
    using keeps_xhttpProcessPacket [of sample_server go_crypto sample_io "in_Data pkt"] sx by simp
  ultimately have "filtered s1 pkt" "filtered sx pkt" "packet_shortID (s_routingSalt s1) (in_Data pkt) = in_ShortID pkt"
    using f by (simp_all add: filtered_def keeps_def)
  with s1 sx show ?thesis by (rule that)
qed

theorem replay_rejected_witness:
  "\<exists>d s1 sx. let pkt = \<lparr>in_Data = d, in_Writer = None, in_ShortID = 3, in_IsQUIC = False\<rparr>
    in processPacket go_crypto sample_io pkt sample_server = (s1, [TunWrite [72, 105]], Returned)
      \<and> xhttpProcessPacket go_crypto sample_io d s1 = (s1, [], [], Returned)
      \<and> xhttpProcessPacket go_crypto sample_io d sample_server = (sx, [TunWrite [72, 105]], [], Returned)
      \<and> silent (fst (snd (processPacket go_crypto sample_io pkt sx)))"
proof -
  obtain d where g: "genuine go_crypto sample_server \<lparr>in_Data = d, in_Writer = None, in_ShortID = 3, in_IsQUIC = False\<rparr>
      [72, 105] 0 (replicate 32 9) (replicate 32 9)" (is "genuine _ _ ?pkt _ _ _ _")
    using sample_genuine [of "[72, 105]" None] by auto
  obtain s1 sx where s: "processPacket go_crypto sample_io ?pkt sample_server = (s1, [TunWrite [72, 105]], Returned)"
      "xhttpProcessPacket go_crypto sample_io (in_Data ?pkt) sample_server = (sx, [TunWrite [72, 105]], [], Returned)"
      "filtered s1 ?pkt" "filtered sx ?pkt" "packet_shortID (s_routingSalt s1) (in_Data ?pkt) = in_ShortID ?pkt"
    by (rule sample_delivered [OF g]) simp_all
  note f = std.genuine_facts [OF g]
  have loud: "\<not> silent [TunWrite [72, 105]]" by (simp add: silent_def)
  have main: "first_effect go_crypto ?pkt (pn_server sample_panel) s1"
    using by_main_loop [OF s(1) loud] by simp
  have web: "first_effect go_crypto ?pkt (pn_server sample_panel) sx"
    using by_xhttp [OF s(2) disjI1 [OF loud] f(3)] by simp
  have inv: "server_inv (pn_server sample_panel)" and flt: "filtered (pn_server sample_panel) ?pkt"
    using sample_server_inv f(1) by simp_all
  note rr = replay_rejected [OF inv flt _ run_nil, of _ _ ?pkt sample_io]
  have "xhttpProcessPacket go_crypto sample_io d s1 = (s1, [], [], Returned)"
    using rr [OF main] s(3,5) by simp
  moreover have "silent (fst (snd (processPacket go_crypto sample_io ?pkt sx)))"
    using rr [OF web] s(4) by simp
  ultimately show ?thesis using s(1,2) by (auto simp: Let_def)
qed

text \<open>
  C28: a packet that nobody with the peer's key produced (its body is no sealed frame under
  its nonce) is dropped: nothing is written, the filter, the tables, the counters of bytes
  and the cipher state are as before. But the reply transport of the peer is already the
  sender of the forged packet, so the replies now go there.
\<close>

theorem forged_packet_dropped_but_redirects:
  assumes "filtered s pkt" and "map_of (s_peers s) (in_ShortID pkt) = Some r" and "\<not> p_cpLocked (s_store s r)"
    and "bloomCheck (s_bloom s) (replay_key pkt)" and "p_CP (s_store s r) = Some cp" and "std_ctx cp key k"
    and "length (in_Data pkt) \<le> 65535"
    and "\<And>pl. drop 18 (in_Data pkt) \<noteq> c_seal go_crypto k (slice_of (in_Data pkt) 6 18) pl"
  shows "\<exists>s' eff. processPacket go_crypto e pkt s = (s', eff, Returned) \<and> silent eff
    \<and> s_bloom s' = s_bloom s \<and> s_bloomCount s' = s_bloomCount s \<and> s_peers s' = s_peers s \<and> s_ipToPeer s' = s_ipToPeer s
    \<and> s_store s' = (s_store s)(r := set_writer (in_Writer pkt) (s_store s r))
    \<and> (\<forall>w. in_Writer pkt = Some w \<longrightarrow> p_Writer (s_store s' r) = Some w)"
proof -
  let ?s1 = "upd_peer r (set_writer (in_Writer pkt)) s"
  obtain m where "peer_decrypt go_crypto False (s_store s r) (in_Data pkt) = Err m"
    using std.truncated_fails [OF assms(5-8)] by auto
  with process_peer [OF assms(1-4), of go_crypto e]
  have P: "processPacket go_crypto e pkt s = (let (s', eff) = drop_failed e m ?s1 in (s', eff, Returned))"
    by (simp add: Let_def)
  obtain s' eff where D: "drop_failed e m ?s1 = (s', eff)" by fastforce
  have "s' = fst (drop_failed e m ?s1)" using D by simp
  then have sel: "s_bloom s' = s_bloom s" "s_bloomCount s' = s_bloomCount s" "s_peers s' = s_peers s"
      "s_ipToPeer s' = s_ipToPeer s" "s_store s' = (s_store s)(r := set_writer (in_Writer pkt) (s_store s r))"
    by (simp_all add: drop_failed_def)
  moreover have "p_Writer (set_writer (Some w) p) = Some w" for w p
    by (simp add: set_writer_def split: PacketWriter.split)
  ultimately show ?thesis using P D silent_dropped(3) [OF D] by auto
qed

theorem forged_packet_dropped_but_redirects_witness:
  "\<exists>s' eff. processPacket go_crypto sample_io
      \<lparr>in_Data = replicate 18 0, in_Writer = Some (UDPWriter ''evil:1''), in_ShortID = 3, in_IsQUIC = False\<rparr> sample_server = (s', eff, Returned)
    \<and> silent eff \<and> p_Writer (s_store s' 0) = Some (UDPWriter ''evil:1'')"
  using forged_packet_dropped_but_redirects [of sample_server
      "\<lparr>in_Data = replicate 18 0, in_Writer = Some (UDPWriter ''evil:1''), in_ShortID = 3, in_IsQUIC = False\<rparr>"
      0 sample_cp, OF _ _ _ _ _ sample_ctx, of sample_io] std.no_seal_of_nothing
  by (auto simp: filtered_def zero_Config_def bloom.fresh_empty)

lemma take_slice_of: "b \<le> n \<Longrightarrow> slice_of (take n xs) a b = slice_of xs a b"
  by (simp add: slice_of_def drop_take min_def)

text \<open>
  C29: the XHTTP handler marks a nonce before it knows whether the packet is genuine. So
  the first 18 bytes of a client's packet, which anybody on the path can read and send
  without any key, deliver nothing themselves but make the server drop the genuine packet.
\<close>

theorem xhttp_prefix_blocks_genuine_packet:
  assumes "genuine go_crypto s pkt pt r key k" and "\<not> p_cpLocked (s_store s r)" and "bloomCheck (s_bloom s) (replay_key pkt)"
    and "length (s_bloom s) = 8192"
  shows "\<exists>s'. xhttpProcessPacket go_crypto e (take 18 (in_Data pkt)) s = (s', [], [], Returned)
    \<and> silent (fst (snd (processPacket go_crypto e' pkt s')))"
proof -
  let ?d = "take 18 (in_Data pkt)"
  let ?s1 = "s\<lparr>s_bloom := bloomSet (s_bloom s) (replay_key pkt), s_bloomCount := s_bloomCount s + 1\<rparr>"
  note f = std.genuine_facts [OF assms(1)]
  from f(1) have len: "length ?d = 18" and enc: "\<not> cfg_NoEncrypt (s_cfg s)" by (simp_all add: filtered_def)
  have id: "packet_shortID (s_routingSalt s) ?d = in_ShortID pkt"
    using f(3) by (simp add: packet_shortID_def take_slice_of)
  have key: "bloomKey (in_ShortID pkt) (slice_of ?d 6 18) = replay_key pkt"
    by (simp add: replay_key_def take_slice_of)
  from assms(1) obtain cp where r: "map_of (s_peers s) (in_ShortID pkt) = Some r"
    and cp: "p_CP (s_store s r) = Some cp" "std_ctx cp key k" by (auto simp: genuine_def)
  have "drop 18 ?d \<noteq> c_seal go_crypto k (slice_of ?d 6 18) pl" for pl
    using std.no_seal_of_nothing by simp
  with std.truncated_fails [OF cp, of ?d] len
  obtain m where "peer_decrypt go_crypto False (s_store s r) ?d = Err m" by auto
  then have "xhttpProcessPacket go_crypto e ?d s = (?s1, [], [], Returned)"
    using r enc len assms(2,3) by (simp add: xhttpProcessPacket_def id key Let_def xhttp_deliver_def)
  moreover have "silent (fst (snd (processPacket go_crypto e' pkt ?s1)))"
    by (rule replay_silent) (use f(1) bloom.add_seen [OF assms(4)] in \<open>simp_all add: filtered_def\<close>)
  ultimately show ?thesis by blast
qed

theorem xhttp_prefix_blocks_genuine_packet_witness:
  "\<exists>d s'. genuine go_crypto sample_server \<lparr>in_Data = d, in_Writer = None, in_ShortID = 3, in_IsQUIC = False\<rparr> [72, 105] 0
        (replicate 32 9) (replicate 32 9)
    \<and> xhttpProcessPacket go_crypto sample_io (take 18 d) sample_server = (s', [], [], Returned)
    \<and> silent (fst (snd (processPacket go_crypto sample_io
        \<lparr>in_Data = d, in_Writer = None, in_ShortID = 3, in_IsQUIC = False\<rparr> s')))"
proof -
  obtain d where g: "genuine go_crypto sample_server \<lparr>in_Data = d, in_Writer = None, in_ShortID = 3, in_IsQUIC = False\<rparr>
      [72, 105] 0 (replicate 32 9) (replicate 32 9)"
    using sample_genuine [of "[72, 105]" None] by auto
  from xhttp_prefix_blocks_genuine_packet [OF g, of sample_io sample_io] g show ?thesis
    by (auto simp: bloom.fresh_empty bloom.invar_empty)
qed

text \<open>
  C30: a user created through the panel has no cipher context until the server restarts: the
  first packet with its short id, from anybody, panics. In the XHTTP handler the panic
  leaves the peer's lock held, and the main loop then waits forever at the next packet.
\<close>

theorem created_user_stops_the_server:
  assumes "server_inv (pn_server pn)" and "createUser C pe r pn = (pn', (201, b))" and "hr_create r = Some req"
    and "length d \<ge> 18" and "packet_shortID (s_routingSalt (pn_server pn')) d = rq_ShortID req"
    and "bloomCheck (s_bloom (pn_server pn')) (bloomKey (rq_ShortID req) (slice_of d 6 18))"
  shows "snd (snd (processPacket C e \<lparr>in_Data = d, in_Writer = w, in_ShortID = rq_ShortID req, in_IsQUIC = False\<rparr> (pn_server pn'))) = Panicked
    \<and> (\<exists>s'. xhttpProcessPacket C e d (pn_server pn') = (s', [], [], Panicked)
       \<and> (\<forall>pkt. in_ShortID pkt = rq_ShortID req \<longrightarrow> snd (snd (processPacket C e pkt s')) = Blocked))"
proof -
  let ?s = "pn_server pn'" and ?r = "s_nextRef (pn_server pn)"
  from assms(2,3) have pn': "?s = pn_server (saveConfig pe (pn\<lparr>pn_server := add_peer
      (new_peer (rq_ShortID req) (rq_Name req) (rq_SecretKey req) (c_sha C (str_bytes (rq_SecretKey req))) None (rq_IP req)) (pn_server pn)\<rparr>))"
    by (auto simp: createUser_def Let_def split: if_splits)
  have peer: "map_of (s_peers ?s) (rq_ShortID req) = Some ?r" "p_CP (s_store ?s ?r) = None" "\<not> p_cpLocked (s_store ?s ?r)"
    unfolding pn' by (simp_all add: add_peer_def new_peer_def Let_def update_conv')
  have w: "p_CP (set_writer w p) = p_CP p" "p_cpLocked (set_writer w p) = p_cpLocked p" for w p
    by (auto simp: set_writer_def split: option.split PacketWriter.split)
  have panic: "peer_decrypt C False p x = Panic" if "p_CP p = None" for p x
    using that by (simp add: peer_decrypt_def)
  have "snd (snd (processPacket C e \<lparr>in_Data = d, in_Writer = w, in_ShortID = rq_ShortID req, in_IsQUIC = False\<rparr> ?s)) = Panicked"
    using peer assms(4,6) by (simp add: processPacket_def Let_def w panic)
  moreover have deliv: "xhttp_deliver C e ?r d t = (lock_peer ?r t, [], [], Panicked)" if "s_store t = s_store ?s" for t
    using peer that by (simp add: xhttp_deliver_def panic)
  define t where "t = (if cfg_NoEncrypt (s_cfg ?s) then ?s else ?s\<lparr>s_bloom := bloomSet (s_bloom ?s)
    (bloomKey (rq_ShortID req) (slice_of d 6 18)), s_bloomCount := s_bloomCount ?s + 1\<rparr>)"
  have "xhttpProcessPacket C e d ?s = (lock_peer ?r t, [], [], Panicked)"
    using peer(1) assms(4-6) deliv by (simp add: xhttpProcessPacket_def Let_def t_def)
  moreover have "map_of (s_peers (lock_peer ?r t)) (rq_ShortID req) = Some ?r" "p_cpLocked (s_store (lock_peer ?r t) ?r)"
    using peer(1) by (simp_all add: lock_peer_def t_def)
  then have "snd (snd (processPacket C e pkt (lock_peer ?r t))) = Blocked" if "in_ShortID pkt = rq_ShortID req" for pkt
    using that by (simp add: processPacket_def Let_def w)
  ultimately show ?thesis by blast
qed

theorem created_user_stops_the_server_witness:
  "\<exists>d. snd (snd (processPacket go_crypto sample_io \<lparr>in_Data = d, in_Writer = None, in_ShortID = 5, in_IsQUIC = False\<rparr>
    (pn_server (fst (createUser go_crypto sample_env sample_req sample_panel))))) = Panicked"
proof -
  have c: "createUser go_crypto sample_env sample_req sample_panel
      = (fst (createUser go_crypto sample_env sample_req sample_panel), (201, StatusBody ''created''))"
    by (simp add: createUser_def sample_req_def)
  have "cp_PadMax sample_cp \<le> 0" by (simp add: sample_cp_def)
  with std.std_round_trip [OF sample_ctx sample_ctx, of "[]" "\<lambda>_. 0" qglobals_init 5 "s_routingSalt sample_server"]
  obtain d where d: "fst (Encrypt go_crypto (\<lambda>_. 0) sample_cp qglobals_init [] 5 (s_routingSalt sample_server)) = Ok d"
    by auto
  let ?s = "pn_server (fst (createUser go_crypto sample_env sample_req sample_panel))"
  have s: "s_routingSalt ?s = s_routingSalt sample_server" "s_bloom ?s = bloom_zero"
    by (simp_all add: createUser_def sample_req_def Let_def add_peer_def)
  from std.std_packet_shape(1,2) [OF sample_ctx d] s
  have "snd (snd (processPacket go_crypto sample_io \<lparr>in_Data = d, in_Writer = None, in_ShortID = 5, in_IsQUIC = False\<rparr> ?s)) = Panicked"
    using created_user_stops_the_server [OF _ c, of "\<lparr>rq_ShortID = 5, rq_Name = ''bob'', rq_SecretKey = ''k'', rq_IP = ''10.0.0.6''\<rparr>" d sample_io None]
      sample_server_inv by (simp add: sample_req_def bloom.fresh_empty)
  then show ?thesis by blast
qed

end
