(* ===== verification/Echo.thy ===== *)
theory Echo
  imports Prelude
begin

text \<open>
  The ring of sent pings of the client (\<^verbatim>\<open>core/vpn.go\<close>: \<^verbatim>\<open>echoPush\<close>, \<^verbatim>\<open>echoAck\<close>,
  \<^verbatim>\<open>echoCalcLoss\<close>, \<^verbatim>\<open>echoReset\<close>) and its refinement: the array with its position is a
  bounded queue of the last 100 pings, oldest first.
\<close>

section \<open>The code\<close>

definition echoWindowSize :: nat where
  "echoWindowSize = 100"

text \<open>Times are nanoseconds; None is the zero time.\<close>

record echoSlot =
  sl_time :: "int option"
  sl_acked :: bool

record echo =
  echoRing :: "echoSlot list"
  echoPos :: nat

definition zero_slot :: echoSlot where
  "zero_slot = \<lparr>sl_time = None, sl_acked = False\<rparr>"

definition echoReset :: "echo \<Rightarrow> echo" where
  "echoReset e = e\<lparr>echoRing := replicate echoWindowSize zero_slot, echoPos := 0\<rparr>"

definition echoPush :: "int \<Rightarrow> echo \<Rightarrow> echo" where
  "echoPush now e =
     e\<lparr>echoRing := (echoRing e)[echoPos e := \<lparr>sl_time = Some now, sl_acked = False\<rparr>],
        echoPos := (echoPos e + 1) mod echoWindowSize\<rparr>"

text \<open>\<^verbatim>\<open>for i := echoWindowSize - 1; i >= 0; i--\<close>; the argument is \<open>i + 1\<close>.\<close>

fun echoAck_loop :: "nat \<Rightarrow> echo \<Rightarrow> echo" where
  "echoAck_loop 0 e = e"
| "echoAck_loop (Suc i) e =
     (let idx = (echoPos e + echoWindowSize - 1 - i) mod echoWindowSize;
          sl = echoRing e ! idx
      in if \<not> sl_acked sl \<and> sl_time sl \<noteq> None
         then e\<lparr>echoRing := (echoRing e)[idx := sl\<lparr>sl_acked := True\<rparr>]\<rparr>
         else echoAck_loop i e)"

definition echoAck :: "echo \<Rightarrow> echo" where
  "echoAck e = echoAck_loop echoWindowSize e"

text \<open>
  The counters \<open>total\<close> and \<open>lost\<close> of \<^verbatim>\<open>echoCalcLoss\<close>; windows of 30 and 10 seconds. The
  percentage is \<open>100 * lost / total\<close> (0 when there is no ping); the code computes it in
  floating point, here it is the exact fraction as a pair.
\<close>

fun echo_count :: "int \<Rightarrow> echoSlot list \<Rightarrow> nat \<times> nat \<Rightarrow> nat \<times> nat" where
  "echo_count now [] (tot, lost) = (tot, lost)"
| "echo_count now (sl # sls) (tot, lost) =
     (case sl_time sl of
        None \<Rightarrow> echo_count now sls (tot, lost)
      | Some t \<Rightarrow>
          if now - t > 30000000000 then echo_count now sls (tot, lost)
          else echo_count now sls (tot + 1, if \<not> sl_acked sl \<and> now - t > 10000000000 then lost + 1 else lost))"

definition echoCalcLoss :: "int \<Rightarrow> echo \<Rightarrow> nat \<times> nat" where
  "echoCalcLoss now e =
     (let (tot, lost) = echo_count now (echoRing e) (0, 0)
      in if tot = 0 then (0, 1) else (lost * 100, tot))"

section \<open>The queue\<close>

definition echo_inv :: "echo \<Rightarrow> bool" where
  "echo_inv e \<longleftrightarrow> length (echoRing e) = echoWindowSize \<and> echoPos e < echoWindowSize"

text \<open>Slots in order of age, the oldest first; unused slots left out.\<close>

definition echo_queue :: "echo \<Rightarrow> echoSlot list" where
  "echo_queue e = filter (\<lambda>sl. sl_time sl \<noteq> None) (drop (echoPos e) (echoRing e) @ take (echoPos e) (echoRing e))"

text \<open>The specification: keep the last 100, and acknowledge the oldest open one.\<close>

definition queue_push :: "echoSlot \<Rightarrow> echoSlot list \<Rightarrow> echoSlot list" where
  "queue_push sl q = (if length q < echoWindowSize then q else tl q) @ [sl]"

fun queue_ack :: "echoSlot list \<Rightarrow> echoSlot list" where
  "queue_ack [] = []"
| "queue_ack (sl # q) = (if sl_acked sl then sl # queue_ack q else sl\<lparr>sl_acked := True\<rparr> # q)"

lemma echo_inv_reset: "echo_inv (echoReset e)"
  by (simp add: echo_inv_def echoReset_def echoWindowSize_def)

lemma echo_inv_push: "echo_inv e \<Longrightarrow> echo_inv (echoPush now e)"
  by (simp add: echo_inv_def echoPush_def echoWindowSize_def)

lemma echo_inv_ack_loop: "echo_inv e \<Longrightarrow> echo_inv (echoAck_loop n e)"
  by (induction n) (auto simp: echo_inv_def Let_def)

lemma echo_inv_ack: "echo_inv e \<Longrightarrow> echo_inv (echoAck e)"
  by (simp add: echoAck_def echo_inv_ack_loop)

lemma queue_reset: "echo_queue (echoReset e) = []"
  by (simp add: echo_queue_def echoReset_def zero_slot_def)

text \<open>The ring in order of age.\<close>

definition aged :: "echo \<Rightarrow> echoSlot list" where
  "aged e = drop (echoPos e) (echoRing e) @ take (echoPos e) (echoRing e)"

lemma aged_nth:
  "echo_inv e \<Longrightarrow> k < 100 \<Longrightarrow> aged e ! k = echoRing e ! ((echoPos e + k) mod 100)"
  by (auto simp: aged_def echo_inv_def echoWindowSize_def nth_append mod_if add.commute [of k])

lemma length_aged: "echo_inv e \<Longrightarrow> length (aged e) = 100"
  by (simp add: aged_def echo_inv_def echoWindowSize_def)

lemma aged_push:
  assumes "echo_inv e"
  shows "aged (echoPush now e) = tl (aged e) @ [\<lparr>sl_time = Some now, sl_acked = False\<rparr>]"
proof -
  let ?r = "echoRing e" and ?p = "echoPos e" and ?s = "\<lparr>sl_time = Some now, sl_acked = False\<rparr>"
  from assms have l: "length ?r = 100" "?p < 100" by (simp_all add: echo_inv_def echoWindowSize_def)
  have d: "drop ?p ?r = ?r ! ?p # drop (?p + 1) ?r" using l by (simp add: Cons_nth_drop_Suc)
  show ?thesis
  proof (cases "?p = 99")
    case True
    then have "aged (echoPush now e) = take 99 ?r @ [?s]"
      using l by (simp add: aged_def echoPush_def echoWindowSize_def list_eq_iff_nth_eq nth_append nth_list_update)
    then show ?thesis using True l d by (simp add: aged_def)
  next
    case False
    with l have "(?p + 1) mod 100 = ?p + 1" by simp
    then have "aged (echoPush now e) = drop (?p + 1) ?r @ take ?p ?r @ [?s]"
      using l by (simp add: aged_def echoPush_def echoWindowSize_def take_Suc_conv_app_nth drop_update_cancel)
    then show ?thesis using d by (simp add: aged_def)
  qed
qed

text \<open>Used slots are the newest: the unused ones come first.\<close>

definition echo_filled :: "echo \<Rightarrow> bool" where
  "echo_filled e \<longleftrightarrow> (\<exists>n q. aged e = replicate n zero_slot @ q \<and> (\<forall>sl \<in> set q. sl_time sl \<noteq> None))"

lemma echo_queue_aged: "echo_queue e = filter (\<lambda>sl. sl_time sl \<noteq> None) (aged e)"
  by (simp add: echo_queue_def aged_def)

lemma queue_of_filled:
  "aged e = replicate n zero_slot @ q \<Longrightarrow> \<forall>sl \<in> set q. sl_time sl \<noteq> None \<Longrightarrow> echo_queue e = q"
  by (simp add: echo_queue_aged zero_slot_def)

lemma filled_push:
  assumes "echo_inv e" and "echo_filled e"
  shows "echo_filled (echoPush now e)"
    and "echo_queue (echoPush now e) = queue_push \<lparr>sl_time = Some now, sl_acked = False\<rparr> (echo_queue e)"
proof -
  let ?s = "\<lparr>sl_time = Some now, sl_acked = False\<rparr>"
  from assms(2) obtain n q where q: "aged e = replicate n zero_slot @ q" "\<forall>sl \<in> set q. sl_time sl \<noteq> None"
    by (auto simp: echo_filled_def)
  from length_aged [OF assms(1)] q(1) have n: "n + length q = 100" by simp
  have a: "aged (echoPush now e) = replicate (n - 1) zero_slot @ (if n = 0 then tl q else q) @ [?s]"
    unfolding aged_push [OF assms(1)] q(1) by (cases n) auto
  have t: "\<forall>sl \<in> set ((if n = 0 then tl q else q) @ [?s]). sl_time sl \<noteq> None"
    using q(2) by (cases q) auto
  from a t show "echo_filled (echoPush now e)" unfolding echo_filled_def by blast
  from queue_of_filled [OF a t] queue_of_filled [OF q] n
  show "echo_queue (echoPush now e) = queue_push ?s (echo_queue e)"
    by (auto simp: queue_push_def echoWindowSize_def)
qed

lemma aged_update:
  assumes "echo_inv e" and "k < 100"
  shows "aged (e\<lparr>echoRing := (echoRing e)[(echoPos e + k) mod 100 := x]\<rparr>) = (aged e)[k := x]"
proof (rule nth_equalityI)
  let ?e = "e\<lparr>echoRing := (echoRing e)[(echoPos e + k) mod 100 := x]\<rparr>"
  have inv: "echo_inv ?e" using assms(1) by (simp add: echo_inv_def)
  show "length (aged ?e) = length ((aged e)[k := x])" by (simp add: length_aged [OF inv] length_aged [OF assms(1)])
  fix j assume "j < length (aged ?e)"
  then have j: "j < 100" by (simp add: length_aged [OF inv])
  from assms have p: "echoPos e < 100" "length (echoRing e) = 100" by (simp_all add: echo_inv_def echoWindowSize_def)
  have "(echoPos e + k) mod 100 = (echoPos e + j) mod 100 \<longleftrightarrow> k = j"
    using j assms(2) p(1) by (auto simp: mod_if split: if_splits)
  with j p show "aged ?e ! j = (aged e)[k := x] ! j"
    by (simp add: aged_nth [OF inv j] aged_nth [OF assms(1) j] nth_list_update length_aged [OF assms(1)])
qed

fun ack_first :: "echoSlot list \<Rightarrow> echoSlot list" where
  "ack_first [] = []"
| "ack_first (sl # q) =
     (if \<not> sl_acked sl \<and> sl_time sl \<noteq> None then sl\<lparr>sl_acked := True\<rparr> # q else sl # ack_first q)"

lemma ack_first_queue:
  "filter (\<lambda>sl. sl_time sl \<noteq> None) (ack_first xs) = queue_ack (filter (\<lambda>sl. sl_time sl \<noteq> None) xs)"
  by (induction xs) auto

lemma aged_ack_loop:
  "echo_inv e \<Longrightarrow> n \<le> 100 \<Longrightarrow>
    aged (echoAck_loop n e) = take (100 - n) (aged e) @ ack_first (drop (100 - n) (aged e))"
proof (induction n)
  case 0
  then show ?case by (simp add: length_aged)
next
  case (Suc i)
  let ?k = "99 - i"
  have k: "?k < 100" "100 - Suc i = ?k" "Suc ?k = 100 - i" using Suc.prems by auto
  have idx: "(echoPos e + echoWindowSize - 1 - i) mod echoWindowSize = (echoPos e + ?k) mod 100"
    using Suc.prems by (simp add: echoWindowSize_def add.commute)
  let ?sl = "echoRing e ! ((echoPos e + ?k) mod 100)"
  have sl: "aged e ! ?k = ?sl" by (rule aged_nth [OF Suc.prems(1) k(1)])
  have d: "drop ?k (aged e) = ?sl # drop (100 - i) (aged e)"
    using Cons_nth_drop_Suc [of ?k "aged e"] k by (simp add: length_aged [OF Suc.prems(1)] sl)
  show ?case
  proof (cases "\<not> sl_acked ?sl \<and> sl_time ?sl \<noteq> None")
    case True
    then have "aged (echoAck_loop (Suc i) e) = (aged e)[?k := ?sl\<lparr>sl_acked := True\<rparr>]"
      using aged_update [OF Suc.prems(1) k(1)] by (simp add: idx [simplified] Let_def)
    also have "\<dots> = take ?k (aged e) @ ?sl\<lparr>sl_acked := True\<rparr> # drop (100 - i) (aged e)"
      using k by (simp add: upd_conv_take_nth_drop length_aged [OF Suc.prems(1)])
    finally show ?thesis using True unfolding k(2) d by simp
  next
    case False
    then have "aged (echoAck_loop (Suc i) e) = aged (echoAck_loop i e)" by (auto simp: idx [simplified] Let_def)
    also have "\<dots> = take (100 - i) (aged e) @ ack_first (drop (100 - i) (aged e))"
      using Suc by simp
    also have "take (100 - i) (aged e) = take ?k (aged e) @ [?sl]"
      using take_Suc_conv_app_nth [of ?k "aged e"] k by (simp add: length_aged [OF Suc.prems(1)] sl)
    finally show ?thesis using False unfolding k(2) d by (simp del: echoAck_loop.simps) auto
  qed
qed

lemma aged_ack: "echo_inv e \<Longrightarrow> aged (echoAck e) = ack_first (aged e)"
  by (simp add: echoAck_def aged_ack_loop echoWindowSize_def)

lemma ack_first_zero [simp]: "ack_first (replicate n zero_slot @ q) = replicate n zero_slot @ ack_first q"
  by (induction n) (simp_all add: zero_slot_def)

lemma ack_first_times: "\<forall>sl \<in> set q. sl_time sl \<noteq> None \<Longrightarrow> \<forall>sl \<in> set (ack_first q). sl_time sl \<noteq> None"
  by (induction q) auto

lemma filled_ack:
  assumes "echo_inv e" and "echo_filled e"
  shows "echo_filled (echoAck e)" and "echo_queue (echoAck e) = queue_ack (echo_queue e)"
proof -
  from assms(2) obtain n q where q: "aged e = replicate n zero_slot @ q" "\<forall>sl \<in> set q. sl_time sl \<noteq> None"
    by (auto simp: echo_filled_def)
  note ack_first_times [OF q(2)]
  with q(1) aged_ack [OF assms(1)] show "echo_filled (echoAck e)" by (auto simp: echo_filled_def)
  show "echo_queue (echoAck e) = queue_ack (echo_queue e)"
    unfolding echo_queue_aged aged_ack [OF assms(1)] by (rule ack_first_queue)
qed

lemma filled_reset: "echo_filled (echoReset e)"
  by (auto simp: echo_filled_def aged_def echoReset_def intro: exI [of _ "echoWindowSize"])

section \<open>Loss\<close>

definition ping_recent :: "int \<Rightarrow> echoSlot \<Rightarrow> bool" where
  "ping_recent now sl \<longleftrightarrow> (case sl_time sl of None \<Rightarrow> False | Some t \<Rightarrow> now - t \<le> 30000000000)"

definition ping_lost :: "int \<Rightarrow> echoSlot \<Rightarrow> bool" where
  "ping_lost now sl \<longleftrightarrow> ping_recent now sl \<and> \<not> sl_acked sl
     \<and> (case sl_time sl of None \<Rightarrow> False | Some t \<Rightarrow> now - t > 10000000000)"

lemma echo_count_filter:
  "echo_count now sls (n, l) = (n + length (filter (ping_recent now) sls), l + length (filter (ping_lost now) sls))"
  by (induction now sls "(n, l)" arbitrary: n l rule: echo_count.induct)
    (auto simp: ping_recent_def ping_lost_def split: option.split)

lemma length_filter_aged: "\<not> P zero_slot \<Longrightarrow> length (filter P (echoRing e)) = length (filter P (aged e))"
proof -
  have "length (filter P (echoRing e)) = length (filter P (take (echoPos e) (echoRing e) @ drop (echoPos e) (echoRing e)))"
    by simp
  also have "\<dots> = length (filter P (aged e))" unfolding aged_def by (simp del: append_take_drop_id)
  finally show ?thesis .
qed

lemma filter_queue:
  "(\<And>sl. P sl \<Longrightarrow> sl_time sl \<noteq> None) \<Longrightarrow> length (filter P (echoRing e)) = length (filter P (echo_queue e))"
proof -
  assume P: "\<And>sl. P sl \<Longrightarrow> sl_time sl \<noteq> None"
  have "\<not> P zero_slot" using P [of zero_slot] by (auto simp: zero_slot_def)
  then have "length (filter P (echoRing e)) = length (filter P (aged e))" by (rule length_filter_aged)
  also have "filter P (aged e) = filter P (echo_queue e)"
    using P by (auto simp: echo_queue_aged intro!: filter_cong)
  finally show ?thesis .
qed

section \<open>Properties\<close>

text \<open>
  C32: the ring of pings implements a bounded queue: reset empties it, a push appends the
  ping and drops the oldest one when 100 are held, and an answer acknowledges the oldest
  ping that is still open; the representation invariant is kept throughout.
\<close>

theorem echo_ring_refines_queue:
  assumes "echo_inv e" and "echo_filled e"
  shows "echo_queue (echoPush now e) = queue_push \<lparr>sl_time = Some now, sl_acked = False\<rparr> (echo_queue e)
    \<and> echo_queue (echoAck e) = queue_ack (echo_queue e)
    \<and> echo_queue (echoReset e) = []
    \<and> (\<forall>e' \<in> {echoPush now e, echoAck e, echoReset e}. echo_inv e' \<and> echo_filled e')"
  using filled_push [OF assms] filled_ack [OF assms] echo_inv_push [OF assms(1)] echo_inv_ack [OF assms(1)]
  by (simp add: queue_reset echo_inv_reset filled_reset)

theorem echo_ring_refines_queue_witness:
  "echo_queue (echoAck (echoPush 7 (echoPush 5 (echoReset \<lparr>echoRing = [], echoPos = 0\<rparr>))))
    = [\<lparr>sl_time = Some 5, sl_acked = True\<rparr>, \<lparr>sl_time = Some 7, sl_acked = False\<rparr>]"
proof -
  let ?e0 = "echoReset \<lparr>echoRing = [], echoPos = 0\<rparr>"
  note r0 = echo_ring_refines_queue [OF echo_inv_reset filled_reset, of 5 "\<lparr>echoRing = [], echoPos = 0\<rparr>"]
  then have i1: "echo_inv (echoPush 5 ?e0)" "echo_filled (echoPush 5 ?e0)" by auto
  note r1 = echo_ring_refines_queue [OF i1, of 7]
  then have i2: "echo_inv (echoPush 7 (echoPush 5 ?e0))" "echo_filled (echoPush 7 (echoPush 5 ?e0))" by auto
  note r2 = echo_ring_refines_queue [OF i2, of 9]
  show ?thesis using r0 r1 r2 by (simp add: queue_reset queue_push_def echoWindowSize_def)
qed

text \<open>
  The loss figure counts, among the pings of the last 30 seconds, those unanswered for
  more than 10; it never divides by zero and lies between 0 and 100 percent.
\<close>

theorem echo_loss_is_a_percentage:
  "\<exists>lost total. echoCalcLoss now e = (if total = 0 then (0, 1) else (lost * 100, total))
    \<and> total = length (filter (ping_recent now) (echo_queue e)) \<and> lost = length (filter (ping_lost now) (echo_queue e))
    \<and> lost \<le> total \<and> fst (echoCalcLoss now e) \<le> 100 * snd (echoCalcLoss now e) \<and> snd (echoCalcLoss now e) > 0"
proof -
  let ?t = "length (filter (ping_recent now) (echo_queue e))" and ?l = "length (filter (ping_lost now) (echo_queue e))"
  have "length (filter (ping_recent now) (echoRing e)) = ?t" "length (filter (ping_lost now) (echoRing e)) = ?l"
    by (rule filter_queue, auto simp: ping_lost_def ping_recent_def split: option.splits)+
  then have c: "echoCalcLoss now e = (if ?t = 0 then (0, 1) else (?l * 100, ?t))"
    by (simp add: echoCalcLoss_def echo_count_filter)
  moreover have "length (filter (ping_lost now) q) \<le> length (filter (ping_recent now) q)" for q
    by (induction q) (auto simp: ping_lost_def)
  ultimately show ?thesis by (intro exI [of _ ?l] exI [of _ ?t]) auto
qed

end
