(* ===== verification/Client.thy ===== *)
theory Client
  imports Cipher Config Echo
begin

text \<open>
  The client's engine (\<^verbatim>\<open>core/vpn.go\<close>) and what its goroutines do with one packet: the
  ping sender, the writer and reader of the Windows and Android platforms
  (\<^verbatim>\<open>core/vpn_windows.go\<close>, \<^verbatim>\<open>core/vpn_android.go\<close>), and the statistics tick. A panic in
  a goroutine ends the process.
\<close>

section \<open>State\<close>

text \<open>A connection is named by a number. \<open>v_stopOpen\<close>: \<^verbatim>\<open>stopCh\<close> exists and is not closed.
  The package variables of the QUIC encoder are kept in \<open>v_quic\<close>.\<close>

record VPN =
  v_config :: Config
  v_key :: bytes
  v_encCP :: "CipherPack option"
  v_decCP :: "CipherPack option"
  v_pingCP :: "CipherPack option"
  v_conn :: "nat option"
  v_transportType :: string
  v_running :: bool
  v_stopOpen :: bool
  v_txBytes :: "64 word"
  v_rxBytes :: "64 word"
  v_sessionTotalTx :: "64 word"
  v_sessionTotalRx :: "64 word"
  v_listener :: bool
  v_killSwitchEnabled :: bool
  v_reconnecting :: bool
  v_stopping :: bool
  v_lastAliveMs :: int
  v_lastPacketRx :: int
  v_echoRtt :: int
  v_echo :: echo
  v_quic :: qglobals

text \<open>The status callback carries status, speeds, totals, ping and the loss fraction; \<open>Go\<close> starts
  a goroutine, \<open>StopChClosed\<close> closes the channel all of them watch.\<close>

datatype client_effect =
    OnStatus string "64 word" "64 word" "64 word" "64 word" int "nat \<times> nat"
  | ConnWrite nat bytes
  | ConnClose nat
  | TunSend bytes
  | TunClose
  | Run string "string list"
  | SessionEnd
  | AdapterClose
  | Go string
  | StopChClosed

text \<open>How the step of a goroutine ends: the loop goes on, it returns, the process panics.\<close>

datatype step_end = Continue | LoopReturn | ProcPanic

definition callback :: "VPN \<Rightarrow> string \<Rightarrow> client_effect list" where
  "callback v status = (if v_listener v then [OnStatus status 0 0 0 0 0 (0, 1)] else [])"

text \<open>\<^verbatim>\<open>New\<close>: the error of \<^verbatim>\<open>NewCipherPack\<close> is dropped. The seeds are random bytes.\<close>

definition New :: "crypto \<Rightarrow> 64 word \<times> 64 word \<times> 64 word \<Rightarrow> Config \<Rightarrow> bool \<Rightarrow> VPN" where
  "New C seeds cfg listener =
     (let key = DeriveKey C (cfg_SecretKey cfg);
          cp = (\<lambda>seed. if cfg_NoEncrypt cfg then Some NewNoopCipherPack
                       else case NewCipherPack C key seed of Ok c \<Rightarrow> Some c | _ \<Rightarrow> None);
          (s1, s2, s3) = seeds
      in \<lparr>v_config = cfg, v_key = key, v_encCP = cp s1, v_decCP = cp s2, v_pingCP = cp s3,
          v_conn = None, v_transportType = [], v_running = False, v_stopOpen = False,
          v_txBytes = 0, v_rxBytes = 0, v_sessionTotalTx = 0, v_sessionTotalRx = 0,
          v_listener = listener, v_killSwitchEnabled = True, v_reconnecting = False, v_stopping = False,
          v_lastAliveMs = 0, v_lastPacketRx = 0, v_echoRtt = 0,
          v_echo = echoReset \<lparr>echoRing = [], echoPos = 0\<rparr>, v_quic = qglobals_init\<rparr>)"

text \<open>\<^verbatim>\<open>cp.Encrypt(data, v.config.ShortID, v.config.RoutingSalt)\<close>; a nil context panics.\<close>

definition client_encrypt ::
  "crypto \<Rightarrow> (nat \<Rightarrow> byte) \<Rightarrow> VPN \<Rightarrow> CipherPack option \<Rightarrow> bytes \<Rightarrow> bytes outcome \<times> CipherPack option \<times> qglobals" where
  "client_encrypt C padBuf v cp data =
     (case cp of
        None \<Rightarrow> (Panic, None, v_quic v)
      | Some c \<Rightarrow>
          let (res, c', g) = Encrypt C padBuf c (v_quic v) data (cfg_ShortID (v_config v)) (cfg_RoutingSalt (v_config v))
          in (res, Some c', g))"

section \<open>Ping\<close>

text \<open>The sending half of one round of \<^verbatim>\<open>persistentPingLoop\<close>; write errors are only logged.
  \<open>nowMs\<close>, \<open>nowNs\<close>: the clock.\<close>

definition ping_send :: "crypto \<Rightarrow> (nat \<Rightarrow> byte) \<Rightarrow> int \<Rightarrow> int \<Rightarrow> VPN \<Rightarrow> VPN \<times> client_effect list \<times> step_end" where
  "ping_send C padBuf nowMs nowNs v =
     (case v_conn v of
        None \<Rightarrow> (v, [], Continue)
      | Some conn \<Rightarrow>
          let (res, cp, g) = client_encrypt C padBuf v (v_pingCP v) [];
              v1 = v\<lparr>v_pingCP := cp, v_quic := g\<rparr>
          in case res of
               Panic \<Rightarrow> (v1, [], ProcPanic)
             | Err e \<Rightarrow> (v1, [], Continue)
             | Ok pkt \<Rightarrow>
                 (v1\<lparr>v_lastAliveMs := nowMs, v_echo := echoPush nowNs (v_echo v)\<rparr>,
                  replicate (clamp_fec (cfg_FEC (v_config v))) (ConnWrite conn pkt), Continue))"

section \<open>Writers\<close>

definition count_sent :: "nat \<Rightarrow> VPN \<Rightarrow> VPN" where
  "count_sent n v = v\<lparr>v_txBytes := v_txBytes v + of_nat n, v_sessionTotalTx := v_sessionTotalTx v + of_nat n\<rparr>"

text \<open>One packet from the Wintun session. Without a connection the encrypted packet is
  dropped, but the cipher state has advanced.\<close>

definition win_writer_step :: "crypto \<Rightarrow> (nat \<Rightarrow> byte) \<Rightarrow> bytes \<Rightarrow> VPN \<Rightarrow> VPN \<times> client_effect list \<times> step_end" where
  "win_writer_step C padBuf packet v =
     (if length packet \<ge> 20 \<and> drop_bit 4 (packet ! 0) = 4
      then let (res, cp, g) = client_encrypt C padBuf v (v_encCP v) packet;
               v1 = v\<lparr>v_encCP := cp, v_quic := g\<rparr>
           in case res of
                Panic \<Rightarrow> (v1, [], ProcPanic)
              | Err e \<Rightarrow> (v1, [], Continue)
              | Ok encrypted \<Rightarrow>
                  (case v_conn v of
                     None \<Rightarrow> (v1, [], Continue)
                   | Some conn \<Rightarrow>
                       (count_sent (length encrypted) v1,
                        replicate (clamp_fec (cfg_FEC (v_config v))) (ConnWrite conn encrypted), Continue))
      else (v, [], Continue))"

text \<open>One packet from the Android TUN file (\<open>None\<close>: the read failed). A nil connection
  panics here.\<close>

definition android_writer_step ::
  "crypto \<Rightarrow> (nat \<Rightarrow> byte) \<Rightarrow> bytes option \<Rightarrow> VPN \<Rightarrow> VPN \<times> client_effect list \<times> step_end" where
  "android_writer_step C padBuf rd v =
     (case rd of
        None \<Rightarrow> (v, [], Continue)
      | Some buf \<Rightarrow>
          if length buf < 20 then (v, [], Continue)
          else if drop_bit 4 (buf ! 0) \<noteq> 4 then (v, [], Continue)
          else let (res, cp, g) = client_encrypt C padBuf v (v_encCP v) buf;
                   v1 = v\<lparr>v_encCP := cp, v_quic := g\<rparr>
               in case res of
                    Panic \<Rightarrow> (v1, [], ProcPanic)
                  | Err e \<Rightarrow> (v1, [], Continue)
                  | Ok encrypted \<Rightarrow>
                      (case v_conn v of
                         None \<Rightarrow> (v1, [], ProcPanic)
                       | Some conn \<Rightarrow>
                           (count_sent (length encrypted) v1,
                            replicate (clamp_fec (cfg_FEC (v_config v))) (ConnWrite conn encrypted), Continue)))"

section \<open>Readers\<close>

definition count_received :: "nat \<Rightarrow> VPN \<Rightarrow> VPN" where
  "count_received n v = v\<lparr>v_rxBytes := v_rxBytes v + of_nat n, v_sessionTotalRx := v_sessionTotalRx v + of_nat n\<rparr>"

text \<open>The echo of a ping: acknowledge, and take the round-trip time if it is plausible.\<close>

definition receive_echo :: "int \<Rightarrow> VPN \<Rightarrow> VPN" where
  "receive_echo nowMs v =
     (let last_sent = v_lastAliveMs v; rtt = nowMs - last_sent
      in v\<lparr>v_echo := echoAck (v_echo v),
            v_echoRtt := (if last_sent > 0 \<and> rtt > 0 \<and> rtt < 10000 then rtt else v_echoRtt v)\<rparr>)"

definition client_decrypt :: "crypto \<Rightarrow> VPN \<Rightarrow> bytes \<Rightarrow> bytes outcome" where
  "client_decrypt C v buf = (case v_decCP v of None \<Rightarrow> Panic | Some cp \<Rightarrow> snd (Decrypt C cp buf))"

text \<open>One result of \<^verbatim>\<open>conn.Read\<close> on Windows (\<open>None\<close>: an error). \<open>session\<close>: the Wintun session
  exists; \<open>alloc\<close>: it gives a send buffer.\<close>

definition win_reader_step ::
  "crypto \<Rightarrow> int \<Rightarrow> bool \<Rightarrow> bool \<Rightarrow> bytes option \<Rightarrow> VPN \<Rightarrow> VPN \<times> client_effect list \<times> step_end" where
  "win_reader_step C nowMs session alloc rd v =
     (case rd of
        None \<Rightarrow> (v, [], if v_stopping v then LoopReturn else Continue)
      | Some buf \<Rightarrow>
          let v1 = v\<lparr>v_lastPacketRx := nowMs\<rparr>
          in if length buf < 4 + 2 + 12 then (v1, [], Continue)
             else case client_decrypt C v buf of
               Panic \<Rightarrow> (v1, [], ProcPanic)
             | Err e \<Rightarrow> (v1, [], Continue)
             | Ok decrypted \<Rightarrow>
                 if decrypted = [] then (v1, [], Continue)
                 else if decrypted = [1] then (receive_echo nowMs v1, [], Continue)
                 else if v_stopping v \<or> \<not> session then (v1, [], LoopReturn)
                 else if \<not> alloc then (v1, [], Continue)
                 else (count_received (length decrypted) v1, [TunSend decrypted], Continue))"

text \<open>The same on Android: \<open>tunFile\<close> says whether the TUN file is open; the bytes are counted
  whether or not they could be written.\<close>

definition android_reader_step ::
  "crypto \<Rightarrow> int \<Rightarrow> bool \<Rightarrow> bytes option \<Rightarrow> VPN \<Rightarrow> VPN \<times> client_effect list \<times> step_end" where
  "android_reader_step C nowMs tunFile rd v =
     (case rd of
        None \<Rightarrow> (v, [], if v_stopping v then LoopReturn else Continue)
      | Some buf \<Rightarrow>
          let v1 = v\<lparr>v_lastPacketRx := nowMs\<rparr>
          in if length buf < 4 + 2 + 12 then (v1, [], Continue)
             else case client_decrypt C v buf of
               Panic \<Rightarrow> (v1, [], ProcPanic)
             | Err e \<Rightarrow> (v1, [], Continue)
             | Ok decrypted \<Rightarrow>
                 if decrypted = [] then (v1, [], Continue)
                 else if decrypted = [1] then (receive_echo nowMs v1, [], Continue)
                 else (count_received (length decrypted) v1, if tunFile then [TunSend decrypted] else [], Continue))"

section \<open>Statistics\<close>

definition stats_callback :: "int \<Rightarrow> VPN \<Rightarrow> VPN \<times> client_effect list" where
  "stats_callback nowNs v =
     (v\<lparr>v_txBytes := 0, v_rxBytes := 0\<rparr>,
      if v_listener v
      then [OnStatus ''traffic'' (v_txBytes v) (v_rxBytes v) (v_sessionTotalTx v) (v_sessionTotalRx v)
              (v_echoRtt v) (echoCalcLoss nowNs (v_echo v))]
      else [])"

section \<open>What the steps keep\<close>

text \<open>The client and its peer share the keys.\<close>

definition client_ctx :: "VPN \<Rightarrow> bytes \<Rightarrow> bytes \<Rightarrow> bool" where
  "client_ctx v key k \<longleftrightarrow>
     (\<forall>c \<in> {v_encCP v, v_decCP v, v_pingCP v}. \<exists>cp. c = Some cp \<and> std_ctx cp key k \<and> cp_PadMax cp \<le> 0)"

lemma New_client_ctx:
  assumes "c_key_ok C (DeriveKey C (cfg_SecretKey cfg))" and "\<not> cfg_NoEncrypt cfg"
    and "length (DeriveKey C (cfg_SecretKey cfg)) = 32"
  shows "client_ctx (New C seeds cfg l) (DeriveKey C (cfg_SecretKey cfg)) (DeriveKey C (cfg_SecretKey cfg))"
  using assms
  by (cases seeds) (auto simp: client_ctx_def New_def Let_def NewCipherPack_def std_ctx_def split: prod.splits)

context crypto_laws
begin

lemma client_encrypt_std:
  assumes "std_ctx cp key k" and "std_ctx rcv key k" and "cp_PadMax cp \<le> 0" and "length pt \<le> 65493"
  shows "\<exists>pkt. client_encrypt C padBuf v (Some cp) pt = (Ok pkt, Some (cp\<lparr>cp_nonce := cp_nonce cp + 1,
      cp_prng := prng_next (prng_next (cp_prng cp))\<rparr>), v_quic v)
    \<and> snd (Decrypt C rcv pkt) = Ok pt
    \<and> fst (Encrypt C padBuf cp (v_quic v) pt (cfg_ShortID (v_config v)) (cfg_RoutingSalt (v_config v))) = Ok pkt"
  using std_round_trip [OF assms, of padBuf "v_quic v" "cfg_ShortID (v_config v)" "cfg_RoutingSalt (v_config v)"]
  by (auto simp: client_encrypt_def)

end

end
