(* ===== verification/Strings.thy ===== *)
theory Strings
  imports Prelude
begin

text \<open>
  What the code uses of Go's \<^verbatim>\<open>strings\<close> and \<^verbatim>\<open>strconv\<close> packages, on ASCII text: trimming,
  splitting into fields and at a separator, prefixes and suffixes, decimal numbers.
\<close>

section \<open>Trimming and fields\<close>

definition is_space :: "char \<Rightarrow> bool" where
  "is_space c \<longleftrightarrow> c \<in> {CHR '' '', CHR 0x09, CHR 0x0A, CHR 0x0B, CHR 0x0C, CHR 0x0D}"

definition TrimSpace :: "string \<Rightarrow> string" where
  "TrimSpace s = rev (dropWhile is_space (rev (dropWhile is_space s)))"

text \<open>\<^verbatim>\<open>strings.Fields\<close>: the maximal runs of non-spaces; \<open>w\<close> is the run being read.\<close>

fun fields_from :: "string \<Rightarrow> string \<Rightarrow> string list" where
  "fields_from w [] = (if w = [] then [] else [w])"
| "fields_from w (c # cs) =
     (if is_space c then (if w = [] then fields_from [] cs else w # fields_from [] cs)
      else fields_from (w @ [c]) cs)"

definition Fields :: "string \<Rightarrow> string list" where
  "Fields s = fields_from [] s"

section \<open>Splitting at a character\<close>

text \<open>\<^verbatim>\<open>strings.SplitN\<close> with a separator of one character; \<^verbatim>\<open>Split\<close> has no limit.\<close>

fun split_from :: "char \<Rightarrow> string \<Rightarrow> string \<Rightarrow> string list" where
  "split_from sep w [] = [w]"
| "split_from sep w (c # cs) = (if c = sep then w # split_from sep [] cs else split_from sep (w @ [c]) cs)"

definition Split :: "string \<Rightarrow> char \<Rightarrow> string list" where
  "Split s sep = split_from sep [] s"

fun splitN_from :: "char \<Rightarrow> nat \<Rightarrow> string \<Rightarrow> string \<Rightarrow> string list" where
  "splitN_from sep n w [] = [w]"
| "splitN_from sep n w (c # cs) =
     (if c = sep \<and> 1 < n then w # splitN_from sep (n - 1) [] cs else splitN_from sep n (w @ [c]) cs)"

definition SplitN :: "string \<Rightarrow> char \<Rightarrow> nat \<Rightarrow> string list" where
  "SplitN s sep n = splitN_from sep n [] s"

definition HasSuffix :: "string \<Rightarrow> string \<Rightarrow> bool" where
  "HasSuffix s suffix \<longleftrightarrow> length suffix \<le> length s \<and> drop (length s - length suffix) s = suffix"

section \<open>Numbers\<close>

definition digit_val :: "char \<Rightarrow> nat option" where
  "digit_val c = (let n = of_char c in if 48 \<le> n \<and> n \<le> 57 then Some (n - 48) else None)"

text \<open>The value \<^verbatim>\<open>strconv.ParseUint(s, 10, 64)\<close> returns, also when it returns an error: 0 for a
  wrong character, the largest number when the number is too large.\<close>

fun parse_uint :: "nat \<Rightarrow> string \<Rightarrow> 64 word" where
  "parse_uint n [] = of_nat n"
| "parse_uint n (c # cs) =
     (case digit_val c of
        None \<Rightarrow> 0
      | Some d \<Rightarrow> if n * 10 + d < 2 ^ 64 then parse_uint (n * 10 + d) cs else - 1)"

definition ParseUint64 :: "string \<Rightarrow> 64 word" where
  "ParseUint64 s = (if s = [] then 0 else parse_uint 0 s)"

section \<open>Facts\<close>

lemma split_from_not_in: "sep \<notin> set s \<Longrightarrow> split_from sep w s = [w @ s]"
  by (induction sep w s rule: split_from.induct) auto

lemma Split_single: "sep \<notin> set s \<Longrightarrow> Split s sep = [s]"
  by (simp add: Split_def split_from_not_in)

lemma TrimSpace_subset: "set (TrimSpace s) \<subseteq> set s"
proof
  fix c assume "c \<in> set (TrimSpace s)"
  then have "c \<in> set (dropWhile is_space (rev (dropWhile is_space s)))" by (simp add: TrimSpace_def)
  then have "c \<in> set (rev (dropWhile is_space s))" by (rule set_dropWhileD)
  then show "c \<in> set s" unfolding set_rev by (rule set_dropWhileD)
qed

lemma dropWhile_idem_hd: "s \<noteq> [] \<Longrightarrow> \<not> P (hd s) \<Longrightarrow> dropWhile P s = s"
  by (cases s) auto

lemma TrimSpace_trimmed:
  "s \<noteq> [] \<Longrightarrow> \<not> is_space (hd s) \<Longrightarrow> \<not> is_space (last s) \<Longrightarrow> TrimSpace s = s"
  by (simp add: TrimSpace_def dropWhile_idem_hd hd_rev)

lemma fields_from_run:
  "list_all (\<lambda>c. \<not> is_space c) s \<Longrightarrow> is_space b \<Longrightarrow> w @ s \<noteq> [] \<Longrightarrow>
    fields_from w (s @ b # rest) = (w @ s) # fields_from [] rest"
  by (induction s arbitrary: w) auto

text \<open>Fields of a line of words joined by single spaces.\<close>

fun join_words :: "string list \<Rightarrow> string" where
  "join_words [] = []"
| "join_words (w # ws) = w @ CHR '' '' # join_words ws"

lemma Fields_join_words:
  "\<forall>w \<in> set ws. w \<noteq> [] \<and> list_all (\<lambda>c. \<not> is_space c) w \<Longrightarrow> Fields (join_words ws) = ws"
proof (induction ws)
  case (Cons w ws)
  have "is_space CHR '' ''" by (simp add: is_space_def)
  with Cons show ?case by (simp add: Fields_def fields_from_run)
qed (simp add: Fields_def)

end
