(* ===== verification/Tunnel.thy ===== *)
theory Tunnel
  imports Client Strings
begin

text \<open>
  The Windows tunnel (\<^verbatim>\<open>core/vpn_windows.go\<close>): gateway detection, opening and closing the
  tunnel with the commands it runs, the route refresh, draining and reconnecting. Commands
  are effects; what the operating system answers is a record. The results of
  \<^verbatim>\<open>net.ParseIP\<close> and \<^verbatim>\<open>net.ParseCIDR\<close> on a text are part of that record.
\<close>

section \<open>Gateways\<close>

datatype ip = IPv4 bytes | IPv6 bytes

fun ip_loopback :: "ip \<Rightarrow> bool" where
  "ip_loopback (IPv4 b) = (b ! 0 = 127)"
| "ip_loopback (IPv6 b) = (b = replicate 15 0 @ [1])"

fun ip_unspecified :: "ip \<Rightarrow> bool" where
  "ip_unspecified (IPv4 b) = (b = replicate 4 0)"
| "ip_unspecified (IPv6 b) = (b = replicate 16 0)"

fun ip_private :: "ip \<Rightarrow> bool" where
  "ip_private (IPv4 b) = (b ! 0 = 10 \<or> b ! 0 = 172 \<and> b ! 1 AND 0xF0 = 16 \<or> b ! 0 = 192 \<and> b ! 1 = 168)"
| "ip_private (IPv6 b) = (b ! 0 AND 0xFE = 0xFC)"

text \<open>\<open>out\<close>: the output of the query command, None when it failed.\<close>

definition getDefaultGateway :: "(string \<Rightarrow> ip option) \<Rightarrow> string option \<Rightarrow> string" where
  "getDefaultGateway parseIP out =
     (case out of
        None \<Rightarrow> []
      | Some txt \<Rightarrow>
          let gw = TrimSpace txt
          in case parseIP gw of
               None \<Rightarrow> []
             | Some ip \<Rightarrow>
                 if \<not> ip_loopback ip \<and> \<not> ip_unspecified ip
                 then if ip_private ip \<and> (case ip of IPv4 b \<Rightarrow> b ! 0 = 10 | IPv6 _ \<Rightarrow> False) then [] else gw
                 else [])"

section \<open>Masks\<close>

text \<open>\<^verbatim>\<open>net.CIDRMask(ones, 32)\<close> and \<^verbatim>\<open>IPMask.String\<close>, which prints hexadecimal digits.\<close>

definition CIDRMask32 :: "nat \<Rightarrow> bytes option" where
  "CIDRMask32 n =
     (if n > 32 then None
      else Some (map (\<lambda>i. word_of_nat (256 - 2 ^ (8 - min 8 (n - 8 * i)))) [0..<4]))"

definition maskStr :: "nat \<Rightarrow> string" where
  "maskStr n = (case CIDRMask32 n of None \<Rightarrow> ''255.255.255.255'' | Some m \<Rightarrow> concat (map hex_byte m))"

section \<open>State and environment\<close>

record winPlatform =
  wp_session :: "nat option"
  wp_adapter :: bool
  wp_ifIndex :: string
  wp_realGateway :: string
  wp_ipSet :: bool

text \<open>
  What the outside answers: the result of \<^verbatim>\<open>transport.Dial\<close>, the output of the gateway
  query at each attempt, opening and creating the adapter, the interface index, parsed
  networks (address text and mask length), and the new session.
\<close>

record win_env =
  we_dial :: "string + nat \<times> string"
  we_gwQuery :: "nat \<Rightarrow> string option"
  we_parseIP :: "string \<Rightarrow> ip option"
  we_openAdapter :: bool
  we_createAdapter :: "string option"
  we_ifIndex :: string
  we_parseCIDR :: "string \<Rightarrow> (string \<times> nat) option"
  we_startSession :: "string + nat"

section \<open>Opening\<close>

text \<open>Up to three attempts.\<close>

fun find_gateway :: "win_env \<Rightarrow> nat \<Rightarrow> nat \<Rightarrow> string" where
  "find_gateway e 0 i = []"
| "find_gateway e (Suc n) i =
     (let gw = getDefaultGateway (we_parseIP e) (we_gwQuery e i) in if gw \<noteq> [] then gw else find_gateway e n (i + 1))"

definition ps_metric :: "string \<Rightarrow> client_effect" where
  "ps_metric index = Run ''powershell'' [''-NoProfile'', ''-Command'',
     ''Set-NetIPInterface -InterfaceIndex '' @ index @ '' -InterfaceMetric 1 -ErrorAction SilentlyContinue'']"

definition ps_alias :: "string \<Rightarrow> string \<Rightarrow> client_effect" where
  "ps_alias name metric = Run ''powershell'' [''-NoProfile'', ''-Command'',
     ''Get-NetIPInterface -InterfaceAlias '' @ [CHR 0x27] @ name @ [CHR 0x27] @
     '' -ErrorAction SilentlyContinue | Set-NetIPInterface -InterfaceMetric '' @ metric]"

definition setup_address :: "Config \<Rightarrow> string \<Rightarrow> client_effect list" where
  "setup_address cfg index =
     [Run ''netsh'' [''interface'', ''ip'', ''set'', ''address'', ''name=HastaVaquet'', ''static'', cfg_InternalIP cfg, ''255.255.255.0''],
      Run ''netsh'' [''interface'', ''ipv4'', ''set'', ''subinterface'', ''name=HastaVaquet'', ''mtu=1300''],
      Run ''netsh'' [''interface'', ''ip'', ''set'', ''dns'', ''name=HastaVaquet'', ''static'', cfg_DNS cfg],
      Run ''netsh'' [''interface'', ''ipv6'', ''add'', ''route'', ''::/0'', ''name=HastaVaquet'', cfg_InternalIP cfg, ''metric=1''],
      ps_metric index]"

fun vpn_routes :: "win_env \<Rightarrow> string \<Rightarrow> string list \<Rightarrow> client_effect list" where
  "vpn_routes e index [] = []"
| "vpn_routes e index (cidr # cidrs) =
     (case we_parseCIDR e cidr of
        None \<Rightarrow> []
      | Some (ip, n) \<Rightarrow>
          if index \<noteq> [] then
            [Run ''route'' [''delete'', ip],
             Run ''route'' [''add'', ip, ''mask'', maskStr n, ''0.0.0.0'', ''metric'', ''1'', ''if'', index]]
          else []) @ vpn_routes e index cidrs"

fun bypass_routes :: "win_env \<Rightarrow> string \<Rightarrow> string \<Rightarrow> string list \<Rightarrow> client_effect list" where
  "bypass_routes e index gw [] = []"
| "bypass_routes e index gw (cidr # cidrs) =
     (case we_parseCIDR e cidr of
        None \<Rightarrow> []
      | Some (ip, n) \<Rightarrow>
          if index \<noteq> [] then [Run ''route'' [''add'', ip, ''mask'', maskStr n, gw, ''metric'', ''5'', ''if'', index]]
          else [Run ''route'' [''add'', ip, ''mask'', maskStr n, gw, ''metric'', ''5'']]) @ bypass_routes e index gw cidrs"

definition server_route :: "Config \<Rightarrow> string \<Rightarrow> client_effect list" where
  "server_route cfg gw =
     [Run ''route'' [''delete'', cfg_ServerIP cfg],
      Run ''route'' [''add'', cfg_ServerIP cfg, ''mask'', ''255.255.255.255'', gw]]"

definition default_route :: "Config \<Rightarrow> string \<Rightarrow> client_effect list" where
  "default_route cfg index =
     (if index \<noteq> [] then [Run ''route'' [''delete'', ''0.0.0.0'', ''mask'', ''0.0.0.0'', ''0.0.0.0'', ''if'', index]] else [])
     @ [Run ''route'' [''delete'', ''0.0.0.0'', cfg_InternalIP cfg]]
     @ (if index \<noteq> [] then [Run ''route'' [''add'', ''0.0.0.0'', ''mask'', ''0.0.0.0'', ''0.0.0.0'', ''metric'', ''1'', ''if'', index]] else [])"

definition mode_routes :: "win_env \<Rightarrow> Config \<Rightarrow> string \<Rightarrow> string \<Rightarrow> client_effect list" where
  "mode_routes e cfg index gw =
     (let mode = (if cfg_BypassMode cfg = [] then ''bypass'' else cfg_BypassMode cfg)
      in if mode = ''vpn_only'' then vpn_routes e index (cfg_VPNCIDRs cfg)
         else default_route cfg index
              @ (if length (cfg_BypassCIDRs cfg) > 0 \<and> gw \<noteq> [] then bypass_routes e index gw (cfg_BypassCIDRs cfg) else []))"

text \<open>The commands between the adapter and the session.\<close>

definition win_open_cmds :: "win_env \<Rightarrow> winPlatform \<Rightarrow> Config \<Rightarrow> string \<Rightarrow> client_effect list" where
  "win_open_cmds e p cfg gw =
     (let index = we_ifIndex e
      in (if wp_ipSet p then [] else setup_address cfg index)
         @ [ps_metric index, ps_alias ''Ethernet'' ''1000'', ps_alias ''Wi-Fi'' ''1000'']
         @ server_route cfg gw @ mode_routes e cfg index gw)"

text \<open>The error text, with the UTF-8 bytes of its dash.\<close>

definition no_gateway :: string where
  "no_gateway = ''no internet connection '' @ [CHR 0xE2, CHR 0x80, CHR 0x94]
     @ '' no default gateway detected after 3 attempts''"

text \<open>
  \<^verbatim>\<open>openTunnel\<close>: the first component is the error. Failing after the dial leaves the
  connection in place; failing at the session ends an old session (the deferred close).
\<close>

definition win_openTunnel ::
  "win_env \<Rightarrow> winPlatform \<Rightarrow> VPN \<Rightarrow> string option \<times> winPlatform \<times> VPN \<times> client_effect list" where
  "win_openTunnel e p v =
     (case we_dial e of
        Inl err \<Rightarrow> (Some (''transport dial: '' @ err), p, v, [])
      | Inr (conn, transportType) \<Rightarrow>
          let v1 = v\<lparr>v_conn := Some conn, v_transportType := transportType\<rparr>;
              gw = find_gateway e 3 0;
              p1 = p\<lparr>wp_realGateway := gw\<rparr>
          in if gw = [] then
               (Some no_gateway, p1, v1, [])
             else if \<not> wp_adapter p \<and> \<not> we_openAdapter e \<and> we_createAdapter e \<noteq> None then
               (Some (''adapter: '' @ the (we_createAdapter e)), p1, v1, [])
             else let p2 = p1\<lparr>wp_adapter := True, wp_ifIndex := we_ifIndex e, wp_ipSet := True\<rparr>;
                      cmds = win_open_cmds e p (v_config v) gw
                  in case we_startSession e of
                       Inl err \<Rightarrow>
                         (Some (''session: '' @ err), p2\<lparr>wp_session := None\<rparr>, v1,
                          cmds @ (if wp_session p = None then [] else [SessionEnd]))
                     | Inr sess \<Rightarrow> (None, p2\<lparr>wp_session := Some sess\<rparr>, v1, cmds))"

section \<open>Closing\<close>

text \<open>\<open>p\<close>'s gateway, or the one detected now, gets the default route back.\<close>

definition win_closeTunnel :: "win_env \<Rightarrow> winPlatform \<Rightarrow> VPN \<Rightarrow> winPlatform \<times> VPN \<times> client_effect list" where
  "win_closeTunnel e p v =
     (let gw = (if wp_realGateway p = [] then getDefaultGateway (we_parseIP e) (we_gwQuery e 0) else wp_realGateway p)
      in (p\<lparr>wp_session := None\<rparr>, v,
          (if gw \<noteq> [] then [Run ''route'' [''add'', ''0.0.0.0'', ''mask'', ''0.0.0.0'', gw, ''metric'', ''10'']] else [])
          @ (if wp_ifIndex p \<noteq> []
             then [Run ''route'' [''delete'', ''0.0.0.0'', ''mask'', ''0.0.0.0'', ''0.0.0.0'', ''if'', wp_ifIndex p]] else [])
          @ [Run ''route'' [''delete'', ''0.0.0.0'', cfg_InternalIP (v_config v)],
             ps_alias ''Ethernet'' ([CHR 0x27] @ ''auto'' @ [CHR 0x27]), ps_alias ''Wi-Fi'' ([CHR 0x27] @ ''auto'' @ [CHR 0x27]),
             Run ''netsh'' [''interface'', ''ipv6'', ''delete'', ''route'', ''::/0'', ''name=HastaVaquet'']]
          @ (if wp_session p = None then [] else [SessionEnd])))"

definition win_destroyTunnel :: "winPlatform \<Rightarrow> winPlatform \<times> client_effect list" where
  "win_destroyTunnel p =
     (p\<lparr>wp_session := None, wp_adapter := False, wp_ipSet := False\<rparr>,
      (if wp_session p = None then [] else [SessionEnd]) @ (if wp_adapter p then [AdapterClose] else []))"

section \<open>Monitoring and reconnecting\<close>

definition refreshServerRoute :: "win_env \<Rightarrow> winPlatform \<Rightarrow> VPN \<Rightarrow> winPlatform \<times> client_effect list" where
  "refreshServerRoute e p v =
     (let newGw0 = TrimSpace (getDefaultGateway (we_parseIP e) (we_gwQuery e 0));
          current = TrimSpace (wp_realGateway p);
          newGw = (if newGw0 = [] then current else newGw0);
          ip = cfg_ServerIP (v_config v)
      in if newGw = [] then (p, [Run ''route'' [''delete'', ip]])
         else if newGw = current then (p, [])
         else (p\<lparr>wp_realGateway := newGw\<rparr>,
               [Run ''route'' [''delete'', ip],
                Run ''route'' [''add'', ip, ''mask'', ''255.255.255.255'', newGw, ''metric'', ''1'']]))"

definition gatewayIsValid :: "winPlatform \<Rightarrow> bool" where
  "gatewayIsValid p = (\<not> (wp_realGateway p = [] \<or> starts_with ''0.0'' (wp_realGateway p)))"

text \<open>\<^verbatim>\<open>reconnectSession\<close>: at most 2000 packets are read and dropped; \<open>q\<close> is the session's queue.\<close>

fun drain :: "nat \<Rightarrow> bytes list \<Rightarrow> nat \<times> bytes list" where
  "drain 0 q = (0, q)"
| "drain (Suc i) [] = (0, [])"
| "drain (Suc i) (pkt # q) = (let (n, q') = drain i q in (n + 1, q'))"

definition reconnectSession :: "winPlatform \<Rightarrow> bytes list \<Rightarrow> nat \<times> bytes list" where
  "reconnectSession p q = (if wp_session p = None then (0, q) else drain 2000 q)"

definition reconnectSocket :: "win_env \<Rightarrow> winPlatform \<Rightarrow> VPN \<Rightarrow> VPN \<times> client_effect list" where
  "reconnectSocket e p v =
     (let closing = (case v_conn v of None \<Rightarrow> [] | Some old \<Rightarrow> [ConnClose old]);
          v0 = v\<lparr>v_conn := None\<rparr>
      in case we_dial e of
           Inl err \<Rightarrow> (v0, closing)
         | Inr (newConn, transportType) \<Rightarrow>
             (v0\<lparr>v_conn := Some newConn, v_transportType := transportType\<rparr>,
              closing @ (let gw = TrimSpace (wp_realGateway p); ip = cfg_ServerIP (v_config v)
                in if gw \<noteq> [] then [Run ''route'' [''delete'', ip],
                     Run ''route'' [''add'', ip, ''mask'', ''255.255.255.255'', gw, ''metric'', ''1'']] else [])))"

section \<open>Properties of the parts\<close>

lemma getDefaultGateway_not_tunnel:
  "getDefaultGateway parse out = gw \<Longrightarrow> gw \<noteq> [] \<Longrightarrow>
    \<exists>ip. parse gw = Some ip \<and> \<not> ip_loopback ip \<and> \<not> ip_unspecified ip \<and> (\<forall>b. ip = IPv4 b \<longrightarrow> b ! 0 \<noteq> 10)"
  by (auto simp: getDefaultGateway_def Let_def split: option.splits if_splits ip.splits)

lemma find_gateway_found:
  "find_gateway e n i = gw \<Longrightarrow> gw \<noteq> [] \<Longrightarrow>
    \<exists>j. i \<le> j \<and> j < i + n \<and> getDefaultGateway (we_parseIP e) (we_gwQuery e j) = gw"
proof (induction n arbitrary: i)
  case (Suc n)
  let ?g = "getDefaultGateway (we_parseIP e) (we_gwQuery e i)"
  show ?case
  proof (cases "?g = []")
    case True
    with Suc.prems have "find_gateway e n (i + 1) = gw" by (simp add: Let_def)
    from Suc.IH [OF this Suc.prems(2)] show ?thesis by (metis Suc_eq_plus1 add_Suc_shift Suc_leD)
  next
    case False
    with Suc.prems have "?g = gw" by (simp add: Let_def)
    then show ?thesis by (intro exI [of _ i]) simp
  qed
qed simp

lemma drain_bound: "fst (drain n q) \<le> n \<and> drain n q = (min n (length q), drop n q)"
  by (induction n q rule: drain.induct) (auto split: prod.splits)

lemma hex_digit_not_dot: "n < 16 \<Longrightarrow> CHR ''.'' \<noteq> hex_digit n"
proof
  assume "n < 16" "CHR ''.'' = hex_digit n"
  have "(of_char CHR ''.'' :: nat) = 46" by simp
  then have "(of_char (hex_digit n) :: nat) = 46" by (simp only: \<open>CHR ''.'' = hex_digit n\<close>)
  with \<open>n < 16\<close> show False by (simp add: hex_digit_def split: if_splits)
qed

text \<open>The commands that add a default route: \<^verbatim>\<open>route add 0.0.0.0\<close> for IPv4 and, for IPv6,
  \<^verbatim>\<open>netsh interface ipv6 add route ::/0\<close>, and the one that deletes the latter.\<close>

fun adds_ipv4_default :: "client_effect \<Rightarrow> bool" where
  "adds_ipv4_default (Run prog args) = (prog = ''route'' \<and> take 2 args = [''add'', ''0.0.0.0''])"
| "adds_ipv4_default _ = False"

fun adds_ipv6_default :: "client_effect \<Rightarrow> bool" where
  "adds_ipv6_default (Run prog args) =
     (prog = ''netsh'' \<and> take 6 args = [''interface'', ''ipv6'', ''add'', ''route'', ''::/0'', ''name=HastaVaquet''])"
| "adds_ipv6_default _ = False"

fun deletes_ipv6_default :: "client_effect \<Rightarrow> bool" where
  "deletes_ipv6_default (Run prog args) =
     (prog = ''netsh'' \<and> take 6 args = [''interface'', ''ipv6'', ''delete'', ''route'', ''::/0'', ''name=HastaVaquet''])"
| "deletes_ipv6_default _ = False"

text \<open>No command of a list is about IPv6.\<close>

definition no_ipv6 :: "client_effect list \<Rightarrow> bool" where
  "no_ipv6 effs \<longleftrightarrow> list_all (\<lambda>x. \<not> adds_ipv6_default x \<and> \<not> deletes_ipv6_default x) effs"

lemma no_ipv6_append [simp]: "no_ipv6 (xs @ ys) \<longleftrightarrow> no_ipv6 xs \<and> no_ipv6 ys"
  and no_ipv6_Nil [simp]: "no_ipv6 []"
  and no_ipv6_Cons [simp]: "no_ipv6 (x # xs) \<longleftrightarrow> \<not> adds_ipv6_default x \<and> \<not> deletes_ipv6_default x \<and> no_ipv6 xs"
  by (simp_all add: no_ipv6_def)

lemma no_ipv6_routes:
  "no_ipv6 (server_route cfg gw)" "no_ipv6 (mode_routes e cfg ix gw)"
  "no_ipv6 [ps_metric ix, ps_alias n m, ps_alias n' m']"
proof -
  have "no_ipv6 (vpn_routes e i cs)" for i cs by (induction cs) (auto split: option.split)
  moreover have "no_ipv6 (bypass_routes e i gw cs)" for i cs by (induction cs) (auto split: option.split)
  ultimately show "no_ipv6 (mode_routes e cfg ix gw)" by (simp add: mode_routes_def default_route_def Let_def)
qed (simp_all add: server_route_def ps_metric_def ps_alias_def)

lemma no_ipv6_neither: "no_ipv6 effs \<Longrightarrow> \<not> list_ex adds_ipv6_default effs \<and> \<not> list_ex deletes_ipv6_default effs"
  by (auto simp: no_ipv6_def list_all_iff list_ex_iff)

section \<open>Properties\<close>

text \<open>
  C36: when the tunnel opens, it has a connection, a session and a gateway that is neither a
  loopback address nor in the tunnel's own 10/8 network; and the host route to the server
  through that gateway is added before any IPv4 default route into the tunnel, so the
  tunnel's own packets to an IPv4 server are never routed into it. The IPv6 default route is
  added before the server's route, and only if the adapter's addresses were not set yet.
\<close>

theorem open_tunnel_routes_server_first:
  assumes "win_openTunnel e p v = (None, p', v', effs)"
  shows "v_conn v' \<noteq> None \<and> wp_session p' \<noteq> None \<and> wp_adapter p'
    \<and> (\<exists>ip. we_parseIP e (wp_realGateway p') = Some ip \<and> \<not> ip_loopback ip \<and> (\<forall>b. ip = IPv4 b \<longrightarrow> b ! 0 \<noteq> 10))
    \<and> (\<exists>before after. effs = before @ server_route (v_config v) (wp_realGateway p') @ after
         \<and> \<not> list_ex adds_ipv4_default before
         \<and> (list_ex adds_ipv6_default before \<longleftrightarrow> \<not> wp_ipSet p) \<and> \<not> list_ex adds_ipv6_default after)"
proof -
  let ?cfg = "v_config v" and ?ix = "we_ifIndex e"
  let ?before = "(if wp_ipSet p then [] else setup_address ?cfg ?ix)
      @ [ps_metric ?ix, ps_alias ''Ethernet'' ''1000'', ps_alias ''Wi-Fi'' ''1000'']"
  from assms obtain conn t sess where d: "we_dial e = Inr (conn, t)" and s: "we_startSession e = Inr sess"
    and gw: "find_gateway e 3 0 = wp_realGateway p'" "wp_realGateway p' \<noteq> []"
    and p': "wp_session p' = Some sess" "wp_adapter p'" and v': "v_conn v' = Some conn"
    and cmds: "effs = win_open_cmds e p ?cfg (wp_realGateway p')"
    by (auto simp: win_openTunnel_def Let_def split: sum.splits if_splits)
  have effs: "effs = ?before @ server_route ?cfg (wp_realGateway p') @ mode_routes e ?cfg ?ix (wp_realGateway p')"
    by (simp add: cmds win_open_cmds_def Let_def)
  from find_gateway_found [OF gw] getDefaultGateway_not_tunnel gw(2)
  have "\<exists>ip. we_parseIP e (wp_realGateway p') = Some ip \<and> \<not> ip_loopback ip \<and> (\<forall>b. ip = IPv4 b \<longrightarrow> b ! 0 \<noteq> 10)" by blast
  moreover have "\<not> list_ex adds_ipv4_default ?before" "list_ex adds_ipv6_default ?before \<longleftrightarrow> \<not> wp_ipSet p"
    by (simp_all add: setup_address_def ps_metric_def ps_alias_def)
  moreover have "\<not> list_ex adds_ipv6_default (mode_routes e ?cfg ?ix (wp_realGateway p'))"
    using no_ipv6_neither no_ipv6_routes(2) by blast
  ultimately show ?thesis using effs p' v' by blast
qed

definition sample_win_env :: win_env where
  "sample_win_env = \<lparr>we_dial = Inr (1, ''ws''), we_gwQuery = (\<lambda>_. Some ''192.168.1.1''),
     we_parseIP = (\<lambda>s. if s = ''192.168.1.1'' then Some (IPv4 [192, 168, 1, 1]) else None), we_openAdapter = True,
     we_createAdapter = None, we_ifIndex = ''17'', we_parseCIDR = (\<lambda>_. Some (''5.45.192.0'', 24)), we_startSession = Inr 3\<rparr>"

definition init_winPlatform :: winPlatform where
  "init_winPlatform = \<lparr>wp_session = None, wp_adapter = False, wp_ifIndex = [], wp_realGateway = [], wp_ipSet = False\<rparr>"

lemma sample_gateway: "getDefaultGateway (we_parseIP sample_win_env) (we_gwQuery sample_win_env 0) = ''192.168.1.1''"
proof -
  have "[192, 168, 1, 1] \<noteq> replicate 4 (0 :: byte)"
  proof
    assume "[192, 168, 1, 1] = replicate 4 (0 :: byte)"
    then have "hd [192, 168, 1, 1] = hd (replicate 4 (0 :: byte))" by (simp only:)
    then show False by simp
  qed
  then show ?thesis by (simp add: getDefaultGateway_def sample_win_env_def TrimSpace_def is_space_def)
qed

lemma sample_opens:
  "\<exists>p' v' effs. win_openTunnel sample_win_env p v = (None, p', v', effs) \<and> wp_realGateway p' = ''192.168.1.1'' \<and> v_conn v' = Some 1
    \<and> v_running v' = v_running v"
  using sample_gateway by (simp add: win_openTunnel_def Let_def sample_win_env_def numeral_3_eq_3)

theorem open_tunnel_routes_server_first_witness:
  "\<exists>p' v' effs. win_openTunnel sample_win_env init_winPlatform (New go_crypto (1, 2, 3) zero_Config True) = (None, p', v', effs)
    \<and> wp_realGateway p' = ''192.168.1.1'' \<and> v_conn v' = Some 1
    \<and> (\<exists>before after. effs = before @ server_route zero_Config ''192.168.1.1'' @ after \<and> \<not> list_ex adds_ipv4_default before
         \<and> list_ex adds_ipv6_default before)"
proof -
  let ?v = "New go_crypto (1, 2, 3) zero_Config True"
  have cfg: "v_config ?v = zero_Config" "\<not> wp_ipSet init_winPlatform" by (simp_all add: New_def Let_def init_winPlatform_def)
  from sample_opens [of init_winPlatform ?v] obtain p' v' effs where o: "win_openTunnel sample_win_env init_winPlatform ?v = (None, p', v', effs)"
    "wp_realGateway p' = ''192.168.1.1''" "v_conn v' = Some 1" by blast
  from open_tunnel_routes_server_first [OF o(1)] o show ?thesis by (auto simp: cfg)
qed

text \<open>
  Closing the tunnel takes back the default route through the tunnel's interface,
  ends the session and keeps the adapter; closing again runs no session call, and the
  session is gone in any case.
\<close>

theorem close_tunnel_ends_session:
  "(\<exists>effs. win_closeTunnel e p v = (p\<lparr>wp_session := None\<rparr>, v, effs)
      \<and> (SessionEnd \<in> set effs \<longleftrightarrow> wp_session p \<noteq> None)
      \<and> (wp_ifIndex p \<noteq> [] \<longrightarrow> Run ''route'' [''delete'', ''0.0.0.0'', ''mask'', ''0.0.0.0'', ''0.0.0.0'', ''if'', wp_ifIndex p] \<in> set effs)
      \<and> (wp_realGateway p \<noteq> [] \<longrightarrow> Run ''route'' [''add'', ''0.0.0.0'', ''mask'', ''0.0.0.0'', wp_realGateway p, ''metric'', ''10''] \<in> set effs))"
  by (simp add: win_closeTunnel_def Let_def ps_alias_def)

text \<open>
  The masks the routes are given are not dotted quads: for every prefix length up to 32
  the text is eight hexadecimal digits, for example ffffff00 for 24.
\<close>

theorem route_masks_are_hexadecimal:
  assumes "n \<le> 32"
  shows "length (maskStr n) = 8 \<and> CHR ''.'' \<notin> set (maskStr n)"
proof -
  have "CHR ''.'' \<notin> set (hex_byte b)" for b
  proof -
    have "unat b < 256" using unsigned_less [of b] by simp
    then show ?thesis
      using hex_digit_not_dot [of "unat b div 16"] hex_digit_not_dot [of "unat b mod 16"]
      by (simp add: hex_byte_def less_mult_imp_div_less)
  qed
  moreover have "length (hex_byte b) = 2" for b by (simp add: hex_byte_def)
  ultimately show ?thesis using assms
    by (simp add: maskStr_def CIDRMask32_def numeral_eq_Suc)
qed

theorem route_masks_are_hexadecimal_witness:
  "maskStr 24 = ''ffffff00'' \<and> CHR ''.'' \<notin> set (maskStr 24)"
proof -
  have "maskStr 24 = ''ffffff00''" by code_simp
  with route_masks_are_hexadecimal [of 24] show ?thesis by simp
qed

end
