(* ===== verification/Lifecycle.thy ===== *)
theory Lifecycle
  imports Tunnel
begin

text \<open>
  The life cycle of the client (\<^verbatim>\<open>core/vpn.go\<close>): Start, Stop, Reconnect, Destroy and the
  rounds of the ping and route loops; the kill switches; the Android platform and the
  functions exported to it (\<^verbatim>\<open>core/vpn_android.go\<close>, \<^verbatim>\<open>core/gomobile.go\<close>). The platform
  hooks are an interface: the record \<open>platform_ops\<close> with the laws \<open>platform_laws\<close>, which
  both platforms satisfy.
\<close>

section \<open>The platform interface\<close>

record 'p platform_ops =
  po_open :: "'p \<Rightarrow> VPN \<Rightarrow> string option \<times> 'p \<times> VPN \<times> client_effect list"
  po_close :: "'p \<Rightarrow> VPN \<Rightarrow> 'p \<times> VPN \<times> client_effect list"
  po_destroy :: "'p \<Rightarrow> 'p \<times> client_effect list"
  po_refresh :: "'p \<Rightarrow> VPN \<Rightarrow> 'p \<times> client_effect list"
  po_activate :: "string \<Rightarrow> string \<Rightarrow> string option \<times> client_effect list"
  po_deactivate :: "string option \<times> client_effect list"

section \<open>Start, Stop, Reconnect\<close>

definition Start :: "'p platform_ops \<Rightarrow> int \<Rightarrow> 'p \<Rightarrow> VPN \<Rightarrow> string option \<times> 'p \<times> VPN \<times> client_effect list" where
  "Start ops nowMs p v =
     (if v_running v then (Some ''already running'', p, v, [])
      else let v1 = v\<lparr>v_stopOpen := True, v_lastAliveMs := nowMs, v_lastPacketRx := nowMs\<rparr>;
               (err, p', v2, effs) = po_open ops p v1
           in case err of
                Some e \<Rightarrow> (Some e, p', v2, callback v ''connecting'' @ effs)
              | None \<Rightarrow>
                  (None, p', v2\<lparr>v_running := True, v_echo := echoReset (v_echo v2)\<rparr>,
                   callback v ''connecting'' @ effs @ callback v2 ''connected''
                   @ map Go [''persistentPingLoop'', ''routeMonitorLoop'', ''platformReaderLoop'',
                             ''platformWriterLoop'', ''statsLoop'']))"

text \<open>Closing a channel that is nil or closed panics (last component).\<close>

definition Stop :: "'p platform_ops \<Rightarrow> 'p \<Rightarrow> VPN \<Rightarrow> 'p \<times> VPN \<times> client_effect list \<times> bool" where
  "Stop ops p v =
     (if \<not> v_running v then (p, v\<lparr>v_stopping := False\<rparr>, [], False)
      else if \<not> v_stopOpen v then (p, v\<lparr>v_stopping := True, v_running := False\<rparr>, [], True)
      else let v1 = v\<lparr>v_stopping := True, v_running := False, v_stopOpen := False\<rparr>;
               (p', v2, effs) = po_close ops p v1;
               ks = (if v_killSwitchEnabled v then snd (po_deactivate ops) else []);
               closing = (case v_conn v2 of None \<Rightarrow> [] | Some c \<Rightarrow> [ConnClose c])
           in (p', v2\<lparr>v_conn := None, v_stopping := False\<rparr>,
               StopChClosed # effs @ ks @ closing @ (if \<not> v_reconnecting v then callback v2 ''disconnected'' else []), False))"

definition Reconnect :: "'p platform_ops \<Rightarrow> int \<Rightarrow> 'p \<Rightarrow> VPN \<Rightarrow> string option \<times> 'p \<times> VPN \<times> client_effect list \<times> bool" where
  "Reconnect ops nowMs p v =
     (let (p1, v1, effs1, panic) = Stop ops p (v\<lparr>v_reconnecting := True\<rparr>)
      in if panic then (None, p1, v1, effs1, True)
         else let (err, p2, v2, effs2) = Start ops nowMs p1 (v1\<lparr>v_reconnecting := False\<rparr>)
              in (err, p2, v2, effs1 @ effs2, False))"

definition Destroy :: "'p platform_ops \<Rightarrow> 'p \<Rightarrow> VPN \<Rightarrow> 'p \<times> VPN \<times> client_effect list \<times> bool" where
  "Destroy ops p v =
     (let (p1, v1, effs, panic) = Stop ops p v
      in if panic then (p1, v1, effs, True)
         else let (p2, effs2) = po_destroy ops p1 in (p2, v1, effs @ effs2, False))"

definition SetKillSwitchEnabled :: "bool \<Rightarrow> VPN \<Rightarrow> VPN" where
  "SetKillSwitchEnabled enabled v = v\<lparr>v_killSwitchEnabled := enabled\<rparr>"

section \<open>Loops\<close>

text \<open>
  One round of \<^verbatim>\<open>persistentPingLoop\<close>, \<open>wasDead\<close> being its local variable. A connection
  without packets for more than six seconds is dead: the kill switch is activated, the
  client reconnects, and the loop returns (a successful start has begun a new one).
\<close>

definition ping_round ::
  "'p platform_ops \<Rightarrow> crypto \<Rightarrow> (nat \<Rightarrow> byte) \<Rightarrow> int \<Rightarrow> bool \<Rightarrow> 'p \<Rightarrow> VPN
     \<Rightarrow> bool \<times> 'p \<times> VPN \<times> client_effect list \<times> step_end" where
  "ping_round ops C padBuf nowNs wasDead p v =
     (if v_stopping v then (wasDead, p, v, [], LoopReturn)
      else let (v1, effs, en) = ping_send C padBuf (nowNs div 1000000) nowNs v
      in if en = ProcPanic then (wasDead, p, v1, effs, ProcPanic)
      else let isDead = nowNs - v_lastPacketRx v1 * 1000000 > 6000000000
      in if isDead \<and> \<not> wasDead
         then let ks = (if v_killSwitchEnabled v1 then snd (po_activate ops (cfg_ServerIP (v_config v1)) []) else []);
                  (err, p2, v2, effs2, panic) = Reconnect ops (nowNs div 1000000) p v1
              in (True, p2, v2, effs @ callback v1 ''reconnecting'' @ ks @ effs2, if panic then ProcPanic else LoopReturn)
         else if \<not> isDead \<and> wasDead then (False, p, v1, effs @ callback v1 ''connected'', Continue)
         else (wasDead, p, v1, effs, Continue))"

definition route_round :: "'p platform_ops \<Rightarrow> 'p \<Rightarrow> VPN \<Rightarrow> 'p \<times> client_effect list \<times> step_end" where
  "route_round ops p v =
     (if v_stopping v \<or> \<not> v_running v then (p, [], LoopReturn)
      else let (p', effs) = po_refresh ops p v in (p', effs, Continue))"

section \<open>Kill switches\<close>

definition win_Activate :: "string \<Rightarrow> string \<Rightarrow> string option \<times> client_effect list" where
  "win_Activate serverIP gw =
     (if gw = [] then (None, [])
      else (None, [Run ''route'' [''add'', serverIP, ''mask'', ''255.255.255.255'', gw, ''metric'', ''1''],
                   Run ''route'' [''delete'', ''0.0.0.0'', ''mask'', ''0.0.0.0'']]))"

definition win_detectGateway :: "win_env \<Rightarrow> string" where
  "win_detectGateway e =
     (case we_gwQuery e 0 of
        None \<Rightarrow> []
      | Some txt \<Rightarrow>
          let gw = TrimSpace txt
          in case we_parseIP e gw of
               None \<Rightarrow> []
             | Some ip \<Rightarrow> if \<not> ip_loopback ip \<and> \<not> ip_unspecified ip then gw else [])"

text \<open>The fields \<^verbatim>\<open>realGateway\<close> and \<^verbatim>\<open>ifIndex\<close> of the switch are arguments.\<close>

definition win_Deactivate :: "win_env \<Rightarrow> string \<Rightarrow> string \<Rightarrow> string option \<times> client_effect list" where
  "win_Deactivate e realGateway ifIndex =
     (let gw = (if realGateway = [] then win_detectGateway e else realGateway)
      in if gw = [] then (None, [])
         else if ifIndex \<noteq> []
         then (None, [Run ''route'' [''add'', ''0.0.0.0'', ''mask'', ''0.0.0.0'', gw, ''metric'', ''1'', ''if'', ifIndex]])
         else (None, [Run ''route'' [''add'', ''0.0.0.0'', ''mask'', ''0.0.0.0'', gw, ''metric'', ''1'']]))"

definition default_KillSwitch :: "string option \<times> client_effect list" where
  "default_KillSwitch = (Some ''kill switch not supported on this platform'', [])"

text \<open>The Windows platform with the switch \<^verbatim>\<open>newKillSwitch\<close> makes (empty fields).\<close>

definition win_ops :: "win_env \<Rightarrow> winPlatform platform_ops" where
  "win_ops e = \<lparr>po_open = win_openTunnel e, po_close = win_closeTunnel e, po_destroy = win_destroyTunnel,
     po_refresh = refreshServerRoute e, po_activate = win_Activate, po_deactivate = win_Deactivate e [] []\<rparr>"

section \<open>Android\<close>

record androidPlatform =
  ap_tunFile :: bool
  ap_protector :: bool

text \<open>\<open>dial\<close>: the outcome of dialling UDP (protecting the socket only logs failures).\<close>

definition android_openTunnel ::
  "(string + nat) \<Rightarrow> androidPlatform \<Rightarrow> VPN \<Rightarrow> string option \<times> androidPlatform \<times> VPN \<times> client_effect list" where
  "android_openTunnel dial p v =
     (if \<not> ap_tunFile p then (Some ''tunFile is nil'', p, v, [])
      else if \<not> ap_protector p then (Some ''protector is nil'', p, v, [])
      else case dial of
        Inl err \<Rightarrow> (Some (''UDP dial failed: '' @ err), p, v, [])
      | Inr conn \<Rightarrow> (None, p, v\<lparr>v_conn := Some conn\<rparr>, []))"

definition android_closeTunnel :: "androidPlatform \<Rightarrow> VPN \<Rightarrow> androidPlatform \<times> VPN \<times> client_effect list" where
  "android_closeTunnel p v =
     (p\<lparr>ap_tunFile := False\<rparr>, v\<lparr>v_conn := None\<rparr>,
      (case v_conn v of None \<Rightarrow> [] | Some c \<Rightarrow> [ConnClose c]) @ (if ap_tunFile p then [TunClose] else []))"

definition android_ops :: "(string + nat) \<Rightarrow> androidPlatform platform_ops" where
  "android_ops dial = \<lparr>po_open = android_openTunnel dial, po_close = android_closeTunnel, po_destroy = (\<lambda>p. (p, [])),
     po_refresh = (\<lambda>p v. (p, [])), po_activate = (\<lambda>_ _. (None, [])), po_deactivate = (None, [])\<rparr>"

section \<open>Other platforms\<close>

text \<open>The stub platform of \<^verbatim>\<open>core/vpn_other.go\<close> has no state.\<close>

definition other_openTunnel :: "unit \<Rightarrow> VPN \<Rightarrow> string option \<times> unit \<times> VPN \<times> client_effect list" where
  "other_openTunnel p v = (Some ''unsupported platform'', p, v, [])"

definition other_ops :: "unit platform_ops" where
  "other_ops = \<lparr>po_open = other_openTunnel, po_close = (\<lambda>p v. (p, v, [])), po_destroy = (\<lambda>p. (p, [])),
     po_refresh = (\<lambda>p v. (p, [])), po_activate = (\<lambda>_ _. default_KillSwitch), po_deactivate = default_KillSwitch\<rparr>"

section \<open>The functions exported to Android\<close>

record status_rec =
  st_status :: string
  st_txSpeed :: "64 word"
  st_rxSpeed :: "64 word"
  st_totalTx :: "64 word"
  st_totalRx :: "64 word"
  st_pingMs :: int
  st_lossPct :: "nat \<times> nat"

definition zero_status :: status_rec where
  "zero_status = \<lparr>st_status = [], st_txSpeed = 0, st_rxSpeed = 0, st_totalTx = 0, st_totalRx = 0, st_pingMs = 0, st_lossPct = (0, 1)\<rparr>"

text \<open>\<open>aa_listener\<close> is the listener object of the running client, \<open>aa_state\<close> the package
  variable \<^verbatim>\<open>androidState\<close>.\<close>

record android_app =
  aa_globalVPN :: "VPN option"
  aa_plat :: androidPlatform
  aa_listener :: status_rec
  aa_state :: status_rec

fun OnStatus_listener :: "client_effect \<Rightarrow> status_rec \<Rightarrow> status_rec" where
  "OnStatus_listener (OnStatus st tx rx ttx trx ping loss) l =
     \<lparr>st_status = st, st_txSpeed = tx, st_rxSpeed = rx, st_totalTx = ttx, st_totalRx = trx, st_pingMs = ping, st_lossPct = loss\<rparr>"
| "OnStatus_listener _ l = l"

definition deliver_status :: "client_effect list \<Rightarrow> android_app \<Rightarrow> android_app" where
  "deliver_status effs a = a\<lparr>aa_listener := fold OnStatus_listener effs (aa_listener a)\<rparr>"

text \<open>\<open>cfg\<close>: the decoded configuration or the text of the decoding error.\<close>

definition StartVPN ::
  "crypto \<Rightarrow> 64 word \<times> 64 word \<times> 64 word \<Rightarrow> (string + nat) \<Rightarrow> int \<Rightarrow> string + Config \<Rightarrow> bool \<Rightarrow> android_app
     \<Rightarrow> string \<times> android_app \<times> client_effect list" where
  "StartVPN C seeds dial nowMs cfg protector a =
     (if (case aa_globalVPN a of None \<Rightarrow> False | Some v \<Rightarrow> v_running v) then (''already running'', a, [])
      else case cfg of
        Inl err \<Rightarrow> (''bad config: '' @ err, a, [])
      | Inr c \<Rightarrow>
          let cfg1 = android_defaults c;
              p = \<lparr>ap_tunFile = True, ap_protector = protector\<rparr>;
              (err, p', v, effs) = Start (android_ops dial) nowMs p (New C seeds cfg1 True);
              a1 = deliver_status effs (a\<lparr>aa_plat := p', aa_listener := zero_status\<rparr>)
          in case err of
               Some e \<Rightarrow> (e, a1, effs)
             | None \<Rightarrow> (''ok'', a1\<lparr>aa_globalVPN := Some v\<rparr>, effs))"

definition StopVPN :: "(string + nat) \<Rightarrow> android_app \<Rightarrow> android_app \<times> client_effect list" where
  "StopVPN dial a =
     (case aa_globalVPN a of
        None \<Rightarrow> (a, [])
      | Some v \<Rightarrow>
          let (p', v', effs, panic) = Stop (android_ops dial) (aa_plat a) v
          in (deliver_status effs (a\<lparr>aa_globalVPN := None, aa_plat := p'\<rparr>), effs))"

definition GetStatus :: "android_app \<Rightarrow> status_rec" where
  "GetStatus a = aa_state a"

text \<open>None is the answer \<^verbatim>\<open>{"online":false}\<close>.\<close>

definition GetStats :: "int \<Rightarrow> android_app \<Rightarrow> status_rec option" where
  "GetStats nowNs a =
     (case aa_globalVPN a of
        None \<Rightarrow> None
      | Some v \<Rightarrow>
          if \<not> v_running v then None
          else Some \<lparr>st_status = [], st_txSpeed = v_txBytes v, st_rxSpeed = v_rxBytes v, st_totalTx = v_sessionTotalTx v,
                 st_totalRx = v_sessionTotalRx v, st_pingMs = v_echoRtt v, st_lossPct = echoCalcLoss nowNs (v_echo v)\<rparr>)"

section \<open>Sequences of calls\<close>

text \<open>The calls the user interface makes; the numbers are the clock in milliseconds.\<close>

datatype life_event = CStart int | CStop | CReconnect int | CDestroy | CKillSwitch bool

fun life_step :: "'p platform_ops \<Rightarrow> life_event \<Rightarrow> 'p \<Rightarrow> VPN \<Rightarrow> 'p \<times> VPN \<times> client_effect list \<times> bool" where
  "life_step ops (CStart now) p v = (let (err, p', v', effs) = Start ops now p v in (p', v', effs, False))"
| "life_step ops CStop p v = Stop ops p v"
| "life_step ops (CReconnect now) p v = (let (err, p', v', effs, panic) = Reconnect ops now p v in (p', v', effs, panic))"
| "life_step ops CDestroy p v = Destroy ops p v"
| "life_step ops (CKillSwitch enabled) p v = (p, SetKillSwitchEnabled enabled v, [], False)"

text \<open>\<open>mk\<close> builds the platform from what the outside answers at each call.\<close>

fun life_run :: "('e \<Rightarrow> 'p platform_ops) \<Rightarrow> ('e \<times> life_event) list \<Rightarrow> 'p \<Rightarrow> VPN \<Rightarrow> 'p \<times> VPN \<times> client_effect list \<times> bool" where
  "life_run mk [] p v = (p, v, [], False)"
| "life_run mk ((e, ev) # evs) p v =
     (let (p1, v1, effs, panic) = life_step (mk e) ev p v
      in if panic then (p1, v1, effs, True)
         else let (p2, v2, effs2, panic2) = life_run mk evs p1 v1 in (p2, v2, effs @ effs2, panic2))"

section \<open>The laws of a platform\<close>

definition vpn_ciphers :: "VPN \<Rightarrow> CipherPack option \<times> CipherPack option \<times> CipherPack option" where
  "vpn_ciphers v = (v_encCP v, v_decCP v, v_pingCP v)"

definition vpn_flags ::
  "VPN \<Rightarrow> (bool \<times> bool \<times> bool \<times> bool \<times> bool \<times> bool \<times> Config) \<times> CipherPack option \<times> CipherPack option \<times> CipherPack option" where
  "vpn_flags v = ((v_running v, v_stopOpen v, v_stopping v, v_reconnecting v, v_killSwitchEnabled v, v_listener v, v_config v),
     vpn_ciphers v)"

text \<open>The statuses reported and the goroutines started by a list of effects.\<close>

fun statuses :: "client_effect list \<Rightarrow> string list" where
  "statuses [] = []"
| "statuses (OnStatus st _ _ _ _ _ _ # effs) = st # statuses effs"
| "statuses (_ # effs) = statuses effs"

fun gos :: "client_effect list \<Rightarrow> string list" where
  "gos [] = []"
| "gos (Go f # effs) = f # gos effs"
| "gos (_ # effs) = gos effs"

text \<open>Sets of goroutines started, less stop channels closed.\<close>

fun balance :: "client_effect list \<Rightarrow> int" where
  "balance [] = 0"
| "balance (Go f # effs) = (if f = ''statsLoop'' then 1 else 0) + balance effs"
| "balance (StopChClosed # effs) = balance effs - 1"
| "balance (_ # effs) = balance effs"

definition quiet :: "client_effect list \<Rightarrow> bool" where
  "quiet effs \<longleftrightarrow> statuses effs = [] \<and> gos effs = [] \<and> balance effs = 0"

lemma statuses_append [simp]: "statuses (xs @ ys) = statuses xs @ statuses ys"
  by (induction xs rule: statuses.induct) simp_all

lemma gos_append [simp]: "gos (xs @ ys) = gos xs @ gos ys"
  by (induction xs rule: gos.induct) simp_all

lemma balance_append [simp]: "balance (xs @ ys) = balance xs + balance ys"
  by (induction xs rule: balance.induct) simp_all

lemma effects_of_callback [simp]:
  "statuses (callback v st) = (if v_listener v then [st] else [])" "gos (callback v st) = []" "balance (callback v st) = 0"
  by (simp_all add: callback_def)

lemma effects_of_writes [simp]:
  "statuses (replicate n (ConnWrite c b)) = []" "gos (replicate n (ConnWrite c b)) = []"
  "balance (replicate n (ConnWrite c b)) = 0"
  by (induction n) simp_all

lemma client_ctx_ciphers: "vpn_ciphers v' = vpn_ciphers v \<Longrightarrow> client_ctx v' key k = client_ctx v key k"
  by (simp add: vpn_ciphers_def client_ctx_def)

text \<open>A client with working contexts sends its ping and changes nothing the life cycle depends on.\<close>

lemma ping_send_works:
  assumes "client_ctx v key k"
  obtains v1 effs where "ping_send go_crypto padBuf nowMs nowNs v = (v1, effs, Continue)" and "client_ctx v1 key k"
    and "v_running v1 = v_running v" and "v_stopOpen v1 = v_stopOpen v" and "v_stopping v1 = v_stopping v"
    and "v_conn v1 = v_conn v" and "balance effs = 0"
proof (cases "v_conn v")
  case None
  then show ?thesis by (intro that [of v "[]"]) (simp_all add: ping_send_def assms)
next
  case (Some conn)
  from assms obtain cp where cp: "v_pingCP v = Some cp" "std_ctx cp key k" "cp_PadMax cp \<le> 0" by (auto simp: client_ctx_def)
  define cp' where "cp' = cp\<lparr>cp_nonce := cp_nonce cp + 1, cp_prng := prng_next (prng_next (cp_prng cp))\<rparr>"
  obtain pkt where E: "client_encrypt go_crypto padBuf v (Some cp) [] = (Ok pkt, Some cp', v_quic v)"
    using std.client_encrypt_std [OF cp(2,2,3), of "[]" padBuf v] unfolding cp'_def by auto
  define v1 where "v1 = v\<lparr>v_pingCP := Some cp', v_quic := v_quic v, v_lastAliveMs := nowMs, v_echo := echoPush nowNs (v_echo v)\<rparr>"
  have "ping_send go_crypto padBuf nowMs nowNs v = (v1, replicate (clamp_fec (cfg_FEC (v_config v))) (ConnWrite conn pkt), Continue)"
    using Some E cp(1) by (simp add: ping_send_def v1_def)
  moreover have "client_ctx v1 key k"
    using assms cp(2,3) by (auto simp: client_ctx_def v1_def cp'_def std_ctx_def)
  ultimately show ?thesis by (rule that) (simp_all add: v1_def)
qed

locale platform_laws =
  fixes ops :: "'p platform_ops"
  assumes open_flags: "po_open ops p v = (err, p', v', effs) \<Longrightarrow> vpn_flags v' = vpn_flags v \<and> quiet effs"
    and open_conn: "po_open ops p v = (None, p', v', effs) \<Longrightarrow> v_conn v' \<noteq> None"
    and close_flags: "po_close ops p v = (p', v', effs) \<Longrightarrow> vpn_flags v' = vpn_flags v \<and> quiet effs"
    and destroy_quiet: "po_destroy ops p = (p', effs) \<Longrightarrow> quiet effs"
    and switch_quiet: "quiet (snd (po_activate ops ip gw))" "quiet (snd (po_deactivate ops))"

text \<open>A running client has its stop channel open and a connection, and no stop is pending
  between calls.\<close>

definition client_inv :: "VPN \<Rightarrow> bool" where
  "client_inv v \<longleftrightarrow> (v_running v \<longrightarrow> v_stopOpen v \<and> v_conn v \<noteq> None) \<and> \<not> v_stopping v"

context platform_laws
begin

lemma Start_running: "v_running v \<Longrightarrow> Start ops now p v = (Some ''already running'', p, v, [])"
  by (simp add: Start_def)

lemma Start_result:
  assumes "\<not> v_running v" and "Start ops now p v = (err, p', v', effs)"
  obtains v2 f2 where "v_running v2 = False" "v_stopOpen v2" "v_stopping v2 = v_stopping v" "v_reconnecting v2 = v_reconnecting v"
      "v_listener v2 = v_listener v" "err = None \<Longrightarrow> v_conn v2 \<noteq> None" "quiet f2"
    and "v' = (if err = None then v2\<lparr>v_running := True, v_echo := echoReset (v_echo v2)\<rparr> else v2)"
    and "effs = callback v ''connecting'' @ f2 @ (if err = None then callback v2 ''connected''
      @ map Go [''persistentPingLoop'', ''routeMonitorLoop'', ''platformReaderLoop'', ''platformWriterLoop'', ''statsLoop''] else [])"
proof -
  define v1 where "v1 = v\<lparr>v_stopOpen := True, v_lastAliveMs := now, v_lastPacketRx := now\<rparr>"
  obtain e2 p2 v2 f2 where o: "po_open ops p v1 = (e2, p2, v2, f2)" by (cases "po_open ops p v1") auto
  from open_flags [OF o] have fl: "vpn_flags v2 = vpn_flags v1" and q: "quiet f2" by simp_all
  have flags: "v_running v2 = False" "v_stopOpen v2" "v_stopping v2 = v_stopping v" "v_reconnecting v2 = v_reconnecting v"
      "v_listener v2 = v_listener v"
    using fl assms(1) by (simp_all add: vpn_flags_def v1_def)
  have conn: "e2 = None \<Longrightarrow> v_conn v2 \<noteq> None" using open_conn o by blast
  define eff2 where "eff2 = callback v ''connecting'' @ f2 @ (if e2 = None then callback v2 ''connected''
      @ map Go [''persistentPingLoop'', ''routeMonitorLoop'', ''platformReaderLoop'', ''platformWriterLoop'', ''statsLoop''] else [])"
  define w where "w = (if e2 = None then v2\<lparr>v_running := True, v_echo := echoReset (v_echo v2)\<rparr> else v2)"
  have "Start ops now p v = (e2, p2, w, eff2)"
    using assms(1) o unfolding v1_def eff2_def w_def by (cases e2) (simp_all add: Start_def Let_def)
  with assms(2) have "e2 = err" "w = v'" "eff2 = effs" by simp_all
  then have r: "err = e2"
    "v' = (if err = None then v2\<lparr>v_running := True, v_echo := echoReset (v_echo v2)\<rparr> else v2)"
    "effs = callback v ''connecting'' @ f2 @ (if err = None then callback v2 ''connected''
      @ map Go [''persistentPingLoop'', ''routeMonitorLoop'', ''platformReaderLoop'', ''platformWriterLoop'', ''statsLoop''] else [])"
    unfolding w_def eff2_def by blast+
  show ?thesis by (rule that [OF flags _ q r(2,3)]) (use conn r(1) in simp)
qed

lemma Start_inv:
  assumes "client_inv v" and "\<not> v_running v" and "Start ops now p v = (err, p', v', effs)"
  shows "client_inv v' \<and> (v_running v' \<longleftrightarrow> err = None) \<and> v_reconnecting v' = v_reconnecting v
    \<and> (err = None \<longleftrightarrow> gos effs \<noteq> []) \<and> ''disconnected'' \<notin> set (statuses effs)
    \<and> balance effs = (if err = None then 1 else 0)"
  using assms(2,3)
  by (rule Start_result) (use assms(1) in \<open>auto simp: client_inv_def quiet_def\<close>)

lemma Stop_inv:
  assumes "client_inv v" and "Stop ops p v = (p', v', effs, panic)"
  shows "\<not> panic \<and> client_inv v' \<and> \<not> v_running v' \<and> v_reconnecting v' = v_reconnecting v
    \<and> (v_running v \<longrightarrow> v_conn v' = None) \<and> gos effs = [] \<and> (v_reconnecting v \<longrightarrow> statuses effs = [])
    \<and> balance effs = (if v_running v then -1 else 0)"
proof (cases "v_running v")
  case False
  with assms show ?thesis by (auto simp: Stop_def client_inv_def)
next
  case True
  define v1 where "v1 = v\<lparr>v_stopping := True, v_running := False, v_stopOpen := False\<rparr>"
  obtain p2 v2 f2 where c: "po_close ops p v1 = (p2, v2, f2)" by (cases "po_close ops p v1") auto
  from close_flags [OF c] have fl: "v_running v2 = False" "v_reconnecting v2 = v_reconnecting v"
    and q: "statuses f2 = []" "gos f2 = []" "balance f2 = 0"
    by (auto simp: quiet_def vpn_flags_def v1_def)
  have k: "statuses (snd (po_deactivate ops)) = []" "gos (snd (po_deactivate ops)) = []" "balance (snd (po_deactivate ops)) = 0"
    using switch_quiet(2) by (simp_all add: quiet_def)
  have open_ch: "v_stopOpen v" using assms(1) True by (simp add: client_inv_def)
  have S: "Stop ops p v = (p2, v2\<lparr>v_conn := None, v_stopping := False\<rparr>,
      StopChClosed # f2 @ (if v_killSwitchEnabled v then snd (po_deactivate ops) else [])
      @ (case v_conn v2 of None \<Rightarrow> [] | Some c \<Rightarrow> [ConnClose c])
      @ (if \<not> v_reconnecting v then callback v2 ''disconnected'' else []), False)"
    using True open_ch c unfolding v1_def by (simp add: Stop_def Let_def)
  show ?thesis using assms(2) fl q k True unfolding S
    by (auto simp: client_inv_def split: option.splits)
qed

lemma Start_ciphers:
  assumes "Start ops now p v = (err, p', v', effs)"
  shows "vpn_ciphers v' = vpn_ciphers v"
proof (cases "v_running v")
  case False
  define v1 where "v1 = v\<lparr>v_stopOpen := True, v_lastAliveMs := now, v_lastPacketRx := now\<rparr>"
  obtain e2 p2 v2 f2 where o: "po_open ops p v1 = (e2, p2, v2, f2)" by (cases "po_open ops p v1") auto
  from open_flags [OF o] have "vpn_ciphers v2 = vpn_ciphers v" by (simp add: vpn_flags_def v1_def vpn_ciphers_def)
  moreover from assms False o have "vpn_ciphers v' = vpn_ciphers v2"
    by (auto simp: Start_def Let_def v1_def vpn_ciphers_def split: option.splits)
  ultimately show ?thesis by simp
qed (use assms in \<open>simp add: Start_def\<close>)

lemma Stop_ciphers:
  assumes "Stop ops p v = (p', v', effs, panic)"
  shows "vpn_ciphers v' = vpn_ciphers v"
proof (cases "v_running v \<and> v_stopOpen v")
  case True
  define v1 where "v1 = v\<lparr>v_stopping := True, v_running := False, v_stopOpen := False\<rparr>"
  obtain p2 v2 f2 where c: "po_close ops p v1 = (p2, v2, f2)" by (cases "po_close ops p v1") auto
  from close_flags [OF c] have "vpn_ciphers v2 = vpn_ciphers v" by (simp add: vpn_flags_def v1_def vpn_ciphers_def)
  moreover from assms True c have "vpn_ciphers v' = vpn_ciphers v2"
    by (auto simp: Stop_def Let_def v1_def vpn_ciphers_def)
  ultimately show ?thesis by simp
qed (use assms in \<open>auto simp: Stop_def vpn_ciphers_def split: if_splits\<close>)

lemma Reconnect_ciphers:
  assumes "Reconnect ops now p v = (err, p', v', effs, panic)"
  shows "vpn_ciphers v' = vpn_ciphers v"
proof -
  obtain p1 v1 f1 b where s: "Stop ops p (v\<lparr>v_reconnecting := True\<rparr>) = (p1, v1, f1, b)"
    by (cases "Stop ops p (v\<lparr>v_reconnecting := True\<rparr>)") auto
  from Stop_ciphers [OF s] have 1: "vpn_ciphers v1 = vpn_ciphers v" by (simp add: vpn_ciphers_def)
  show ?thesis
  proof (cases b)
    case False
    obtain e2 p2 v2 f2 where t: "Start ops now p1 (v1\<lparr>v_reconnecting := False\<rparr>) = (e2, p2, v2, f2)"
      by (cases "Start ops now p1 (v1\<lparr>v_reconnecting := False\<rparr>)") auto
    from Start_ciphers [OF t] 1 assms s t False show ?thesis by (simp add: Reconnect_def vpn_ciphers_def)
  qed (use assms s 1 in \<open>simp add: Reconnect_def\<close>)
qed

lemma Stop_stopped: "\<not> v_running v \<Longrightarrow> \<not> v_stopping v \<Longrightarrow> Stop ops p v = (p, v, [], False)"
  by (simp add: Stop_def)

lemma Reconnect_inv:
  assumes "client_inv v" and "Reconnect ops now p v = (err, p', v', effs, panic)"
  shows "\<not> panic \<and> client_inv v' \<and> (v_running v' \<longleftrightarrow> err = None) \<and> (err = None \<longleftrightarrow> gos effs \<noteq> [])
    \<and> ''disconnected'' \<notin> set (statuses effs)
    \<and> balance effs = (if v_running v' then 1 else 0) - (if v_running v then 1 else 0)"
proof -
  obtain p1 v1 f1 b where s: "Stop ops p (v\<lparr>v_reconnecting := True\<rparr>) = (p1, v1, f1, b)"
    by (cases "Stop ops p (v\<lparr>v_reconnecting := True\<rparr>)") auto
  have "client_inv (v\<lparr>v_reconnecting := True\<rparr>)" using assms(1) by (simp add: client_inv_def)
  from Stop_inv [OF this s] have 1: "\<not> b" "client_inv v1" "\<not> v_running v1" "gos f1 = []" "statuses f1 = []"
    "balance f1 = (if v_running v then -1 else 0)"
    by auto
  obtain e2 p2 v2 f2 where t: "Start ops now p1 (v1\<lparr>v_reconnecting := False\<rparr>) = (e2, p2, v2, f2)"
    by (cases "Start ops now p1 (v1\<lparr>v_reconnecting := False\<rparr>)") auto
  have i: "client_inv (v1\<lparr>v_reconnecting := False\<rparr>)" and r: "\<not> v_running (v1\<lparr>v_reconnecting := False\<rparr>)"
    using 1 by (simp_all add: client_inv_def)
  from assms(2) s t 1(1) have "err = e2" "v' = v2" "effs = f1 @ f2" "\<not> panic"
    by (simp_all add: Reconnect_def)
  with Start_inv [OF i r t] 1 show ?thesis by simp
qed

lemma life_step_inv:
  assumes "client_inv v" and "life_step ops ev p v = (p', v', effs, panic)"
  shows "\<not> panic \<and> client_inv v' \<and> balance effs = (if v_running v' then 1 else 0) - (if v_running v then 1 else 0)"
proof (cases ev)
  case (CStart now)
  obtain err p2 v2 f where S: "Start ops now p v = (err, p2, v2, f)" by (cases "Start ops now p v") auto
  with assms CStart have "p' = p2" "v' = v2" "effs = f" "\<not> panic" by simp_all
  then show ?thesis
    using assms(1) Start_running [of v now p] Start_inv [OF assms(1) _ S] S by (cases "v_running v") auto
next
  case CStop
  with assms show ?thesis using Stop_inv [OF assms(1), of p p' v' effs panic] by auto
next
  case (CReconnect now)
  with assms show ?thesis by (auto split: prod.splits dest!: Reconnect_inv [OF assms(1)])
next
  case CDestroy
  obtain p1 v1 f b where S: "Stop ops p v = (p1, v1, f, b)" by (cases "Stop ops p v") auto
  obtain p2 f2 where D: "po_destroy ops p1 = (p2, f2)" by (cases "po_destroy ops p1")
  from Stop_inv [OF assms(1) S] have "\<not> b" "client_inv v1" "\<not> v_running v1" "balance f = (if v_running v then -1 else 0)" by auto
  with assms(2) S D CDestroy destroy_quiet [OF D] show ?thesis by (auto simp: Destroy_def quiet_def)
next
  case (CKillSwitch enabled)
  with assms show ?thesis by (auto simp: SetKillSwitchEnabled_def client_inv_def)
qed

lemma ping_round_inv:
  assumes "client_inv v" and "client_ctx v key k"
    and "ping_round ops go_crypto padBuf nowNs wasDead p v = (wd, p', v', effs, en)"
  shows "en \<noteq> ProcPanic \<and> client_inv v' \<and> client_ctx v' key k
    \<and> balance effs = (if v_running v' then 1 else 0) - (if v_running v then 1 else 0)"
proof -
  obtain v1 pings where S: "ping_send go_crypto padBuf (nowNs div 1000000) nowNs v = (v1, pings, Continue)"
    and ctx: "client_ctx v1 key k" and run: "v_running v1 = v_running v" and b: "balance pings = 0"
    and rest: "v_stopOpen v1 = v_stopOpen v" "v_stopping v1 = v_stopping v" "v_conn v1 = v_conn v"
    using ping_send_works [OF assms(2)] by metis
  have i: "client_inv v1" "\<not> v_stopping v" using assms(1) run rest by (simp_all add: client_inv_def)
  define dead where "dead = (nowNs - v_lastPacketRx v1 * 1000000 > 6000000000)"
  obtain err p2 v2 f2 pan where R: "Reconnect ops (nowNs div 1000000) p v1 = (err, p2, v2, f2, pan)"
    by (cases "Reconnect ops (nowNs div 1000000) p v1") auto
  have P: "ping_round ops go_crypto padBuf nowNs wasDead p v =
      (if dead \<and> \<not> wasDead
       then (True, p2, v2, pings @ callback v1 ''reconnecting''
         @ (if v_killSwitchEnabled v1 then snd (po_activate ops (cfg_ServerIP (v_config v1)) []) else []) @ f2,
         if pan then ProcPanic else LoopReturn)
       else if \<not> dead \<and> wasDead then (False, p, v1, pings @ callback v1 ''connected'', Continue)
       else (wasDead, p, v1, pings, Continue))"
    using S R i(2) by (simp add: ping_round_def Let_def dead_def)
  have q: "balance (snd (po_activate ops ip gw)) = 0" for ip gw using switch_quiet(1) by (simp add: quiet_def)
  note r = Reconnect_inv [OF i(1) R] client_ctx_ciphers [OF Reconnect_ciphers [OF R], of key k]
  show ?thesis using assms(3) r ctx run b i(1) q unfolding P by (auto split: if_splits)
qed

end

lemma life_run_inv:
  assumes "\<And>e. platform_laws (mk e)"
  shows "client_inv v \<Longrightarrow> life_run mk evs p v = (p', v', effs, panic) \<Longrightarrow>
    \<not> panic \<and> client_inv v' \<and> balance effs = (if v_running v' then 1 else 0) - (if v_running v then 1 else 0)"
proof (induction evs arbitrary: p v p' v' effs panic)
  case (Cons x evs)
  obtain e ev where x: "x = (e, ev)" by (cases x)
  obtain p1 v1 f1 b1 where s: "life_step (mk e) ev p v = (p1, v1, f1, b1)" by (cases "life_step (mk e) ev p v") auto
  note 1 = platform_laws.life_step_inv [OF assms Cons.prems(1) s]
  obtain p2 v2 f2 b2 where r: "life_run mk evs p1 v1 = (p2, v2, f2, b2)" by (cases "life_run mk evs p1 v1") auto
  from 1 have "\<not> b1" "client_inv v1" by blast+
  with Cons.prems(2) x s r have "p' = p2" "v' = v2" "effs = f1 @ f2" "panic = b2" by simp_all
  with Cons.IH [OF \<open>client_inv v1\<close> r] 1 show ?case by simp
qed simp

interpretation win: platform_laws "win_ops e" for e
proof unfold_locales
  fix p v err p' v' effs
  have r: "quiet (vpn_routes e i cs)" for i cs by (induction cs) (auto simp: quiet_def split: option.split)
  have b: "quiet (bypass_routes e i gw cs)" for i gw cs
    by (induction cs) (auto simp: quiet_def split: option.split)
  have d: "quiet (default_route cfg i)" for cfg i by (simp add: default_route_def quiet_def)
  have m: "quiet (mode_routes e cfg i gw)" for cfg i gw
    using r [of i] b [of i gw] d [of cfg i] unfolding mode_routes_def Let_def quiet_def by simp
  have a: "quiet (setup_address cfg i)" "quiet (server_route cfg gw)" "quiet [ps_metric i, ps_alias n x, ps_alias n' x']"
    for cfg i gw n x n' x' by (simp_all add: setup_address_def server_route_def ps_metric_def ps_alias_def quiet_def)
  have c: "statuses (win_open_cmds e p cfg gw) = []" "gos (win_open_cmds e p cfg gw) = []"
      "balance (win_open_cmds e p cfg gw) = 0" for p cfg gw
    using m [of cfg "we_ifIndex e" gw] a(1) [of cfg "we_ifIndex e"] a(2) [of cfg gw] a(3)
    unfolding win_open_cmds_def Let_def quiet_def by (simp_all add: ps_metric_def ps_alias_def)
  show "po_open (win_ops e) p v = (err, p', v', effs) \<Longrightarrow> vpn_flags v' = vpn_flags v \<and> quiet effs"
    by (auto simp: win_ops_def win_openTunnel_def Let_def vpn_flags_def vpn_ciphers_def quiet_def c split: sum.splits if_splits)
  show "po_open (win_ops e) p v = (None, p', v', effs) \<Longrightarrow> v_conn v' \<noteq> None"
    by (auto simp: win_ops_def win_openTunnel_def Let_def split: sum.splits if_splits)
  show "po_close (win_ops e) p v = (p', v', effs) \<Longrightarrow> vpn_flags v' = vpn_flags v \<and> quiet effs"
    by (auto simp: win_ops_def win_closeTunnel_def Let_def ps_alias_def quiet_def)
  show "po_destroy (win_ops e) p = (p', effs) \<Longrightarrow> quiet effs"
    by (auto simp: win_ops_def win_destroyTunnel_def quiet_def)
  show "quiet (snd (po_activate (win_ops e) ip gw))" "quiet (snd (po_deactivate (win_ops e)))" for ip gw
    by (simp_all add: win_ops_def win_Activate_def win_Deactivate_def Let_def quiet_def)
qed

interpretation android: platform_laws "android_ops dial" for dial
  by unfold_locales
    (auto simp: vpn_ciphers_def quiet_def android_ops_def android_openTunnel_def android_closeTunnel_def vpn_flags_def split: if_splits sum.splits option.splits)

interpretation other: platform_laws other_ops
  by unfold_locales (auto simp: other_ops_def other_openTunnel_def default_KillSwitch_def quiet_def)

section \<open>Properties\<close>

lemma New_stopped: "client_inv (New C seeds cfg l) \<and> \<not> v_running (New C seeds cfg l)"
  by (cases seeds) (simp add: New_def client_inv_def Let_def)

text \<open>
  C22: whatever sequence of Start, Stop, Reconnect and Destroy calls is made on a new client,
  on Windows or Android, and whatever the outside answers at each call: the stop channel is
  never closed twice (no panic), a running client has a connection and an open stop channel,
  and every set of goroutines that was started has been told to stop, except exactly one
  set when the client is running.
\<close>

theorem life_cycle_keeps_invariant:
  "(case life_run win_ops evs p (New C seeds cfg l) of (p', v', effs, panic) \<Rightarrow>
      \<not> panic \<and> client_inv v' \<and> balance effs = (if v_running v' then 1 else 0))
   \<and> (case life_run android_ops evs2 q (New C seeds cfg l) of (q', v', effs, panic) \<Rightarrow>
      \<not> panic \<and> client_inv v' \<and> balance effs = (if v_running v' then 1 else 0))"
  using life_run_inv [of win_ops "New C seeds cfg l" evs p, OF win.platform_laws_axioms]
    life_run_inv [of android_ops "New C seeds cfg l" evs2 q, OF android.platform_laws_axioms] New_stopped [of C seeds cfg l]
  by (auto split: prod.splits)

lemma Start_dial_fails:
  assumes "we_dial e = Inl err" and "\<not> v_running v"
  shows "Start (win_ops e) now p v = (Some (''transport dial: '' @ err), p,
    v\<lparr>v_stopOpen := True, v_lastAliveMs := now, v_lastPacketRx := now\<rparr>, callback v ''connecting'')"
  using assms by (simp add: Start_def win_ops_def win_openTunnel_def)

lemma Stop_frame:
  assumes "Stop (win_ops e) p v = (p', v', effs, b)" and "\<not> b"
  shows "v_listener v' = v_listener v \<and> (v_running v \<longrightarrow> take 1 effs = [StopChClosed])"
  using assms by (auto simp: Stop_def Let_def win_ops_def win_closeTunnel_def split: if_splits)


definition sample_client :: VPN where
  "sample_client = (New go_crypto (1, 2, 3) (zero_Config\<lparr>cfg_NoEncrypt := True\<rparr>) True)
     \<lparr>v_running := True, v_stopOpen := True, v_conn := Some 7\<rparr>"


text \<open>
  On Windows a start that fails after the dial, here for want of a gateway, leaves the
  new connection open: no close is among its effects, and a later Stop returns before it
  would close it, because the client is not running.
\<close>

theorem failed_start_leaks_connection:
  assumes "client_inv v" and "\<not> v_running v" and "we_dial e = Inr (conn, t)" and "find_gateway e 3 0 = []"
  shows "\<exists>v' effs. Start (win_ops e) now p v = (Some no_gateway, p\<lparr>wp_realGateway := []\<rparr>, v', effs)
    \<and> v_conn v' = Some conn \<and> \<not> v_running v' \<and> ConnClose conn \<notin> set effs
    \<and> (\<forall>e2 p2. Stop (win_ops e2) p2 v' = (p2, v', [], False))"
  using assms
  by (auto simp: Start_def win_ops_def win_openTunnel_def Let_def client_inv_def Stop_def callback_def)

theorem failed_start_leaks_connection_witness:
  "\<exists>v' effs. Start (win_ops (sample_win_env\<lparr>we_gwQuery := \<lambda>_. None\<rparr>)) 5 init_winPlatform (New go_crypto (1, 2, 3) zero_Config True)
      = (Some no_gateway, init_winPlatform, v', effs) \<and> v_conn v' = Some 1 \<and> ConnClose 1 \<notin> set effs"
proof -
  let ?e = "sample_win_env\<lparr>we_gwQuery := \<lambda>_. None\<rparr>"
  have d: "we_dial ?e = Inr (1, ''ws'')" by (simp add: sample_win_env_def)
  have g: "find_gateway ?e 3 0 = []" by (simp add: numeral_3_eq_3 getDefaultGateway_def)
  from failed_start_leaks_connection [OF _ _ d g, of "New go_crypto (1, 2, 3) zero_Config True" 5 init_winPlatform]
    New_stopped [of go_crypto "(1, 2, 3)" zero_Config True]
  show ?thesis by (auto simp: init_winPlatform_def)
qed

text \<open>
  On Android a running client never survives a reconnect: closing the tunnel drops the
  TUN file, so opening it again fails whatever the network answers, and the client ends up
  stopped without a goroutine or a connection.
\<close>

theorem android_reconnect_always_fails:
  assumes "client_inv v" and "v_running v"
  shows "\<exists>p' v' effs. Reconnect (android_ops dial) now p v = (Some ''tunFile is nil'', p', v', effs, False)
    \<and> \<not> v_running v' \<and> v_conn v' = None \<and> gos effs = []"
  using assms
  by (auto simp: Reconnect_def Stop_def Start_def Let_def client_inv_def android_ops_def android_openTunnel_def
      android_closeTunnel_def callback_def)

theorem android_reconnect_always_fails_witness:
  "\<exists>p' v' effs. Reconnect (android_ops (Inr 8)) 9 \<lparr>ap_tunFile = True, ap_protector = True\<rparr> sample_client
      = (Some ''tunFile is nil'', p', v', effs, False) \<and> \<not> v_running v'"
proof -
  have "client_inv sample_client" "v_running sample_client"
    by (simp_all add: sample_client_def client_inv_def New_def Let_def)
  from android_reconnect_always_fails [OF this] show ?thesis by blast
qed

end
