(* ===== verification/System.thy ===== *)
theory System
  imports Server Lifecycle "HOL-Library.Sublist"
begin

text \<open>
  Client and server together: the main loop over its queue, a client paired with a peer of
  the server, and what happens to one packet on its way through both. The steps are those
  of the goroutines; the network is the copying of the client's writes to the server's
  readers and back.
\<close>

section \<open>The main loop over its queue\<close>

fun main_loop_run :: "crypto \<Rightarrow> env \<Rightarrow> IncomingPacket list \<Rightarrow> server \<Rightarrow> server \<times> effect list \<times> ending" where
  "main_loop_run C e [] s = (s, [], Returned)"
| "main_loop_run C e (p # ps) s =
     (let (s1, eff, en) = main_loop C e (Some p) s
      in if en \<noteq> Returned then (s1, eff, en)
         else let (s2, effs, en2) = main_loop_run C e ps s1 in (s2, eff @ effs, en2))"

text \<open>The packets written to the TUN device.\<close>

fun tun_writes :: "effect list \<Rightarrow> bytes list" where
  "tun_writes [] = []"
| "tun_writes (TunWrite d # effs) = d # tun_writes effs"
| "tun_writes (_ # effs) = tun_writes effs"

lemma tun_writes_append [simp]: "tun_writes (xs @ ys) = tun_writes xs @ tun_writes ys"
  by (induction xs rule: tun_writes.induct) simp_all

lemma tun_writes_silent: "silent eff \<Longrightarrow> tun_writes eff = []"
  by (induction eff rule: tun_writes.induct) (simp_all add: silent_def)

section \<open>Pairing\<close>

text \<open>Peer \<open>r\<close> of the server is the client's: it is filed under the client's short id, and
  both hold contexts of the standard mode over the same keys and the same routing salt.\<close>

definition paired :: "server \<Rightarrow> VPN \<Rightarrow> nat \<Rightarrow> bytes \<Rightarrow> bytes \<Rightarrow> bool" where
  "paired s v r key k \<longleftrightarrow>
     server_inv s \<and> map_of (s_peers s) (cfg_ShortID (v_config v)) = Some r \<and> \<not> p_cpLocked (s_store s r)
     \<and> \<not> cfg_NoEncrypt (s_cfg s) \<and> s_routingSalt s = cfg_RoutingSalt (v_config v)
     \<and> (\<exists>cp. p_CP (s_store s r) = Some cp \<and> std_ctx cp key k \<and> cp_PadMax cp \<le> 0)
     \<and> client_ctx v key k"

text \<open>The key under which the replay filter sees the next packet of a context.\<close>

definition next_key :: "VPN \<Rightarrow> CipherPack option \<Rightarrow> bytes" where
  "next_key v c = (case c of None \<Rightarrow> [] | Some cp \<Rightarrow> bloomKey (cfg_ShortID (v_config v)) (std_nonce cp))"

context crypto_laws
begin

text \<open>What a paired client sends arrives as a genuine packet.\<close>

lemma client_packet:
  assumes "paired s v r key k" and "c \<in> {v_encCP v, v_decCP v, v_pingCP v}" and "length pt \<le> 65493"
  shows "\<exists>pkt c'. client_encrypt C padBuf v c pt = (Ok pkt, Some c', v_quic v)
    \<and> std_ctx c' key k \<and> cp_PadMax c' \<le> 0
    \<and> (\<forall>w. snd (ws_reader_step (s_routingSalt s) pkt w) = Some \<lparr>in_Data = pkt, in_Writer = Some (WSSPeerConn (wr_conn w)),
          in_ShortID = cfg_ShortID (v_config v), in_IsQUIC = False\<rparr>)
    \<and> (\<forall>wr. genuine C s \<lparr>in_Data = pkt, in_Writer = wr, in_ShortID = cfg_ShortID (v_config v), in_IsQUIC = False\<rparr> pt r key k
         \<and> replay_key \<lparr>in_Data = pkt, in_Writer = wr, in_ShortID = cfg_ShortID (v_config v), in_IsQUIC = False\<rparr> = next_key v c)"
proof -
  from assms(1,2) obtain cp where cp: "c = Some cp" "std_ctx cp key k" "cp_PadMax cp \<le> 0"
    by (auto simp: paired_def client_ctx_def)
  obtain pkt where E: "client_encrypt C padBuf v (Some cp) pt
      = (Ok pkt, Some (cp\<lparr>cp_nonce := cp_nonce cp + 1, cp_prng := prng_next (prng_next (cp_prng cp))\<rparr>), v_quic v)"
    "fst (Encrypt C padBuf cp (v_quic v) pt (cfg_ShortID (v_config v)) (cfg_RoutingSalt (v_config v))) = Ok pkt"
    using client_encrypt_std [OF cp(2,2,3) assms(3)] by blast
  have salt: "cfg_RoutingSalt (v_config v) = s_routingSalt s" using assms(1) by (simp add: paired_def)
  note shape = std_packet_shape [OF cp(2) E(2) [unfolded salt]]
  have g: "genuine C s \<lparr>in_Data = pkt, in_Writer = wr, in_ShortID = cfg_ShortID (v_config v), in_IsQUIC = False\<rparr> pt r key k" for wr
    using assms(1) cp(2) E(2) salt unfolding genuine_def paired_def by auto
  have "replay_key \<lparr>in_Data = pkt, in_Writer = wr, in_ShortID = cfg_ShortID (v_config v), in_IsQUIC = False\<rparr> = next_key v c" for wr
    using std_packet_nonce [OF cp(2) E(2)] by (simp add: replay_key_def next_key_def cp(1))
  moreover have "std_ctx (cp\<lparr>cp_nonce := cp_nonce cp + 1, cp_prng := prng_next (prng_next (cp_prng cp))\<rparr>) key k"
    using cp(2) by (simp add: std_ctx_def)
  ultimately show ?thesis using g E(1) shape(1,2) cp(1,3)
    by (auto simp: ws_reader_step_def Let_def intro!: exI [of _ pkt])
qed

end

section \<open>Replayed copies\<close>

lemma set_writer_select [simp]:
  "p_CP (set_writer w p) = p_CP p" "p_cpLocked (set_writer w p) = p_cpLocked p" "p_CumRx (set_writer w p) = p_CumRx p"
  by (auto simp: set_writer_def split: option.split PacketWriter.split)

lemma replayed_copy:
  assumes "filtered s pkt" and "map_of (s_peers s) (in_ShortID pkt) = Some r" and "\<not> p_cpLocked (s_store s r)"
    and "\<not> bloomCheck (s_bloom s) (replay_key pkt)"
  shows "\<exists>s' eff. main_loop C e (Some pkt) s = (s', eff, Returned) \<and> silent eff \<and> filtered s' pkt
    \<and> map_of (s_peers s') (in_ShortID pkt) = Some r \<and> \<not> p_cpLocked (s_store s' r)
    \<and> \<not> bloomCheck (s_bloom s') (replay_key pkt) \<and> p_CumRx (s_store s' r) = p_CumRx (s_store s r)"
proof -
  let ?s1 = "upd_peer r (set_writer (in_Writer pkt)) s"
  obtain s' eff where d: "drop_replay e ?s1 = (s', eff)" by (cases "drop_replay e ?s1")
  have s': "s' = fst (logDrops e (?s1\<lparr>s_dropReplay := s_dropReplay ?s1 + 1\<rparr>))"
    using d by (simp add: drop_replay_def)
  have "main_loop C e (Some pkt) s = (s', eff, Returned)"
    using assms d by (simp add: main_loop_def processPacket_def filtered_def replay_key_def Let_def)
  with silent_dropped(2) [OF d] assms show ?thesis by (simp add: s' filtered_def)
qed

lemma replayed_copies:
  assumes "filtered s pkt" and "map_of (s_peers s) (in_ShortID pkt) = Some r" and "\<not> p_cpLocked (s_store s r)"
    and "\<not> bloomCheck (s_bloom s) (replay_key pkt)"
  shows "\<exists>s' eff. main_loop_run C e (replicate n pkt) s = (s', eff, Returned) \<and> tun_writes eff = []
    \<and> p_CumRx (s_store s' r) = p_CumRx (s_store s r)"
  using assms
proof (induction n arbitrary: s)
  case (Suc n)
  from replayed_copy [OF Suc.prems, of C e] obtain s1 eff where 1: "main_loop C e (Some pkt) s = (s1, eff, Returned)" "silent eff"
    "filtered s1 pkt" "map_of (s_peers s1) (in_ShortID pkt) = Some r" "\<not> p_cpLocked (s_store s1 r)"
    "\<not> bloomCheck (s_bloom s1) (replay_key pkt)" "p_CumRx (s_store s1 r) = p_CumRx (s_store s r)" by blast
  from Suc.IH [OF 1(3-6)] 1(1,2,7) show ?case by (auto simp: tun_writes_silent)
qed simp

section \<open>Start-up\<close>

lemma add_peer_old:
  assumes "map_of (s_peers s) (p_ShortID p) = None" and "peers_inv s" and "map_of (s_peers s) k = Some r"
  shows "map_of (s_peers (add_peer p s)) k = Some r \<and> s_store (add_peer p s) r = s_store s r"
proof -
  from assms(2,3) have "r < s_nextRef s" unfolding peers_inv_def by blast
  with assms show ?thesis
    by (auto simp: add_peer_def Let_def update_conv' simp del: map_of_eq_Some_iff map_of_eq_None_iff)
qed

text \<open>Every configured user is filed with the key and context made from its secret.\<close>

lemma register_users_files:
  assumes "register_users C us s = Ok s'" and "peers_inv s" and "\<not> cfg_NoEncrypt (s_cfg s)"
  shows "(\<forall>k r. map_of (s_peers s) k = Some r \<longrightarrow> map_of (s_peers s') k = Some r \<and> s_store s' r = s_store s r)
    \<and> (\<forall>(u, seed) \<in> set us. \<exists>r cp. map_of (s_peers s') (u_ShortID u) = Some r \<and> \<not> p_cpLocked (s_store s' r)
         \<and> p_CP (s_store s' r) = Some cp \<and> NewCipherPack C (c_sha C (str_bytes (u_SecretKey u))) seed = Ok cp)
    \<and> s_cfg s' = s_cfg s \<and> s_routingSalt s' = s_routingSalt s \<and> s_bloom s' = s_bloom s"
  using assms
proof (induction us arbitrary: s)
  case (Cons x us)
  obtain u seed where x: "x = (u, seed)" by (cases x)
  let ?key = "c_sha C (str_bytes (u_SecretKey u))"
  from Cons.prems(1,3) obtain cp where cp: "NewCipherPack C ?key seed = Ok cp"
    and new: "map_of (s_peers s) (u_ShortID u) = None"
    and rest: "register_users C us (add_peer (new_peer (u_ShortID u) (u_Name u) (u_SecretKey u) ?key (Some cp) (u_IP u)) s) = Ok s'"
    by (cases "NewCipherPack C ?key seed")
      (auto simp: x Let_def split: if_splits simp del: map_of_eq_None_iff)
  define p where "p = new_peer (u_ShortID u) (u_Name u) (u_SecretKey u) ?key (Some cp) (u_IP u)"
  have sid: "p_ShortID p = u_ShortID u" "p_CP p = Some cp" "\<not> p_cpLocked p" by (simp_all add: p_def new_peer_def)
  have fresh: "map_of (s_peers s) (p_ShortID p) = None" using new sid(1) by simp
  note add = peers_inv_add_peer(1) [OF Cons.prems(2) fresh]
  have sel: "s_routingSalt (add_peer p s) = s_routingSalt s" by (simp add: add_peer_def Let_def)
  have filed: "map_of (s_peers (add_peer p s)) (u_ShortID u) = Some (s_nextRef s)"
      "s_store (add_peer p s) (s_nextRef s) = p"
    by (simp_all add: add_peer_def Let_def update_conv' sid(1) del: map_of_eq_Some_iff)
  note IH = Cons.IH [OF rest [folded p_def] add]
  have "\<forall>k r. map_of (s_peers s) k = Some r \<longrightarrow> map_of (s_peers s') k = Some r \<and> s_store s' r = s_store s r"
    using IH add_peer_old [OF fresh Cons.prems(2)] Cons.prems(3) by (metis add_peer_select(2))
  moreover have "map_of (s_peers s') (u_ShortID u) = Some (s_nextRef s)" "s_store s' (s_nextRef s) = p"
    using IH filed Cons.prems(3) by (metis add_peer_select(2))+
  ultimately show ?case
    using IH sid cp Cons.prems(3) sel by (auto simp: x simp del: map_of_eq_Some_iff)
qed simp

lemma register_users_inv:
  "register_users C us s = Ok s' \<Longrightarrow> server_inv s \<Longrightarrow> server_inv s'"
proof (induction us arbitrary: s)
  case (Cons x us)
  obtain u seed where x: "x = (u, seed)" by (cases x)
  let ?key = "c_sha C (str_bytes (u_SecretKey u))"
  from Cons.prems(1) obtain cp where nz: "u_ShortID u \<noteq> 0" and fresh: "map_of (s_peers s) (u_ShortID u) = None"
    and rest: "register_users C us (add_peer (new_peer (u_ShortID u) (u_Name u) (u_SecretKey u) ?key (Some cp) (u_IP u)) s) = Ok s'"
    by (cases "if cfg_NoEncrypt (s_cfg s) then Ok NewNoopCipherPack else NewCipherPack C ?key seed")
      (auto simp: x Let_def simp del: map_of_eq_None_iff split: if_splits)
  have "server_inv (add_peer (new_peer (u_ShortID u) (u_Name u) (u_SecretKey u) ?key (Some cp) (u_IP u)) s)"
    by (rule server_inv_add_peer [OF Cons.prems(2)])
      (use nz fresh in \<open>simp_all add: new_peer_def del: map_of_eq_None_iff\<close>)
  from Cons.IH [OF rest this] show ?case .
qed simp

text \<open>The contexts made from one secret, on both sides.\<close>

lemma NewCipherPack_std:
  "NewCipherPack C key seed = Ok cp \<Longrightarrow> length key = 32 \<Longrightarrow> std_ctx cp key key \<and> cp_PadMax cp \<le> 0"
  by (auto simp: NewCipherPack_def std_ctx_def Let_def split: if_splits prod.splits)

context crypto_laws
begin

lemma started_pair:
  assumes "register_users C us (init_server cfg) = Ok s" and "\<not> cfg_NoEncrypt cfg" and "(u, seed) \<in> set us"
    and "cfg_SecretKey ccfg = u_SecretKey u" and "cfg_ShortID ccfg = u_ShortID u"
    and "cfg_RoutingSalt ccfg = cfg_RoutingSalt cfg" and "\<not> cfg_NoEncrypt ccfg"
  shows "\<exists>r. paired s (New C seeds ccfg l) r (DeriveKey C (u_SecretKey u)) (DeriveKey C (u_SecretKey u))
    \<and> s_bloom s = bloom_zero"
proof -
  let ?key = "DeriveKey C (u_SecretKey u)"
  have key: "length ?key = 32" "c_key_ok C ?key" by (simp_all add: DeriveKey_def length_sha key32_ok)
  have init: "s_cfg (init_server cfg) = cfg" "s_routingSalt (init_server cfg) = cfg_RoutingSalt cfg"
      "s_bloom (init_server cfg) = bloom_zero" by (simp_all add: init_server_def)
  from register_users_files [OF assms(1) server_inv_peers_inv [OF server_inv_init]] assms(2,3)
  obtain r cp where r: "map_of (s_peers s) (u_ShortID u) = Some r" "\<not> p_cpLocked (s_store s r)"
      "p_CP (s_store s r) = Some cp" "NewCipherPack C ?key seed = Ok cp"
    and s: "s_cfg s = cfg" "s_routingSalt s = cfg_RoutingSalt cfg" "s_bloom s = bloom_zero"
    unfolding init DeriveKey_def by blast
  have v: "v_config (New C seeds ccfg l) = ccfg" by (cases seeds) (simp add: New_def Let_def)
  have "client_ctx (New C seeds ccfg l) ?key ?key"
    using New_client_ctx [of C ccfg seeds l] key assms(4,7) by simp
  then show ?thesis
    using r s assms(2,5,6) register_users_inv [OF assms(1) server_inv_init] NewCipherPack_std [OF r(4) key(1)]
    by (auto simp: paired_def v simp del: map_of_eq_Some_iff)
qed

end

section \<open>One packet and its copies\<close>

text \<open>The first copy of a genuine packet is delivered, the others are replays.\<close>

lemma deliver_copies:
  assumes "genuine go_crypto s p pt r key k" and "server_inv s" and "\<not> p_cpLocked (s_store s r)"
    and "bloomCheck (s_bloom s) (replay_key p)" and "e_tunOK e pt" and "pt \<noteq> []"
  shows "\<exists>s' eff. main_loop_run go_crypto e (replicate (Suc n) p) s = (s', eff, Returned) \<and> tun_writes eff = [pt]
    \<and> p_CumRx (s_store s' r) = p_CumRx (s_store s r) + of_nat (length pt)"
proof -
  define s1 where "s1 = fst (accept_packet go_crypto e False r (Some (replay_key p)) pt (upd_peer r (set_writer (in_Writer p)) s))"
  have first: "main_loop go_crypto e (Some p) s = (s1, [TunWrite pt], Returned)"
    using std.deliver_genuine [OF assms(1,3,4), of e] assms(5,6)
    by (simp add: main_loop_def s1_def accept_packet_def Let_def)
  have s1: "p_CumRx (s_store s1 r) = p_CumRx (s_store s r) + of_nat (length pt)" "\<not> p_cpLocked (s_store s1 r)"
    "s_peers s1 = s_peers s" "s_cfg s1 = s_cfg s" "\<not> bloomCheck (s_bloom s1) (replay_key p)"
    using assms(3,5,6) bloom.add_seen [OF server_invD(1) [OF assms(2)]]
    by (simp_all add: s1_def accept_packet_def Let_def count_in_def)
  have "filtered s1 p" using std.genuine_facts(1) [OF assms(1)] s1(4) by (simp add: filtered_def)
  moreover have "map_of (s_peers s1) (in_ShortID p) = Some r" using assms(1) s1(3) by (simp add: genuine_def)
  ultimately obtain s' eff where "main_loop_run go_crypto e (replicate n p) s1 = (s', eff, Returned)" "tun_writes eff = []"
    "p_CumRx (s_store s' r) = p_CumRx (s_store s1 r)"
    using replayed_copies [of s1 p r go_crypto e n] s1(2,5) by blast
  with first s1(1) show ?thesis by simp
qed

lemma clamp_fec_Suc: "\<exists>n. clamp_fec f = Suc n"
  by (rule not0_implies_Suc) (simp add: clamp_fec_def)

text \<open>The client's readers on a packet they can decrypt.\<close>

context crypto_laws
begin

lemma decrypt_Ok_length:
  assumes "std_ctx rcv key k" and "snd (Decrypt C rcv enc) = Ok pt"
  shows "18 \<le> length enc"
  using decrypt_standard_Ok [of rcv enc pt] assms by (auto simp: Decrypt_def std_ctx_def)

lemma reader_steps:
  assumes "v_decCP v = Some rcv" and "std_ctx rcv key k" and "snd (Decrypt C rcv enc) = Ok pt"
  shows "2 \<le> length pt \<Longrightarrow> \<not> v_stopping v \<Longrightarrow> win_reader_step C now True True (Some enc) v
      = (count_received (length pt) (v\<lparr>v_lastPacketRx := now\<rparr>), [TunSend pt], Continue)"
    and "2 \<le> length pt \<Longrightarrow> android_reader_step C now True (Some enc) v
      = (count_received (length pt) (v\<lparr>v_lastPacketRx := now\<rparr>), [TunSend pt], Continue)"
    and "pt = [1] \<Longrightarrow> win_reader_step C now True True (Some enc) v = (receive_echo now (v\<lparr>v_lastPacketRx := now\<rparr>), [], Continue)"
  using assms(1,3) decrypt_Ok_length [OF assms(2,3)]
  by (auto simp: win_reader_step_def android_reader_step_def client_decrypt_def Let_def)

end

section \<open>Streams of packets\<close>

text \<open>The writer loop over the packets of the session.\<close>

fun win_writer_run :: "crypto \<Rightarrow> (nat \<Rightarrow> byte) \<Rightarrow> bytes list \<Rightarrow> VPN \<Rightarrow> VPN \<times> client_effect list \<times> step_end" where
  "win_writer_run C padBuf [] v = (v, [], Continue)"
| "win_writer_run C padBuf (packet # packets) v =
     (let (v1, effs, en) = win_writer_step C padBuf packet v
      in if en \<noteq> Continue then (v1, effs, en)
         else let (v2, effs2, en2) = win_writer_run C padBuf packets v1 in (v2, effs @ effs2, en2))"

text \<open>The bytes the client wrote to its connection.\<close>

fun sent_bytes :: "client_effect list \<Rightarrow> bytes list" where
  "sent_bytes [] = []"
| "sent_bytes (ConnWrite c b # effs) = b # sent_bytes effs"
| "sent_bytes (_ # effs) = sent_bytes effs"

definition is_ipv4 :: "bytes \<Rightarrow> bool" where
  "is_ipv4 packet \<longleftrightarrow> 20 \<le> length packet \<and> drop_bit 4 (packet ! 0) = 4"

lemma sent_bytes_append [simp]: "sent_bytes (xs @ ys) = sent_bytes xs @ sent_bytes ys"
  by (induction xs rule: sent_bytes.induct) simp_all

lemma sent_bytes_replicate [simp]: "sent_bytes (replicate n (ConnWrite c b)) = replicate n b"
  by (induction n) simp_all

lemma main_loop_run_append:
  "main_loop_run C e (ps @ qs) s =
    (let (s1, eff, en) = main_loop_run C e ps s
     in if en \<noteq> Returned then (s1, eff, en)
        else let (s2, eff2, en2) = main_loop_run C e qs s1 in (s2, eff @ eff2, en2))"
  by (induction ps arbitrary: s) (auto simp: Let_def split: prod.split)

lemma paired_keeps:
  assumes "paired s v r key k" and "keeps s s'" and "\<not> p_cpLocked (s_store s' r)"
  shows "paired s' v r key k"
proof -
  obtain cp where cp: "p_CP (s_store s r) = Some cp" "std_ctx cp key k" "cp_PadMax cp \<le> 0"
    using assms(1) by (auto simp: paired_def)
  have "same_cp (p_CP (s_store s r)) (p_CP (s_store s' r))" using assms(2) by (simp add: keeps_def same_peer_def)
  then obtain cp' where "p_CP (s_store s' r) = Some cp'" "std_ctx cp' key k" "cp_PadMax cp' \<le> 0"
    using cp by (auto simp: same_cp_def std_ctx_def split: option.splits)
  moreover have "server_inv s'" using assms(1,2) keeps_server_inv by (auto simp: paired_def)
  ultimately show ?thesis using assms by (auto simp: paired_def keeps_def)
qed

text \<open>One genuine packet with content, fresh or not.\<close>

lemma main_loop_genuine:
  assumes "genuine go_crypto s p pt r key k" and "server_inv s" and "\<not> p_cpLocked (s_store s r)" and "pt \<noteq> []"
  shows "\<exists>s' eff. main_loop go_crypto e (Some p) s = (s', eff, Returned) \<and> keeps s s' \<and> \<not> p_cpLocked (s_store s' r)
    \<and> tun_writes eff \<in> {[], [pt]} \<and> filtered s' p \<and> map_of (s_peers s') (in_ShortID p) = Some r
    \<and> \<not> bloomCheck (s_bloom s') (replay_key p)"
proof -
  have f: "filtered s p" by (rule std.genuine_facts(1) [OF assms(1)])
  have m: "map_of (s_peers s) (in_ShortID p) = Some r" and q: "\<not> in_IsQUIC p" using assms(1) by (simp_all add: genuine_def)
  note len = server_invD(1) [OF assms(2)]
  show ?thesis
  proof (cases "bloomCheck (s_bloom s) (replay_key p)")
    case True
    define s1 where "s1 = fst (accept_packet go_crypto e False r (Some (replay_key p)) pt (upd_peer r (set_writer (in_Writer p)) s))"
    obtain eff where D: "main_loop go_crypto e (Some p) s = (s1, eff, Returned)" "tun_writes eff \<in> {[], [pt]}"
      using std.deliver_genuine [OF assms(1,3) True, of e] assms(4)
      by (cases "e_tunOK e pt") (auto simp: main_loop_def s1_def accept_packet_def Let_def)
    have K: "keeps s s1" using keeps_processPacket [OF q, of s go_crypto e] D(1) by (simp add: main_loop_def)
    have "\<not> p_cpLocked (s_store s1 r)" "\<not> bloomCheck (s_bloom s1) (replay_key p)"
      using assms(3,4) bloom.add_seen [OF len] by (simp_all add: s1_def accept_packet_def Let_def count_in_def)
    with D K f m show ?thesis by (auto simp: filtered_def keeps_def)
  next
    case False
    from replayed_copy [OF f m assms(3) this, of go_crypto e] obtain s' eff where
      D: "main_loop go_crypto e (Some p) s = (s', eff, Returned)" "silent eff" "filtered s' p"
      "map_of (s_peers s') (in_ShortID p) = Some r" "\<not> p_cpLocked (s_store s' r)" "\<not> bloomCheck (s_bloom s') (replay_key p)"
      by blast
    have "keeps s s'" using keeps_processPacket [OF q, of s go_crypto e] D(1) by (simp add: main_loop_def)
    with D tun_writes_silent [OF D(2)] show ?thesis by blast
  qed
qed

lemma replayed_copies_keep:
  assumes "filtered s p" and "map_of (s_peers s) (in_ShortID p) = Some r" and "\<not> p_cpLocked (s_store s r)"
    and "\<not> bloomCheck (s_bloom s) (replay_key p)" and "\<not> in_IsQUIC p"
  shows "\<exists>s' eff. main_loop_run C e (replicate n p) s = (s', eff, Returned) \<and> tun_writes eff = []
    \<and> keeps s s' \<and> \<not> p_cpLocked (s_store s' r)"
  using assms
proof (induction n arbitrary: s)
  case (Suc n)
  from replayed_copy [OF Suc.prems(1-4), of C e] obtain s1 eff where 1: "main_loop C e (Some p) s = (s1, eff, Returned)" "silent eff"
    "filtered s1 p" "map_of (s_peers s1) (in_ShortID p) = Some r" "\<not> p_cpLocked (s_store s1 r)"
    "\<not> bloomCheck (s_bloom s1) (replay_key p)" by blast
  have K: "keeps s s1" using keeps_processPacket [OF Suc.prems(5), of s C e] 1(1) by (simp add: main_loop_def)
  from Suc.IH [OF 1(3-6) Suc.prems(5)] obtain s' eff2 where
    "main_loop_run C e (replicate n p) s1 = (s', eff2, Returned)" "tun_writes eff2 = []" "keeps s1 s'" "\<not> p_cpLocked (s_store s' r)"
    by blast
  with 1(1,2) keeps_trans [OF K] show ?case by (simp add: tun_writes_silent)
qed simp

lemma copies_keep:
  assumes "genuine go_crypto s p pt r key k" and "paired s v r key k" and "pt \<noteq> []"
  shows "\<exists>s' eff. main_loop_run go_crypto e (replicate n p) s = (s', eff, Returned) \<and> tun_writes eff \<in> {[], [pt]}
    \<and> paired s' v r key k \<and> s_routingSalt s' = s_routingSalt s"
proof (cases n)
  case 0
  then show ?thesis using assms(2) by simp
next
  case (Suc m)
  have l: "server_inv s" "\<not> p_cpLocked (s_store s r)" using assms(2) by (simp_all add: paired_def)
  have q: "\<not> in_IsQUIC p" using assms(1) by (simp add: genuine_def)
  from main_loop_genuine [OF assms(1) l assms(3), of e] obtain s1 eff where 1: "main_loop go_crypto e (Some p) s = (s1, eff, Returned)"
    "keeps s s1" "\<not> p_cpLocked (s_store s1 r)" "tun_writes eff \<in> {[], [pt]}" "filtered s1 p"
    "map_of (s_peers s1) (in_ShortID p) = Some r" "\<not> bloomCheck (s_bloom s1) (replay_key p)" by blast
  from replayed_copies_keep [OF 1(5,6,3,7) q, of go_crypto e m] obtain s2 eff2 where
    2: "main_loop_run go_crypto e (replicate m p) s1 = (s2, eff2, Returned)" "tun_writes eff2 = []" "keeps s1 s2" "\<not> p_cpLocked (s_store s2 r)"
    by blast
  note K = keeps_trans [OF 1(2) 2(3)]
  have "main_loop_run go_crypto e (replicate n p) s = (s2, eff @ eff2, Returned)" using 1(1) 2(1) Suc by simp
  moreover have "tun_writes (eff @ eff2) \<in> {[], [pt]}" using 1(4) 2(2) by auto
  moreover have "paired s2 v r key k" by (rule paired_keeps [OF assms(2) K 2(4)])
  moreover have "s_routingSalt s2 = s_routingSalt s" using K by (simp add: keeps_def)
  ultimately show ?thesis by blast
qed

text \<open>The reader on copies of one message.\<close>

lemma ws_reader_run_append:
  "snd (ws_reader_run salt (xs @ ys) w) = snd (ws_reader_run salt xs w) @ snd (ws_reader_run salt ys (fst (ws_reader_run salt xs w)))"
  by (induction xs arbitrary: w) (simp_all add: case_prod_beta)

lemma wr_conn_step [simp]: "wr_conn (fst (ws_reader_step salt msg w)) = wr_conn w"
  by (simp add: ws_reader_step_def Let_def)

lemma wr_conn_run [simp]: "wr_conn (fst (ws_reader_run salt ms w)) = wr_conn w"
  by (induction ms arbitrary: w) (simp_all add: case_prod_beta)

lemma ws_reader_run_copies:
  assumes "\<And>w. snd (ws_reader_step salt m w) = Some (f (wr_conn w))"
  shows "snd (ws_reader_run salt (replicate n m) w) = replicate n (f (wr_conn w))"
  by (induction n arbitrary: w) (simp_all add: case_prod_beta assms)

text \<open>One packet from the client's device to the server's.\<close>

lemma client_packet_through:
  assumes "paired s v r key k" and "v_conn v = Some conn" and "length packet \<le> 65493"
  shows "\<exists>v1 effs s1 eff. win_writer_step go_crypto padBuf packet v = (v1, effs, Continue)
    \<and> main_loop_run go_crypto e (snd (ws_reader_run (s_routingSalt s) (sent_bytes effs) w)) s = (s1, eff, Returned)
    \<and> subseq (tun_writes eff) (filter is_ipv4 [packet])
    \<and> paired s1 v1 r key k \<and> v_conn v1 = Some conn \<and> s_routingSalt s1 = s_routingSalt s"
proof (cases "is_ipv4 packet")
  case False
  then have "win_writer_step go_crypto padBuf packet v = (v, [], Continue)"
    by (auto simp: win_writer_step_def is_ipv4_def)
  then show ?thesis using assms(1,2) by simp
next
  case True
  let ?p = "\<lambda>pkt c. \<lparr>in_Data = pkt, in_Writer = Some (WSSPeerConn c), in_ShortID = cfg_ShortID (v_config v), in_IsQUIC = False\<rparr>"
  obtain enc c where E: "client_encrypt go_crypto padBuf v (v_encCP v) packet = (Ok enc, Some c, v_quic v)"
    and C: "std_ctx c key k" "cp_PadMax c \<le> 0"
    and R: "\<And>w. snd (ws_reader_step (s_routingSalt s) enc w) = Some (?p enc (wr_conn w))"
    and G: "genuine go_crypto s (?p enc (wr_conn w)) packet r key k"
    using std.client_packet [OF assms(1) _ assms(3), of "v_encCP v" padBuf] by blast
  let ?n = "clamp_fec (cfg_FEC (v_config v))"
  define v1 where "v1 = count_sent (length enc) (v\<lparr>v_encCP := Some c, v_quic := v_quic v\<rparr>)"
  have W: "win_writer_step go_crypto padBuf packet v = (v1, replicate ?n (ConnWrite conn enc), Continue)"
    using True assms(2) E by (simp add: win_writer_step_def is_ipv4_def v1_def)
  have v1: "v_conn v1 = Some conn" "v_config v1 = v_config v" "client_ctx v1 key k"
    using assms(1,2) C by (auto simp: v1_def count_sent_def paired_def client_ctx_def)
  have "packet \<noteq> []" using True by (auto simp: is_ipv4_def)
  from copies_keep [OF G assms(1) this, of e ?n] obtain s1 eff where
    "main_loop_run go_crypto e (replicate ?n (?p enc (wr_conn w))) s = (s1, eff, Returned)" "tun_writes eff \<in> {[], [packet]}"
    "paired s1 v r key k" "s_routingSalt s1 = s_routingSalt s" by blast
  moreover have "snd (ws_reader_run (s_routingSalt s) (sent_bytes (replicate ?n (ConnWrite conn enc))) w)
      = replicate ?n (?p enc (wr_conn w))"
    using ws_reader_run_copies [where f = "?p enc", OF R] by simp
  moreover have "paired s1 v1 r key k" using calculation(3) v1 by (simp add: paired_def)
  moreover have "subseq (tun_writes eff) (filter is_ipv4 [packet])" using calculation(2) True by auto
  ultimately show ?thesis using W v1(1) by metis
qed

lemma client_stream:
  assumes "paired s v r key k" and "v_conn v = Some conn" and "\<forall>packet \<in> set packets. length packet \<le> 65493"
  shows "\<exists>v' effs s' eff. win_writer_run go_crypto padBuf packets v = (v', effs, Continue)
    \<and> main_loop_run go_crypto e (snd (ws_reader_run (s_routingSalt s) (sent_bytes effs) w)) s = (s', eff, Returned)
    \<and> subseq (tun_writes eff) (filter is_ipv4 packets) \<and> paired s' v' r key k"
  using assms
proof (induction packets arbitrary: s v w)
  case (Cons packet packets)
  from client_packet_through [OF Cons.prems(1,2), of packet padBuf e w] Cons.prems(3)
  obtain v1 effs s1 eff where 1: "win_writer_step go_crypto padBuf packet v = (v1, effs, Continue)"
    "main_loop_run go_crypto e (snd (ws_reader_run (s_routingSalt s) (sent_bytes effs) w)) s = (s1, eff, Returned)"
    "subseq (tun_writes eff) (filter is_ipv4 [packet])" "paired s1 v1 r key k" "v_conn v1 = Some conn"
    "s_routingSalt s1 = s_routingSalt s" by auto
  define w1 where "w1 = fst (ws_reader_run (s_routingSalt s) (sent_bytes effs) w)"
  from Cons.IH [OF 1(4,5), of w1] Cons.prems(3)
  obtain v2 effs2 s2 eff2 where 2: "win_writer_run go_crypto padBuf packets v1 = (v2, effs2, Continue)"
    "main_loop_run go_crypto e (snd (ws_reader_run (s_routingSalt s1) (sent_bytes effs2) w1)) s1 = (s2, eff2, Returned)"
    "subseq (tun_writes eff2) (filter is_ipv4 packets)" "paired s2 v2 r key k" by auto
  have "main_loop_run go_crypto e (snd (ws_reader_run (s_routingSalt s) (sent_bytes (effs @ effs2)) w)) s = (s2, eff @ eff2, Returned)"
    using 1(2,6) 2(2) by (simp add: ws_reader_run_append main_loop_run_append w1_def)
  moreover have "subseq (tun_writes (eff @ eff2)) (filter is_ipv4 (packet # packets))"
    using list_emb_append_mono [OF 1(3) 2(3)] by (cases "is_ipv4 packet") simp_all
  ultimately show ?case using 1(1) 2(1,4) by auto
qed simp

section \<open>Samples\<close>

definition sample_user :: User where
  "sample_user = \<lparr>u_ShortID = 3, u_Name = ''alice'', u_SecretKey = ''secret'', u_IP = ''10.0.0.5''\<rparr>"

definition sample_client_cfg :: Config where
  "sample_client_cfg = zero_Config\<lparr>cfg_SecretKey := ''secret'', cfg_ShortID := 3\<rparr>"

lemma sample_started: "\<exists>s. register_users go_crypto [(sample_user, 7)] (init_server zero_Config) = Ok s"
  using register_users_Ok [of go_crypto "[(sample_user, 7)]" "init_server zero_Config"]
    server_inv_peers_inv [OF server_inv_init, of zero_Config]
  by (auto simp: sample_user_def init_server_def peers_have_cp_def std.key32_ok std.length_sha)

text \<open>A client and a server that share a key, as after start-up.\<close>

lemma sample_pair:
  obtains s r where "paired s (New go_crypto (1, 2, 3) sample_client_cfg True) r (DeriveKey go_crypto ''secret'') (DeriveKey go_crypto ''secret'')"
    and "s_bloom s = bloom_zero"
proof -
  obtain s where s: "register_users go_crypto [(sample_user, 7)] (init_server zero_Config) = Ok s"
    using sample_started by blast
  have "\<not> cfg_NoEncrypt zero_Config" by (simp add: zero_Config_def)
  from std.started_pair [OF s this, of sample_user 7 sample_client_cfg "(1, 2, 3)" True] that show ?thesis
    by (auto simp: sample_user_def sample_client_cfg_def zero_Config_def)
qed

lemma paired_cong:
  "v_config v' = v_config v \<Longrightarrow> v_encCP v' = v_encCP v \<Longrightarrow> v_decCP v' = v_decCP v \<Longrightarrow> v_pingCP v' = v_pingCP v \<Longrightarrow>
    paired s v' r key k \<longleftrightarrow> paired s v r key k"
  by (simp add: paired_def client_ctx_def)

end
