(* ===== verification/Gui.thy ===== *)
theory Gui
  imports Lifecycle
begin

text \<open>
  The desktop application behind the window (\<^verbatim>\<open>gui/app.go\<close>): the connect and disconnect
  buttons over the client engine, the settings they use, the events sent to the window, the
  address presets and the aggregation of the downloaded list. Its profile files are in the
  theory \<open>Profiles\<close>.
\<close>

section \<open>State\<close>

text \<open>\<open>app_plat\<close> is the package variable \<^verbatim>\<open>plat\<close> of the core, which outlives every engine.\<close>

record App =
  app_vpn :: "VPN option"
  app_plat :: winPlatform
  app_killSwitchEnabled :: bool
  app_bypassMode :: string
  app_bypassCIDRs :: "string list"
  app_vpnCIDRs :: "string list"

definition NewApp :: "winPlatform \<Rightarrow> App" where
  "NewApp plat = \<lparr>app_vpn = None, app_plat = plat, app_killSwitchEnabled = True, app_bypassMode = [],
     app_bypassCIDRs = [], app_vpnCIDRs = []\<rparr>"

definition IsConnected :: "App \<Rightarrow> bool" where
  "IsConnected a = (case app_vpn a of None \<Rightarrow> False | Some v \<Rightarrow> v_running v)"

section \<open>Events for the window\<close>

datatype ui_event =
    EvStatus string "64 word" "64 word" "64 word" "64 word" int "nat \<times> nat"
  | EvStatusText string
  | EvConnection string
  | EvTraffic "64 word" "64 word" "64 word" "64 word"
  | EvPing int "nat \<times> nat"

text \<open>\<^verbatim>\<open>vpnListener.OnStatus\<close> for one effect of the engine.\<close>

fun OnStatus_ui :: "client_effect \<Rightarrow> ui_event list" where
  "OnStatus_ui (OnStatus status tx rx ttx trx ping loss) =
     EvStatus status tx rx ttx trx ping loss
     # (if status \<in> {''reconnecting'', ''connected'', ''disconnected''} then [EvConnection status] else [])
     @ (if status = ''traffic'' then [EvTraffic tx rx ttx trx, EvPing ping loss] else [])"
| "OnStatus_ui _ = []"

definition ui_events :: "client_effect list \<Rightarrow> ui_event list" where
  "ui_events effs = concat (map OnStatus_ui effs)"

section \<open>Connecting\<close>

record connect_args =
  ca_serverIP :: string
  ca_secretKey :: string
  ca_routingSalt :: string
  ca_internalIP :: string
  ca_gatewayIP :: string
  ca_dns :: string
  ca_transport :: string
  ca_cdnDomain :: string
  ca_port :: int
  ca_shortID :: "16 word"

definition connect_config :: "connect_args \<Rightarrow> App \<Rightarrow> Config" where
  "connect_config r a = zero_Config\<lparr>cfg_ServerIP := ca_serverIP r, cfg_Port := ca_port r, cfg_ShortID := ca_shortID r,
     cfg_SecretKey := ca_secretKey r, cfg_RoutingSalt := ca_routingSalt r, cfg_InternalIP := ca_internalIP r,
     cfg_GatewayIP := ca_gatewayIP r, cfg_DNS := ca_dns r, cfg_Transport := ca_transport r, cfg_CDNDomain := ca_cdnDomain r,
     cfg_BypassMode := app_bypassMode a, cfg_BypassCIDRs := app_bypassCIDRs a, cfg_VPNCIDRs := app_vpnCIDRs a\<rparr>"

text \<open>An engine whose start failed is dropped. Results: the answer, the application, the
  engine's effects.\<close>

definition DoConnect ::
  "crypto \<Rightarrow> 64 word \<times> 64 word \<times> 64 word \<Rightarrow> win_env \<Rightarrow> int \<Rightarrow> connect_args \<Rightarrow> App \<Rightarrow> string \<times> App \<times> client_effect list" where
  "DoConnect C seeds e nowMs r a =
     (if IsConnected a then (''already connected'', a, [])
      else let vpn = SetKillSwitchEnabled (app_killSwitchEnabled a) (New C seeds (connect_config r a) True);
               (err, p, v, effs) = Start (win_ops e) nowMs (app_plat a) vpn
           in case err of
                Some m \<Rightarrow> (m, a\<lparr>app_plat := p\<rparr>, effs)
              | None \<Rightarrow> (''connected'', a\<lparr>app_plat := p, app_vpn := Some v\<rparr>, effs))"

text \<open>The last components: the events for the window, and whether closing a channel panicked.\<close>

definition DoDisconnect :: "win_env \<Rightarrow> App \<Rightarrow> string \<times> App \<times> client_effect list \<times> ui_event list \<times> bool" where
  "DoDisconnect e a =
     (case app_vpn a of
        None \<Rightarrow> (''not connected'', a, [], [], False)
      | Some v \<Rightarrow>
          if \<not> v_running v then (''not connected'', a, [], [], False)
          else let (p, v', effs, panic) = Stop (win_ops e) (app_plat a) v
               in if panic then ([], a\<lparr>app_plat := p, app_vpn := Some v'\<rparr>, effs, ui_events effs, True)
                  else (''disconnected'', a\<lparr>app_plat := p, app_vpn := None\<rparr>, effs,
                        ui_events effs @ [EvStatusText ''disconnected''], False))"

definition shutdown :: "win_env \<Rightarrow> App \<Rightarrow> App \<times> client_effect list \<times> bool" where
  "shutdown e a =
     (case app_vpn a of
        None \<Rightarrow> (a, [], False)
      | Some v \<Rightarrow>
          let (p, v', effs, panic) = Destroy (win_ops e) (app_plat a) v
          in (a\<lparr>app_plat := p, app_vpn := Some v'\<rparr>, effs, panic))"

definition App_SetKillSwitchEnabled :: "bool \<Rightarrow> App \<Rightarrow> App" where
  "App_SetKillSwitchEnabled enable a = a\<lparr>app_killSwitchEnabled := enable\<rparr>"

definition SetBypassMode :: "string \<Rightarrow> App \<Rightarrow> App" where
  "SetBypassMode mode a = a\<lparr>app_bypassMode := mode\<rparr>"

definition SetBypassCIDRs :: "string list \<Rightarrow> App \<Rightarrow> App" where
  "SetBypassCIDRs cidrs a = a\<lparr>app_bypassCIDRs := cidrs\<rparr>"

definition SetVPNCIDRs :: "string list \<Rightarrow> App \<Rightarrow> App" where
  "SetVPNCIDRs cidrs a = a\<lparr>app_vpnCIDRs := cidrs\<rparr>"

section \<open>Runs of the application\<close>

text \<open>Besides the calls of the window, a round of the ping loop of the current engine.\<close>

datatype gui_event =
    GConnect "64 word \<times> 64 word \<times> 64 word" int connect_args
  | GDisconnect
  | GShutdown
  | GKillSwitch bool
  | GBypassMode string
  | GBypassCIDRs "string list"
  | GVPNCIDRs "string list"
  | GPingRound "nat \<Rightarrow> byte" int bool

fun gui_step :: "win_env \<Rightarrow> gui_event \<Rightarrow> App \<Rightarrow> App \<times> client_effect list \<times> bool" where
  "gui_step e (GConnect seeds now r) a = (let (ans, a', effs) = DoConnect go_crypto seeds e now r a in (a', effs, False))"
| "gui_step e GDisconnect a = (let (ans, a', effs, ui, panic) = DoDisconnect e a in (a', effs, panic))"
| "gui_step e GShutdown a = shutdown e a"
| "gui_step e (GKillSwitch b) a = (App_SetKillSwitchEnabled b a, [], False)"
| "gui_step e (GBypassMode m) a = (SetBypassMode m a, [], False)"
| "gui_step e (GBypassCIDRs cs) a = (SetBypassCIDRs cs a, [], False)"
| "gui_step e (GVPNCIDRs cs) a = (SetVPNCIDRs cs a, [], False)"
| "gui_step e (GPingRound padBuf nowNs wasDead) a =
     (case app_vpn a of
        None \<Rightarrow> (a, [], False)
      | Some v \<Rightarrow>
          let (wd, p, v', effs, en) = ping_round (win_ops e) go_crypto padBuf nowNs wasDead (app_plat a) v
          in (a\<lparr>app_plat := p, app_vpn := Some v'\<rparr>, effs, en = ProcPanic))"

fun gui_run :: "(win_env \<times> gui_event) list \<Rightarrow> App \<Rightarrow> App \<times> client_effect list \<times> bool" where
  "gui_run [] a = (a, [], False)"
| "gui_run ((e, ev) # evs) a =
     (let (a1, effs, panic) = gui_step e ev a
      in if panic then (a1, effs, True)
         else let (a2, effs2, panic2) = gui_run evs a1 in (a2, effs @ effs2, panic2))"

text \<open>The engine, if there is one, is in a consistent state and its contexts work.\<close>

definition has_ctx :: "VPN \<Rightarrow> bool" where
  "has_ctx v \<longleftrightarrow> (\<exists>key k. client_ctx v key k)"

definition app_inv :: "App \<Rightarrow> bool" where
  "app_inv a \<longleftrightarrow> (\<forall>v. app_vpn a = Some v \<longrightarrow> client_inv v \<and> has_ctx v)"

definition running :: "App \<Rightarrow> int" where
  "running a = (if IsConnected a then 1 else 0)"

lemma New_works: "\<not> cfg_NoEncrypt cfg \<Longrightarrow> \<exists>key. client_ctx (New go_crypto seeds cfg l) key key"
  using New_client_ctx [of go_crypto cfg seeds l] by (auto simp: DeriveKey_def std.length_sha std.key32_ok)

lemma DoConnect_step:
  assumes "app_inv a" and "DoConnect go_crypto seeds e now r a = (ans, a', effs)"
  shows "app_inv a' \<and> balance effs = running a' - running a"
proof (cases "IsConnected a")
  case False
  define v where "v = SetKillSwitchEnabled (app_killSwitchEnabled a) (New go_crypto seeds (connect_config r a) True)"
  have inv: "client_inv v" "\<not> v_running v"
    using New_stopped [of go_crypto seeds "connect_config r a" True]
    by (simp_all add: v_def SetKillSwitchEnabled_def client_inv_def)
  have "\<not> cfg_NoEncrypt (connect_config r a)" by (simp add: connect_config_def zero_Config_def)
  from New_works [OF this, of seeds True] obtain key where
    "client_ctx (New go_crypto seeds (connect_config r a) True) key key" by blast
  then have ctx: "client_ctx v key key"
    by (simp add: v_def SetKillSwitchEnabled_def client_ctx_def)
  obtain err p v' f where S: "Start (win_ops e) now (app_plat a) v = (err, p, v', f)"
    by (cases "Start (win_ops e) now (app_plat a) v") auto
  note s = win.Start_inv [OF inv S]
  have ctx': "has_ctx v'"
    using client_ctx_ciphers [OF win.Start_ciphers [OF S], of key key] ctx unfolding has_ctx_def by blast
  show ?thesis
    using assms False S s ctx' unfolding DoConnect_def v_def [symmetric] Let_def
    by (cases err) (auto simp: app_inv_def running_def IsConnected_def)
qed (use assms in \<open>simp add: DoConnect_def\<close>)

lemma DoDisconnect_step:
  assumes "app_inv a" and "DoDisconnect e a = (ans, a', effs, ui, panic)"
  shows "\<not> panic \<and> app_inv a' \<and> balance effs = running a' - running a \<and> \<not> IsConnected a'
    \<and> (IsConnected a \<longrightarrow> app_vpn a' = None)"
proof (cases "app_vpn a")
  case (Some v)
  show ?thesis
  proof (cases "v_running v")
    case True
    obtain p v' f b where S: "Stop (win_ops e) (app_plat a) v = (p, v', f, b)"
      by (cases "Stop (win_ops e) (app_plat a) v") auto
    from assms(1) Some have "client_inv v" by (simp add: app_inv_def)
    note s = win.Stop_inv [OF this S]
    from s have nb: "\<not> b" by blast
    have "a' = a\<lparr>app_plat := p, app_vpn := None\<rparr>" "effs = f" "\<not> panic"
      using assms(2) Some True S nb by (simp_all add: DoDisconnect_def)
    with s Some True show ?thesis by (simp add: app_inv_def running_def IsConnected_def)
  next
    case False
    with assms Some show ?thesis by (auto simp: DoDisconnect_def running_def IsConnected_def)
  qed
qed (use assms in \<open>auto simp: DoDisconnect_def running_def IsConnected_def\<close>)

lemma shutdown_step:
  assumes "app_inv a" and "shutdown e a = (a', effs, panic)"
  shows "\<not> panic \<and> app_inv a' \<and> balance effs = running a' - running a \<and> \<not> IsConnected a'"
proof (cases "app_vpn a")
  case (Some v)
  obtain p v' f b where S: "Stop (win_ops e) (app_plat a) v = (p, v', f, b)"
    by (cases "Stop (win_ops e) (app_plat a) v") auto
  obtain p2 f2 where D: "po_destroy (win_ops e) p = (p2, f2)" by (cases "po_destroy (win_ops e) p") auto
  from assms(1) Some obtain key k where inv: "client_inv v" "client_ctx v key k" by (auto simp: app_inv_def has_ctx_def)
  note s = win.Stop_inv [OF inv(1) S] client_ctx_ciphers [OF win.Stop_ciphers [OF S], of key k]
  from s have nb: "\<not> b" by blast
  have "a' = a\<lparr>app_plat := p2, app_vpn := Some v'\<rparr>" "effs = f @ f2" "\<not> panic"
    using assms(2) Some S D nb by (simp_all add: shutdown_def Destroy_def)
  moreover have "balance f2 = 0" using win.destroy_quiet [OF D] by (simp add: quiet_def)
  moreover have "has_ctx v'" using s inv(2) unfolding has_ctx_def by blast
  ultimately show ?thesis using s Some by (auto simp: app_inv_def running_def IsConnected_def)
qed (use assms in \<open>auto simp: shutdown_def running_def IsConnected_def\<close>)

lemma gui_step_inv:
  assumes "app_inv a" and "gui_step e ev a = (a', effs, panic)"
  shows "\<not> panic \<and> app_inv a' \<and> balance effs = running a' - running a"
proof (cases ev)
  case (GConnect seeds now r)
  obtain ans a2 f where C: "DoConnect go_crypto seeds e now r a = (ans, a2, f)"
    by (cases "DoConnect go_crypto seeds e now r a") auto
  from DoConnect_step [OF assms(1) C] assms(2) C GConnect show ?thesis by simp
next
  case GDisconnect
  obtain ans a2 f ui b where D: "DoDisconnect e a = (ans, a2, f, ui, b)" by (cases "DoDisconnect e a") auto
  from DoDisconnect_step [OF assms(1) D] assms(2) D GDisconnect show ?thesis by simp
next
  case GShutdown
  with assms shutdown_step [of a e a' effs panic] show ?thesis by simp
next
  case (GPingRound padBuf nowNs wasDead)
  show ?thesis
  proof (cases "app_vpn a")
    case None
    with assms GPingRound show ?thesis by simp
  next
    case (Some v)
    then obtain key k where inv: "client_inv v" "client_ctx v key k" using assms(1) by (auto simp: app_inv_def has_ctx_def)
    obtain wd p v' f en where P: "ping_round (win_ops e) go_crypto padBuf nowNs wasDead (app_plat a) v = (wd, p, v', f, en)"
      by (cases "ping_round (win_ops e) go_crypto padBuf nowNs wasDead (app_plat a) v") auto
    note r = win.ping_round_inv [OF inv P]
    then have "has_ctx v'" unfolding has_ctx_def by blast
    with r assms(2) GPingRound Some P show ?thesis
      by (auto simp: app_inv_def running_def IsConnected_def)
  qed
qed (use assms in \<open>auto simp: app_inv_def running_def IsConnected_def App_SetKillSwitchEnabled_def
    SetBypassMode_def SetBypassCIDRs_def SetVPNCIDRs_def\<close>)

lemma gui_run_inv:
  "app_inv a \<Longrightarrow> gui_run evs a = (a', effs, panic) \<Longrightarrow> \<not> panic \<and> app_inv a' \<and> balance effs = running a' - running a"
proof (induction evs arbitrary: a a' effs panic)
  case (Cons x evs)
  obtain e ev where x: "x = (e, ev)" by (cases x)
  obtain a1 f1 b1 where s: "gui_step e ev a = (a1, f1, b1)" by (cases "gui_step e ev a") auto
  note 1 = gui_step_inv [OF Cons.prems(1) s]
  obtain a2 f2 b2 where r: "gui_run evs a1 = (a2, f2, b2)" by (cases "gui_run evs a1") auto
  from 1 have i: "\<not> b1" "app_inv a1" by blast+
  with Cons.prems(2) x s r have "a' = a2" "effs = f1 @ f2" "panic = b2" by simp_all
  with Cons.IH [OF i(2) r] 1 show ?case by simp
qed simp

section \<open>Presets and the downloaded list\<close>

definition RussianBankCIDRs :: "string list" where
  "RussianBankCIDRs =
     [''5.45.192.0/24'', ''5.45.200.0/21'', ''5.45.208.0/20'', ''5.45.224.0/19'', ''62.105.0.0/16'', 
      ''185.57.84.0/22'', ''62.109.0.0/16'', ''195.208.128.0/18'', ''77.242.0.0/16'', ''94.51.0.0/16'', 
      ''91.228.176.0/20'', ''178.204.0.0/16'', ''5.43.0.0/16'', ''195.19.0.0/16'', ''95.165.0.0/16'', 
      ''81.9.0.0/16'', ''85.143.0.0/16'', ''212.16.0.0/16'', ''87.244.0.0/16'', ''77.50.0.0/16'', 
      ''93.123.0.0/16'', ''95.163.0.0/16'', ''195.216.0.0/16'', ''94.124.0.0/16'', ''85.113.0.0/16'', 
      ''195.162.0.0/16'', ''185.136.0.0/16'']"

definition GameAntiVPNPreset :: "string list" where
  "GameAntiVPNPreset =
     [''104.16.0.0/12'', ''151.101.0.0/16'', ''3.112.0.0/14'', ''52.84.0.0/15'', ''54.192.0.0/12'', 
      ''13.32.0.0/15'', ''162.159.0.0/16'']"

text \<open>The loop over the words of the downloaded text; the keys of \<^verbatim>\<open>unique\<close> are always the
  members of \<open>cidrs\<close>.\<close>

fun antifilter_loop :: "string list \<Rightarrow> string list \<Rightarrow> string list" where
  "antifilter_loop [] cidrs = cidrs"
| "antifilter_loop (line # lines) cidrs =
     (let cidr = TrimSpace line
      in if HasSuffix cidr ''/24''
         then let base = take (length cidr - 3) cidr; parts = SplitN base CHR ''.'' 3
              in if 2 \<le> length parts
                 then let agg = parts ! 0 @ ''.'' @ parts ! 1 @ ''.0.0/16''
                      in antifilter_loop lines (if agg \<in> set cidrs then cidrs else cidrs @ [agg])
                 else antifilter_loop lines cidrs
         else antifilter_loop lines (if cidr \<in> set cidrs then cidrs else cidrs @ [cidr]))"

text \<open>\<open>resp\<close>: the body, or the error of the request or of reading it.\<close>

definition DownloadAntiFilter :: "string + string \<Rightarrow> string list outcome" where
  "DownloadAntiFilter resp =
     (case resp of
        Inl err \<Rightarrow> Err err
      | Inr body \<Rightarrow> Ok (antifilter_loop (Split (TrimSpace body) CHR '' '') []))"

text \<open>Specification: the widened form of one word, if it has one.\<close>

definition widen :: "string \<Rightarrow> string option" where
  "widen cidr =
     (if HasSuffix cidr ''/24''
      then case SplitN (take (length cidr - 3) cidr) CHR ''.'' 3 of
             a # b # _ \<Rightarrow> Some (a @ ''.'' @ b @ ''.0.0/16'')
           | _ \<Rightarrow> None
      else Some cidr)"

lemma antifilter_step:
  "antifilter_loop (line # lines) cidrs =
     antifilter_loop lines (case widen (TrimSpace line) of None \<Rightarrow> cidrs | Some c \<Rightarrow> if c \<in> set cidrs then cidrs else cidrs @ [c])"
  by (auto simp: widen_def Let_def numeral_2_eq_2 Suc_le_length_iff split: list.splits)

lemma antifilter_loop_spec:
  "distinct cidrs \<Longrightarrow> distinct (antifilter_loop lines cidrs)
    \<and> set (antifilter_loop lines cidrs) = set cidrs \<union> {c. \<exists>l \<in> set lines. widen (TrimSpace l) = Some c}
    \<and> length (antifilter_loop lines cidrs) \<le> length cidrs + length lines"
proof (induction lines arbitrary: cidrs)
  case (Cons line lines)
  let ?c = "case widen (TrimSpace line) of None \<Rightarrow> cidrs | Some c \<Rightarrow> if c \<in> set cidrs then cidrs else cidrs @ [c]"
  have d: "distinct ?c" "set ?c = set cidrs \<union> {c. widen (TrimSpace line) = Some c}" "length ?c \<le> length cidrs + 1"
    using Cons.prems by (auto split: option.split)
  from Cons.IH [OF d(1)] d show ?case unfolding antifilter_step by auto
qed simp

lemma splitN_from_parts:
  "sep \<notin> set a \<Longrightarrow> 1 < n \<Longrightarrow> splitN_from sep n w (a @ sep # rest) = (w @ a) # splitN_from sep (n - 1) [] rest"
  by (induction a arbitrary: w) auto

text \<open>Addresses in dotted form are widened to the network of their first two numbers.\<close>

lemma widen_address:
  assumes "CHR ''.'' \<notin> set a" and "CHR ''.'' \<notin> set b"
  shows "widen (a @ ''.'' @ b @ ''.'' @ rest @ ''/24'') = Some (a @ ''.'' @ b @ ''.0.0/16'')"
proof -
  have "SplitN (a @ ''.'' @ b @ ''.'' @ rest) CHR ''.'' 3 = a # b # splitN_from CHR ''.'' 1 [] rest"
    using assms by (simp add: SplitN_def splitN_from_parts)
  moreover have "HasSuffix (a @ ''.'' @ b @ ''.'' @ rest @ ''/24'') ''/24''" by (simp add: HasSuffix_def)
  ultimately show ?thesis by (simp add: widen_def)
qed

section \<open>The IPv6 route\<close>

text \<open>Whether the IPv6 default route leads into the tunnel after the commands of some effects.\<close>

definition ipv6_after :: "client_effect \<Rightarrow> bool \<Rightarrow> bool" where
  "ipv6_after x b = (if adds_ipv6_default x then True else if deletes_ipv6_default x then False else b)"

definition ipv6_in_tunnel :: "client_effect list \<Rightarrow> bool" where
  "ipv6_in_tunnel effs = fold ipv6_after effs False"

lemma ipv6_no_adds: "\<not> list_ex adds_ipv6_default effs \<Longrightarrow> \<not> fold ipv6_after effs False"
  by (induction effs) (auto simp: ipv6_after_def)

lemma ipv6_unchanged: "no_ipv6 effs \<Longrightarrow> fold ipv6_after effs b = b"
  by (induction effs arbitrary: b) (auto simp: ipv6_after_def)

text \<open>Once the addresses are set, no call but the destruction of the adapter adds the route.\<close>

definition adds_none :: "winPlatform \<Rightarrow> winPlatform \<Rightarrow> client_effect list \<Rightarrow> bool" where
  "adds_none p p' effs \<longleftrightarrow> (wp_ipSet p \<longrightarrow> wp_ipSet p' \<and> \<not> list_ex adds_ipv6_default effs)"

lemma adds_none_trans: "adds_none p p' xs \<Longrightarrow> adds_none p' p'' ys \<Longrightarrow> adds_none p p'' (xs @ ys)"
  by (auto simp: adds_none_def)

lemma no_ipv6_callback [simp]: "no_ipv6 (callback v st)"
  by (simp add: callback_def)

lemma no_ipv6_ping: "ping_send C padBuf nowMs nowNs v = (v', effs, en) \<Longrightarrow> no_ipv6 effs"
  by (auto simp: ping_send_def no_ipv6_def Let_def list_all_iff split: option.splits prod.splits outcome.splits)

lemma win_switch_no_ipv6:
  "no_ipv6 (snd (po_activate (win_ops e) ip gw))" "no_ipv6 (snd (po_deactivate (win_ops e)))"
  by (simp_all add: win_ops_def win_Activate_def win_Deactivate_def Let_def)

lemma adds_none_open:
  assumes "win_openTunnel e p v = (err, p', v', effs)"
  shows "adds_none p p' effs"
proof -
  have "no_ipv6 (win_open_cmds e p cfg gw)" if "wp_ipSet p" for cfg gw
    using that no_ipv6_routes(1) [of cfg gw] no_ipv6_routes(2) [of e cfg "we_ifIndex e" gw]
      no_ipv6_routes(3) [of "we_ifIndex e" "''Ethernet''" "''1000''" "''Wi-Fi''" "''1000''"]
    by (simp add: win_open_cmds_def Let_def)
  then have "wp_ipSet p \<Longrightarrow> \<not> list_ex adds_ipv6_default (win_open_cmds e p cfg gw)" for cfg gw
    using no_ipv6_neither by blast
  with assms show ?thesis
    by (auto simp: adds_none_def win_openTunnel_def Let_def split: sum.splits if_splits)
qed

lemma close_deletes:
  assumes "win_closeTunnel e p v = (p', v', effs)"
  shows "wp_ipSet p' = wp_ipSet p" and "\<not> list_ex adds_ipv6_default effs" and "\<not> fold ipv6_after effs b"
proof -
  let ?gw = "if wp_realGateway p = [] then getDefaultGateway (we_parseIP e) (we_gwQuery e 0) else wp_realGateway p"
  let ?pre = "(if ?gw \<noteq> [] then [Run ''route'' [''add'', ''0.0.0.0'', ''mask'', ''0.0.0.0'', ?gw, ''metric'', ''10'']] else [])
    @ (if wp_ifIndex p \<noteq> []
       then [Run ''route'' [''delete'', ''0.0.0.0'', ''mask'', ''0.0.0.0'', ''0.0.0.0'', ''if'', wp_ifIndex p]] else [])
    @ [Run ''route'' [''delete'', ''0.0.0.0'', cfg_InternalIP (v_config v)],
       ps_alias ''Ethernet'' ([CHR 0x27] @ ''auto'' @ [CHR 0x27]), ps_alias ''Wi-Fi'' ([CHR 0x27] @ ''auto'' @ [CHR 0x27])]"
  let ?del = "Run ''netsh'' [''interface'', ''ipv6'', ''delete'', ''route'', ''::/0'', ''name=HastaVaquet'']"
  let ?post = "if wp_session p = None then [] else [SessionEnd]"
  have n: "no_ipv6 ?pre" "no_ipv6 ?post" by (simp_all add: ps_alias_def)
  have "win_closeTunnel e p v = (p\<lparr>wp_session := None\<rparr>, v, ?pre @ ?del # ?post)"
    unfolding win_closeTunnel_def Let_def by simp
  from trans [OF assms [symmetric] this] have effs: "effs = ?pre @ ?del # ?post" and p': "p' = p\<lparr>wp_session := None\<rparr>"
    by (simp_all only: prod.inject)
  show "wp_ipSet p' = wp_ipSet p" by (simp add: p')
  show "\<not> list_ex adds_ipv6_default effs"
    unfolding effs using no_ipv6_neither [OF n(1)] no_ipv6_neither [OF n(2)] by simp
  show "\<not> fold ipv6_after effs b"
    unfolding effs using ipv6_unchanged [OF n(1)] ipv6_unchanged [OF n(2)] by (simp add: ipv6_after_def)
qed

lemma adds_none_Start:
  assumes "Start (win_ops e) now p v = (err, p', v', effs)"
  shows "adds_none p p' effs"
proof -
  define v1 where "v1 = v\<lparr>v_stopOpen := True, v_lastAliveMs := now, v_lastPacketRx := now\<rparr>"
  obtain er p1 v2 f where o: "win_openTunnel e p v1 = (er, p1, v2, f)" by (cases "win_openTunnel e p v1") auto
  then have po: "po_open (win_ops e) p v1 = (er, p1, v2, f)" by (simp add: win_ops_def)
  have c: "\<not> list_ex adds_ipv6_default (callback v st)" for v st using no_ipv6_neither no_ipv6_callback by blast
  show ?thesis
    using assms adds_none_open [OF o] po unfolding Start_def v1_def [symmetric] Let_def
    by (auto simp: adds_none_def c split: if_splits option.splits)
qed

lemma adds_none_Stop:
  assumes "Stop (win_ops e) p v = (p', v', effs, panic)"
  shows "adds_none p p' effs" and "v_running v \<Longrightarrow> v_stopOpen v \<Longrightarrow> \<not> fold ipv6_after effs b \<and> wp_ipSet p' = wp_ipSet p"
proof -
  define v1 where "v1 = v\<lparr>v_stopping := True, v_running := False, v_stopOpen := False\<rparr>"
  obtain p1 v2 f where c: "win_closeTunnel e p v1 = (p1, v2, f)" by (cases "win_closeTunnel e p v1") auto
  then have pc: "po_close (win_ops e) p v1 = (p1, v2, f)" by (simp add: win_ops_def)
  let ?tail = "(if v_killSwitchEnabled v then snd (po_deactivate (win_ops e)) else [])
    @ (case v_conn v2 of None \<Rightarrow> [] | Some c \<Rightarrow> [ConnClose c]) @ (if \<not> v_reconnecting v then callback v2 ''disconnected'' else [])"
  have t: "no_ipv6 ?tail" using win_switch_no_ipv6(2) by (auto split: option.split)
  have S0: "Stop (win_ops e) p v = (if \<not> v_running v then (p, v\<lparr>v_stopping := False\<rparr>, [], False)
      else if \<not> v_stopOpen v then (p, v\<lparr>v_stopping := True, v_running := False\<rparr>, [], True)
      else (p1, v2\<lparr>v_conn := None, v_stopping := False\<rparr>, StopChClosed # f @ ?tail, False))"
    unfolding Stop_def v1_def [symmetric] Let_def pc by simp
  note S = trans [OF assms [symmetric] S0]
  show "adds_none p p' effs"
    using S close_deletes(1,2) [OF c] no_ipv6_neither [OF t] by (auto simp: adds_none_def split: if_splits)
  show "\<not> fold ipv6_after effs b \<and> wp_ipSet p' = wp_ipSet p" if "v_running v" "v_stopOpen v"
    using S that close_deletes(1,3) [OF c] ipv6_unchanged [OF t] by (simp add: ipv6_after_def)
qed

lemma adds_none_Reconnect:
  assumes "Reconnect (win_ops e) now p v = (err, p', v', effs, panic)"
  shows "adds_none p p' effs"
proof -
  obtain p1 v1 f1 b where S: "Stop (win_ops e) p (v\<lparr>v_reconnecting := True\<rparr>) = (p1, v1, f1, b)"
    by (cases "Stop (win_ops e) p (v\<lparr>v_reconnecting := True\<rparr>)") auto
  obtain er p2 v2 f2 where T: "Start (win_ops e) now p1 (v1\<lparr>v_reconnecting := False\<rparr>) = (er, p2, v2, f2)"
    by (cases "Start (win_ops e) now p1 (v1\<lparr>v_reconnecting := False\<rparr>)") auto
  have "(err, p', v', effs, panic) = (if b then (None, p1, v1, f1, True) else (er, p2, v2, f1 @ f2, False))"
    using trans [OF assms [symmetric], of "if b then (None, p1, v1, f1, True) else (er, p2, v2, f1 @ f2, False)"]
    by (simp add: Reconnect_def S T)
  with adds_none_Stop(1) [OF S] adds_none_trans [OF adds_none_Stop(1) [OF S] adds_none_Start [OF T]] show ?thesis
    by (simp split: if_splits)
qed

lemma adds_none_Nil [simp]: "adds_none p p []"
  by (simp add: adds_none_def)

lemma adds_none_quiet: "no_ipv6 effs \<Longrightarrow> adds_none p p effs"
  using no_ipv6_neither by (auto simp: adds_none_def)

lemma adds_none_ping_round:
  assumes "ping_round (win_ops e) C padBuf nowNs wasDead p v = (wd, p', v', effs, en)"
  shows "adds_none p p' effs"
proof -
  obtain v1 f1 en1 where P: "ping_send C padBuf (nowNs div 1000000) nowNs v = (v1, f1, en1)"
    by (cases "ping_send C padBuf (nowNs div 1000000) nowNs v") auto
  obtain er p2 v2 f2 b where R: "Reconnect (win_ops e) (nowNs div 1000000) p v1 = (er, p2, v2, f2, b)"
    by (cases "Reconnect (win_ops e) (nowNs div 1000000) p v1") auto
  let ?ks = "if v_killSwitchEnabled v1 then snd (po_activate (win_ops e) (cfg_ServerIP (v_config v1)) []) else []"
  have q: "no_ipv6 f1" "no_ipv6 (f1 @ callback v1 st)" "no_ipv6 (f1 @ callback v1 st @ ?ks)" for st
    using no_ipv6_ping [OF P] win_switch_no_ipv6(1) by simp_all
  have r: "adds_none p p2 ((f1 @ callback v1 st @ ?ks) @ f2)" for st
    by (rule adds_none_trans [OF adds_none_quiet [OF q(3)] adds_none_Reconnect [OF R]])
  show ?thesis
    using assms r adds_none_quiet [OF q(1)] adds_none_quiet [OF q(2)] adds_none_quiet [OF no_ipv6_Nil]
    unfolding ping_round_def Let_def P by (auto simp: R split: if_splits)
qed

lemma adds_none_step:
  assumes "gui_step e ev a = (a', effs, panic)" and "ev \<noteq> GShutdown"
  shows "adds_none (app_plat a) (app_plat a') effs"
proof -
  note nothing = adds_none_quiet [OF no_ipv6_Nil]
  show ?thesis
  proof (cases ev)
    case (GConnect seeds now r)
    let ?v = "SetKillSwitchEnabled (app_killSwitchEnabled a) (New go_crypto seeds (connect_config r a) True)"
    obtain er p v f where S: "Start (win_ops e) now (app_plat a) ?v = (er, p, v, f)"
      by (cases "Start (win_ops e) now (app_plat a) ?v") auto
    with GConnect assms(1) adds_none_Start [OF S] nothing show ?thesis
      by (auto simp: DoConnect_def Let_def split: if_splits option.splits)
  next
    case GDisconnect
    show ?thesis
    proof (cases "app_vpn a")
      case None
      with GDisconnect assms(1) nothing show ?thesis by (auto simp: DoDisconnect_def)
    next
      case (Some v)
      obtain p v' f b where S: "Stop (win_ops e) (app_plat a) v = (p, v', f, b)"
        by (cases "Stop (win_ops e) (app_plat a) v") auto
      with Some GDisconnect assms(1) adds_none_Stop(1) [OF S] nothing show ?thesis
        by (auto simp: DoDisconnect_def Let_def split: if_splits)
    qed
  next
    case (GPingRound padBuf nowNs wasDead)
    show ?thesis
    proof (cases "app_vpn a")
      case None
      with GPingRound assms(1) nothing show ?thesis by auto
    next
      case (Some v)
      obtain wd p v' f en where R: "ping_round (win_ops e) go_crypto padBuf nowNs wasDead (app_plat a) v = (wd, p, v', f, en)"
        by (cases "ping_round (win_ops e) go_crypto padBuf nowNs wasDead (app_plat a) v") auto
      with Some GPingRound assms(1) adds_none_ping_round [OF R] show ?thesis by auto
    qed
  qed (use assms nothing in \<open>auto simp: App_SetKillSwitchEnabled_def SetBypassMode_def SetBypassCIDRs_def SetVPNCIDRs_def
      split: option.splits\<close>)
qed

lemma adds_none_run:
  "gui_run evs a = (a', effs, panic) \<Longrightarrow> \<forall>(e, ev) \<in> set evs. ev \<noteq> GShutdown \<Longrightarrow>
     adds_none (app_plat a) (app_plat a') effs"
proof (induction evs arbitrary: a a' effs panic)
  case Nil
  then show ?case using adds_none_quiet [OF no_ipv6_Nil] by simp
next
  case (Cons x evs)
  obtain e ev where x: "x = (e, ev)" by fastforce
  obtain a1 f1 b1 where 1: "gui_step e ev a = (a1, f1, b1)" by (cases "gui_step e ev a") auto
  obtain a2 f2 b2 where 2: "gui_run evs a1 = (a2, f2, b2)" by (cases "gui_run evs a1") auto
  have "ev \<noteq> GShutdown" using Cons.prems(2) x by auto
  note s = adds_none_step [OF 1 this]
  have "adds_none (app_plat a1) (app_plat a2) f2" using Cons.IH [OF 2] Cons.prems(2) by simp
  from adds_none_trans [OF s this] s Cons.prems(1) show ?case by (auto simp: x 1 2 split: if_splits)
qed

lemma connect_adds_route:
  assumes "DoConnect C seeds e now r a = (''connected'', a1, f1)" and "\<not> IsConnected a" and "\<not> wp_ipSet (app_plat a)"
  shows "fold ipv6_after f1 b" and "wp_ipSet (app_plat a1)"
proof -
  define v where "v = SetKillSwitchEnabled (app_killSwitchEnabled a) (New C seeds (connect_config r a) True)"
  define v1 where "v1 = v\<lparr>v_stopOpen := True, v_lastAliveMs := now, v_lastPacketRx := now\<rparr>"
  have idle: "\<not> v_running v" by (cases seeds) (simp add: v_def SetKillSwitchEnabled_def New_def Let_def)
  obtain er p2 v2 f where o: "win_openTunnel e (app_plat a) v1 = (er, p2, v2, f)" by (cases "win_openTunnel e (app_plat a) v1") auto
  then have po: "po_open (win_ops e) (app_plat a) v1 = (er, p2, v2, f)" by (simp add: win_ops_def)
  have "er \<noteq> Some ''connected''"
    using o by (auto simp: win_openTunnel_def no_gateway_def Let_def split: sum.splits if_splits)
  with assms(1,2) idle po have er: "er = None" and a1: "app_plat a1 = p2"
    and f1: "f1 = callback v ''connecting'' @ f @ callback v2 ''connected''
      @ map Go [''persistentPingLoop'', ''routeMonitorLoop'', ''platformReaderLoop'', ''platformWriterLoop'', ''statsLoop'']"
    unfolding DoConnect_def v_def [symmetric] Start_def v1_def [symmetric] Let_def by (auto split: option.splits)
  obtain gw where f: "f = setup_address (v_config v1) (we_ifIndex e)
      @ ([ps_metric (we_ifIndex e), ps_alias ''Ethernet'' ''1000'', ps_alias ''Wi-Fi'' ''1000'']
        @ server_route (v_config v1) gw @ mode_routes e (v_config v1) (we_ifIndex e) gw)"
    and set: "wp_ipSet p2"
    using o er assms(3) by (auto simp: win_openTunnel_def win_open_cmds_def Let_def split: sum.splits if_splits)
  have "fold ipv6_after (setup_address (v_config v1) (we_ifIndex e)) b" for b
    by (simp add: setup_address_def ipv6_after_def ps_metric_def)
  then have "fold ipv6_after f b" for b
    unfolding f by (simp add: ipv6_unchanged no_ipv6_routes(1,2) ipv6_after_def ps_metric_def ps_alias_def)
  moreover have "no_ipv6 (callback v2 ''connected''
      @ map Go [''persistentPingLoop'', ''routeMonitorLoop'', ''platformReaderLoop'', ''platformWriterLoop'', ''statsLoop''])" by simp
  ultimately show "fold ipv6_after f1 b" unfolding f1 by (simp add: ipv6_unchanged ipv6_after_def)
  show "wp_ipSet (app_plat a1)" by (simp add: a1 set)
qed

section \<open>Properties\<close>

text \<open>
  The window's calls are guarded. Along every sequence of calls from the window
  (connect, disconnect, settings, shutdown) mixed with rounds of the ping loop, whatever the
  system and the network answer: no stop channel is closed twice (nothing panics), and
  counting the starts of the engine's goroutines minus the stop channels closed gives exactly
  one when the application says it is connected and none otherwise. This is about the
  calls: whether goroutines whose channel is closed do end is the subject of \<open>Loops\<close>, and
  the reader need not.
\<close>

theorem window_calls_guarded:
  "case gui_run evs (NewApp plat) of (a', effs, panic) \<Rightarrow>
     \<not> panic \<and> app_inv a' \<and> balance effs = (if IsConnected a' then 1 else 0)"
proof -
  have "app_inv (NewApp plat)" "running (NewApp plat) = 0" by (simp_all add: NewApp_def app_inv_def running_def IsConnected_def)
  with gui_run_inv [of "NewApp plat" evs] show ?thesis by (auto simp: running_def split: prod.split)
qed

text \<open>
  C37: IPv6 goes through the tunnel only until the first disconnect or reconnect. The first
  connection of the application adds the IPv6 default route of the tunnel's interface; from
  the next disconnect on the route is gone and no connect, reconnect or other call adds it
  again, until the application shuts down: closing the tunnel deletes the route, but opening
  it again skips the commands that set it, because they ran once.
\<close>

theorem ipv6_route_not_restored:
  assumes "app_inv a" and "\<not> IsConnected a" and "\<not> wp_ipSet (app_plat a)"
    and "DoConnect go_crypto seeds e now r a = (''connected'', a1, f1)"
    and "gui_run evs1 a1 = (a2, f2, panic1)" and "IsConnected a2"
    and "DoDisconnect e' a2 = (ans, a3, f3, ui, panic2)" and "gui_run evs a3 = (a4, f4, panic3)"
    and "\<forall>(e, ev) \<in> set (evs1 @ evs). ev \<noteq> GShutdown"
  shows "ipv6_in_tunnel f1 \<and> \<not> ipv6_in_tunnel (f1 @ f2 @ f3 @ f4)"
proof -
  note c = connect_adds_route [OF assms(4,2,3)]
  have inv: "app_inv a2"
    using gui_run_inv [of a1 evs1] DoConnect_step [OF assms(1,4)] assms(5) by simp
  obtain v where v: "app_vpn a2 = Some v" "v_running v"
    using assms(6) by (auto simp: IsConnected_def split: option.splits)
  with inv have open_ch: "v_stopOpen v" by (simp add: app_inv_def client_inv_def)
  have set2: "wp_ipSet (app_plat a2)" using adds_none_run [OF assms(5)] assms(9) c(2) by (simp add: adds_none_def)
  obtain p v' f b where S: "Stop (win_ops e') (app_plat a2) v = (p, v', f, b)" by (cases "Stop (win_ops e') (app_plat a2) v") auto
  note st = adds_none_Stop(2) [OF S v(2) open_ch]
  have f3: "f3 = f" and a3: "app_plat a3 = p"
    using assms(7) v S by (auto simp: DoDisconnect_def Let_def split: if_splits)
  have "\<not> list_ex adds_ipv6_default f4"
    using adds_none_run [OF assms(8)] assms(9) st set2 a3 by (simp add: adds_none_def)
  moreover have "\<not> fold ipv6_after f3 x" for x using st f3 by simp
  ultimately have "\<not> fold ipv6_after (f1 @ f2 @ f3 @ f4) False" using ipv6_no_adds by simp
  with c(1) show ?thesis by (simp add: ipv6_in_tunnel_def)
qed

definition sample_args :: connect_args where
  "sample_args = \<lparr>ca_serverIP = ''192.0.2.1'', ca_secretKey = ''secret'', ca_routingSalt = [], ca_internalIP = ''10.0.0.5'',
     ca_gatewayIP = [], ca_dns = ''1.1.1.1'', ca_transport = ''udp'', ca_cdnDomain = [], ca_port = 19999, ca_shortID = 3\<rparr>"

lemma sample_connects:
  assumes "\<not> IsConnected a"
  obtains a' f where "DoConnect go_crypto (1, 2, 3) sample_win_env 0 sample_args a = (''connected'', a', f)" and "IsConnected a'"
proof -
  let ?v = "SetKillSwitchEnabled (app_killSwitchEnabled a) (New go_crypto (1, 2, 3) (connect_config sample_args a) True)"
  let ?v1 = "?v\<lparr>v_stopOpen := True, v_lastAliveMs := 0, v_lastPacketRx := 0\<rparr>"
  have idle: "\<not> v_running ?v" by (simp add: SetKillSwitchEnabled_def New_def Let_def)
  obtain p' v' effs where "win_openTunnel sample_win_env (app_plat a) ?v1 = (None, p', v', effs)"
    using sample_opens [of "app_plat a" ?v1] by blast
  then have "po_open (win_ops sample_win_env) (app_plat a) ?v1 = (None, p', v', effs)" by (simp add: win_ops_def)
  with assms idle that show ?thesis by (simp add: DoConnect_def Start_def Let_def IsConnected_def)
qed

theorem ipv6_route_not_restored_witness:
  "\<exists>a1 f1 a3 f3 ui a4 f4. DoConnect go_crypto (1, 2, 3) sample_win_env 0 sample_args (NewApp init_winPlatform) = (''connected'', a1, f1)
    \<and> DoDisconnect sample_win_env a1 = (''disconnected'', a3, f3, ui, False)
    \<and> gui_run [(sample_win_env, GConnect (1, 2, 3) 0 sample_args)] a3 = (a4, f4, False) \<and> IsConnected a4
    \<and> ipv6_in_tunnel f1 \<and> \<not> ipv6_in_tunnel (f1 @ f3 @ f4)"
proof -
  let ?a = "NewApp init_winPlatform"
  have new: "app_inv ?a" "\<not> IsConnected ?a" "\<not> wp_ipSet (app_plat ?a)"
    by (simp_all add: NewApp_def app_inv_def IsConnected_def init_winPlatform_def)
  obtain a1 f1 where c: "DoConnect go_crypto (1, 2, 3) sample_win_env 0 sample_args ?a = (''connected'', a1, f1)" "IsConnected a1"
    by (rule sample_connects [OF new(2)])
  obtain ans a3 f3 ui b where d: "DoDisconnect sample_win_env a1 = (ans, a3, f3, ui, b)"
    by (cases "DoDisconnect sample_win_env a1") auto
  have "app_inv a1" using DoConnect_step [OF new(1) c(1)] by simp
  from DoDisconnect_step [OF this d] have off: "\<not> b" "\<not> IsConnected a3" by simp_all
  then have ans: "ans = ''disconnected''"
    using c(2) d by (auto simp: DoDisconnect_def IsConnected_def Let_def split: option.splits prod.splits if_splits)
  obtain a4 f4 where r: "DoConnect go_crypto (1, 2, 3) sample_win_env 0 sample_args a3 = (''connected'', a4, f4)" "IsConnected a4"
    by (rule sample_connects [OF off(2)])
  then have run: "gui_run [(sample_win_env, GConnect (1, 2, 3) 0 sample_args)] a3 = (a4, f4, False)" by simp
  have "gui_run [] a1 = (a1, [], False)" by simp
  from ipv6_route_not_restored [OF new c(1) this c(2) d run] c d r(2) run ans off(1) show ?thesis by fastforce
qed

text \<open>
  The downloaded list is aggregated without loss. The result has no duplicates and
  consists of exactly the widened forms of the words of the body: a network of 24 bits is
  replaced by the network of its first two numbers, everything else is kept. The words
  are separated by spaces only: a body without a space, such as one line per network,
  yields at most one entry.
\<close>

theorem antifilter_aggregates:
  "\<exists>cidrs. DownloadAntiFilter (Inr body) = Ok cidrs \<and> distinct cidrs
    \<and> set cidrs = {c. \<exists>w \<in> set (Split (TrimSpace body) CHR '' ''). widen (TrimSpace w) = Some c}
    \<and> (CHR '' '' \<notin> set body \<longrightarrow> length cidrs \<le> 1)"
proof -
  note spec = antifilter_loop_spec [of "[]" "Split (TrimSpace body) CHR '' ''"]
  have "length (Split (TrimSpace body) CHR '' '') = 1" if "CHR '' '' \<notin> set body"
  proof -
    from that TrimSpace_subset [of body] have "CHR '' '' \<notin> set (TrimSpace body)" by blast
    then show ?thesis by (simp add: Split_single)
  qed
  with spec show ?thesis by (auto simp: DownloadAntiFilter_def)
qed

theorem antifilter_aggregates_witness:
  "\<exists>cidrs. DownloadAntiFilter (Inr (''10.1.2.0/24'' @ [CHR 0x0A] @ ''10.9.3.0/24'')) = Ok cidrs \<and> length cidrs \<le> 1"
  using antifilter_aggregates [of "''10.1.2.0/24'' @ [CHR 0x0A] @ ''10.9.3.0/24''"] by auto

end
