(* ===== verification/Health.thy ===== *)
theory Health
  imports Strings
begin

text \<open>
  The machine's load shown in the panel (\<^verbatim>\<open>server/health_linux.go\<close>): the processor figure is
  the idle share between two readings of \<^verbatim>\<open>/proc/stat\<close>, memory comes from
  \<^verbatim>\<open>/proc/meminfo\<close>, the disk from \<^verbatim>\<open>statfs\<close>. All arithmetic is on unsigned 64-bit words.
  A file is the list of its lines, None when it cannot be opened.
\<close>

section \<open>Percentages\<close>

text \<open>\<^verbatim>\<open>int(100 - (part*100)/whole)\<close>\<close>

definition used_pct :: "64 word \<Rightarrow> 64 word \<Rightarrow> int" where
  "used_pct part whole = sint (100 - part * 100 div whole)"

section \<open>Processor\<close>

text \<open>The package variables \<^verbatim>\<open>prevIdle\<close> and \<^verbatim>\<open>prevTotal\<close>; \<^verbatim>\<open>prevTime\<close> is never read.\<close>

record cpu_state =
  h_prevIdle :: "64 word"
  h_prevTotal :: "64 word"

text \<open>The loop over the fields from \<open>i\<close> on; the result is (idle, tot).\<close>

fun cpu_fields :: "nat \<Rightarrow> string list \<Rightarrow> 64 word \<times> 64 word \<Rightarrow> 64 word \<times> 64 word" where
  "cpu_fields i [] acc = acc"
| "cpu_fields i (f # fs) (idle, tot) =
     (let v = ParseUint64 f in cpu_fields (i + 1) fs (if i = 4 then v else idle, tot + v))"

definition cpu_line :: "string \<Rightarrow> cpu_state \<Rightarrow> int \<times> cpu_state" where
  "cpu_line line st =
     (let (idle, tot) = cpu_fields 1 (tl (Fields line)) (0, 0);
          diffIdle = idle - h_prevIdle st;
          diffTotal = tot - h_prevTotal st
      in (if 0 < h_prevTotal st \<and> 0 < diffTotal then used_pct diffIdle diffTotal else 0,
          \<lparr>h_prevIdle = idle, h_prevTotal = tot\<rparr>))"

fun cpu_scan :: "string list \<Rightarrow> cpu_state \<Rightarrow> int \<times> cpu_state" where
  "cpu_scan [] st = (0, st)"
| "cpu_scan (line # lines) st = (if starts_with ''cpu '' line then cpu_line line st else cpu_scan lines st)"

section \<open>Memory\<close>

text \<open>The result is (total, available); a later line overwrites an earlier one.\<close>

fun mem_scan :: "string list \<Rightarrow> 64 word \<times> 64 word \<Rightarrow> 64 word \<times> 64 word" where
  "mem_scan [] acc = acc"
| "mem_scan (line # lines) (tot, avail) =
     (let fields = Fields line
      in if length fields < 2 then mem_scan lines (tot, avail)
         else let v = ParseUint64 (fields ! 1)
              in mem_scan lines
                   (if fields ! 0 = ''MemTotal:'' then (v, avail)
                    else if fields ! 0 = ''MemAvailable:'' then (tot, v) else (tot, avail)))"

section \<open>Disk and all together\<close>

record statfs =
  sf_Blocks :: "64 word"
  sf_Bfree :: "64 word"
  sf_Bsize :: "64 word"

definition disk_pct :: "statfs option \<Rightarrow> int" where
  "disk_pct st =
     (case st of
        None \<Rightarrow> 0
      | Some f \<Rightarrow>
          let tot = sf_Blocks f * sf_Bsize f; free = sf_Bfree f * sf_Bsize f
          in if 0 < tot then used_pct free tot else 0)"

definition mem_pct :: "string list option \<Rightarrow> int" where
  "mem_pct meminfo =
     (case meminfo of
        None \<Rightarrow> 0
      | Some lines \<Rightarrow> let (tot, avail) = mem_scan lines (0, 0) in if 0 < tot then used_pct avail tot else 0)"

definition getSystemHealth ::
  "string list option \<Rightarrow> string list option \<Rightarrow> statfs option \<Rightarrow> cpu_state \<Rightarrow> (int \<times> int \<times> int) \<times> cpu_state" where
  "getSystemHealth stat meminfo fs st =
     (let (cpuPct, st') = (case stat of None \<Rightarrow> (0, st) | Some lines \<Rightarrow> cpu_scan lines st)
      in ((cpuPct, mem_pct meminfo, disk_pct fs), st'))"

text \<open>The figures of \<^verbatim>\<open>getSystemHealthDetail\<close> before their division by powers of 1024: number
  of processors, total and used memory in KiB, total and used disk space in bytes.\<close>

definition getSystemHealthDetail ::
  "nat \<Rightarrow> string list option \<Rightarrow> statfs option \<Rightarrow> nat \<times> 64 word \<times> 64 word \<times> 64 word \<times> 64 word" where
  "getSystemHealthDetail numCPU meminfo fs =
     (let (memTotal, memUsed) =
            (case meminfo of None \<Rightarrow> (0, 0) | Some lines \<Rightarrow> let (tot, avail) = mem_scan lines (0, 0) in (tot, tot - avail));
          (diskTotal, diskUsed) =
            (case fs of None \<Rightarrow> (0, 0)
             | Some f \<Rightarrow> let tot = sf_Blocks f * sf_Bsize f; free = sf_Bfree f * sf_Bsize f in (tot, tot - free))
      in (numCPU, memTotal, memUsed, diskTotal, diskUsed))"

section \<open>Percentages are percentages\<close>

lemma used_pct_exact:
  assumes "part \<le> whole" and "0 < whole" and "unat part * 100 < 2 ^ 64"
  shows "used_pct part whole = 100 - int (unat part * 100 div unat whole)"
    and "unat part * 100 div unat whole \<le> 100"
proof -
  have w: "unat part \<le> unat whole" "0 < unat whole"
    using assms(1,2) by (simp_all add: word_le_nat_alt word_less_nat_alt)
  show q: "unat part * 100 div unat whole \<le> 100"
    using w by (metis div_le_mono div_mult_self1_is_m mult_le_mono1)
  have u: "unat (part * 100) = unat part * 100"
    using assms(3) by (simp add: unat_word_ariths)
  have d: "unat (part * 100 div whole) = unat part * 100 div unat whole"
    by (simp add: unat_div u)
  have "part * 100 div whole \<le> 100" using q by (simp add: word_le_nat_alt d)
  then have "unat (100 - part * 100 div whole) = 100 - unat part * 100 div unat whole"
    by (simp add: unat_sub d)
  moreover have small100: "100 - n < (2 :: nat) ^ 63" for n by (rule le_less_trans [of _ 100]) simp_all
  moreover have "sint x = int (unat x)" if "unat x < 2 ^ 63" for x :: "64 word"
  proof -
    have "uint x = int (unat x)" by simp
    moreover have "int (unat x) < 2 ^ 63" using that by (metis of_nat_less_iff of_nat_numeral of_nat_power)
    ultimately have "uint x < 2 ^ 63" by simp
    then have "signed_take_bit 63 (uint x) = uint x" by (intro signed_take_bit_int_eq_self) (simp_all add: order_trans [OF _ unsigned_greater_eq])
    then show ?thesis by (simp add: sint_uint)
  qed
  ultimately have "sint (100 - part * 100 div whole) = int (100 - unat part * 100 div unat whole)"
    by (metis small100)
  then show "used_pct part whole = 100 - int (unat part * 100 div unat whole)"
    using q by (simp add: used_pct_def of_nat_diff)
qed

section \<open>Reading numbers\<close>

lemma digit_val_digit: "(d :: nat) < 10 \<Longrightarrow> digit_val (char_of (48 + d)) = Some d"
  by (simp add: digit_val_def Let_def)

text \<open>The value a text of digits stands for.\<close>

lemma parse_uint_append_digit:
  assumes "d < 10" and "m * 10 + d < 2 ^ 64" and "\<And>rest. parse_uint n (s @ rest) = parse_uint m rest"
  shows "parse_uint n ((s @ [char_of (48 + d)]) @ rest) = parse_uint (m * 10 + d) rest"
  using assms(1,2) assms(3) [of "char_of (48 + d) # rest"] by (simp add: digit_val_digit)

lemma parse_dec_str: "n < 2 ^ 64 \<Longrightarrow> parse_uint 0 (dec_str n @ rest) = parse_uint n rest"
proof (induction n arbitrary: rest rule: dec_str.induct)
  case (1 n)
  show ?case
  proof (cases "n < 10")
    case True
    then have d: "dec_str n = [char_of (48 + n)]" by (simp add: dec_str.simps)
    show ?thesis using True "1.prems" unfolding d by (simp add: digit_val_digit)
  next
    case False
    then have d: "dec_str n = dec_str (n div 10) @ [char_of (48 + n mod 10)]" by (subst dec_str.simps) simp
    have "n div 10 < 2 ^ 64" using "1.prems" by (meson div_le_dividend le_less_trans)
    then have "\<And>rest. parse_uint 0 (dec_str (n div 10) @ rest) = parse_uint (n div 10) rest"
      using "1.IH" [OF False] by blast
    from parse_uint_append_digit [OF _ _ this, of "n mod 10" rest] "1.prems" show ?thesis unfolding d by simp
  qed
qed

lemma dec_str_not_Nil: "dec_str n \<noteq> []"
  by (subst dec_str.simps) simp

lemma ParseUint64_dec_str: "n < 2 ^ 64 \<Longrightarrow> ParseUint64 (dec_str n) = of_nat n"
  using parse_dec_str [of n "[]"] by (simp add: ParseUint64_def dec_str_not_Nil)

lemma digit_not_space: "(d :: nat) < 10 \<Longrightarrow> \<not> is_space (char_of (48 + d))"
proof
  assume "d < 10" "is_space (char_of (48 + d))"
  then have "char_of (48 + d) \<in> {CHR '' '', CHR 0x09, CHR 0x0A, CHR 0x0B, CHR 0x0C, CHR 0x0D}" by (simp only: is_space_def)
  then have "(of_char (char_of (48 + d) :: char) :: nat) \<in> of_char ` {CHR '' '', CHR 0x09, CHR 0x0A, CHR 0x0B, CHR 0x0C, CHR 0x0D}" by (rule imageI)
  with \<open>d < 10\<close> show False by simp
qed

lemma dec_str_no_space: "list_all (\<lambda>c. \<not> is_space c) (dec_str n)"
proof (induction n rule: dec_str.induct)
  case (1 n)
  then show ?case by (subst dec_str.simps) (simp add: digit_not_space)
qed

section \<open>Properties\<close>

lemma cpu_fields_result:
  "cpu_fields i fs (idle, tot) =
    ((if i \<le> 4 \<and> 4 < i + length fs then ParseUint64 (fs ! (4 - i)) else idle), tot + sum_list (map ParseUint64 fs))"
  by (induction fs arbitrary: i idle tot) (auto simp: Let_def nth_Cons' add.assoc)

text \<open>A reading of the processor line: the fourth field is the idle time, the sum is everything.\<close>

definition reading :: "string \<Rightarrow> 64 word \<times> 64 word" where
  "reading line = (let fs = tl (Fields line) in ((if 4 \<le> length fs then ParseUint64 (fs ! 3) else 0), sum_list (map ParseUint64 fs)))"

lemma cpu_line_reading:
  "cpu_line line st =
    (if 0 < h_prevTotal st \<and> 0 < snd (reading line) - h_prevTotal st
     then used_pct (fst (reading line) - h_prevIdle st) (snd (reading line) - h_prevTotal st) else 0,
     \<lparr>h_prevIdle = fst (reading line), h_prevTotal = snd (reading line)\<rparr>)"
  unfolding cpu_line_def cpu_fields_result reading_def Let_def by (simp add: Suc_le_eq)

lemma cpu_scan_first:
  "cpu_scan (pre @ line # post) st = cpu_line line st"
  if "starts_with ''cpu '' line" and "list_all (\<lambda>l. \<not> starts_with ''cpu '' l) pre"
  using that by (induction pre) auto

lemma used_pct_bounds:
  "part \<le> whole \<Longrightarrow> 0 < whole \<Longrightarrow> unat part * 100 < 2 ^ 64 \<Longrightarrow> 0 \<le> used_pct part whole \<and> used_pct part whole \<le> 100"
  using used_pct_exact [of part whole] by auto

text \<open>
  The three load figures are percentages. If between two readings the idle time grew by
  no more than the total, no more memory is available than there is, no more blocks are free
  than the disk has, and no amount times 100 exceeds 64 bits, then all three lie between 0
  and 100; a figure whose source cannot be read, and the processor figure of the first
  reading, are 0; and the reading is kept for the next call.
\<close>

theorem health_figures_are_percentages:
  assumes "starts_with ''cpu '' line" and "list_all (\<lambda>l. \<not> starts_with ''cpu '' l) pre"
    and "fst (reading line) - h_prevIdle st \<le> snd (reading line) - h_prevTotal st"
    and "unat (fst (reading line) - h_prevIdle st) * 100 < 2 ^ 64"
    and "mem_scan mem (0, 0) = (tot, avail)" and "avail \<le> tot" and "unat avail * 100 < 2 ^ 64"
    and "sf_Bfree f * sf_Bsize f \<le> sf_Blocks f * sf_Bsize f" and "unat (sf_Bfree f * sf_Bsize f) * 100 < 2 ^ 64"
  shows "\<exists>c m d st'. getSystemHealth (Some (pre @ line # post)) (Some mem) (Some f) st = ((c, m, d), st')
    \<and> {c, m, d} \<subseteq> {0..100} \<and> (h_prevTotal st = 0 \<longrightarrow> c = 0)
    \<and> st' = \<lparr>h_prevIdle = fst (reading line), h_prevTotal = snd (reading line)\<rparr>
    \<and> getSystemHealth None None None st = ((0, 0, 0), st)"
proof -
  have c: "0 \<le> fst (cpu_line line st) \<and> fst (cpu_line line st) \<le> 100"
    using used_pct_bounds [OF assms(3) _ assms(4)] by (simp add: cpu_line_reading)
  have m: "0 \<le> mem_pct (Some mem) \<and> mem_pct (Some mem) \<le> 100"
    using used_pct_bounds [OF assms(6) _ assms(7)] assms(5) by (simp add: mem_pct_def)
  have d: "0 \<le> disk_pct (Some f) \<and> disk_pct (Some f) \<le> 100"
    using used_pct_bounds [OF assms(8) _ assms(9)] by (simp add: disk_pct_def Let_def)
  have "getSystemHealth (Some (pre @ line # post)) (Some mem) (Some f) st
      = ((fst (cpu_line line st), mem_pct (Some mem), disk_pct (Some f)), snd (cpu_line line st))"
    using cpu_scan_first [OF assms(1,2)] by (simp add: getSystemHealth_def split: prod.split)
  moreover have "getSystemHealth None None None st = ((0, 0, 0), st)"
    by (simp add: getSystemHealth_def mem_pct_def disk_pct_def)
  moreover have "h_prevTotal st = 0 \<longrightarrow> fst (cpu_line line st) = 0"
    "snd (cpu_line line st) = \<lparr>h_prevIdle = fst (reading line), h_prevTotal = snd (reading line)\<rparr>"
    by (simp_all add: cpu_line_reading)
  ultimately show ?thesis using c m d by auto
qed

definition sample_stat :: string where
  "sample_stat = ''cpu '' @ join_words [''100'', ''0'', ''50'', ''850'', ''0'']"

lemma sample_fields: "Fields sample_stat = [''cpu'', ''100'', ''0'', ''50'', ''850'', ''0'']"
proof -
  have "sample_stat = join_words [''cpu'', ''100'', ''0'', ''50'', ''850'', ''0'']" by (simp add: sample_stat_def)
  moreover have "Fields (join_words [''cpu'', ''100'', ''0'', ''50'', ''850'', ''0'']) = [''cpu'', ''100'', ''0'', ''50'', ''850'', ''0'']"
    by (rule Fields_join_words) (simp add: is_space_def)
  ultimately show ?thesis by (simp only:)
qed

lemma sample_reading: "reading sample_stat = (850, 1000)"
proof -
  have "ParseUint64 ''100'' = 100" "ParseUint64 ''0'' = 0" "ParseUint64 ''50'' = 50" "ParseUint64 ''850'' = 850"
    by (simp_all add: ParseUint64_def digit_val_def)
  then show ?thesis by (simp add: reading_def sample_fields)
qed

theorem health_figures_are_percentages_witness:
  "\<exists>c m d st'. getSystemHealth (Some [sample_stat]) (Some []) (Some \<lparr>sf_Blocks = 100, sf_Bfree = 40, sf_Bsize = 4096\<rparr>)
      \<lparr>h_prevIdle = 800, h_prevTotal = 900\<rparr> = ((c, m, d), st') \<and> {c, m, d} \<subseteq> {0..100}"
proof -
  have "starts_with ''cpu '' sample_stat" by (simp add: sample_stat_def)
  from health_figures_are_percentages [OF this, of "[]" "\<lparr>h_prevIdle = 800, h_prevTotal = 900\<rparr>" "[]" 0 0
      "\<lparr>sf_Blocks = 100, sf_Bfree = 40, sf_Bsize = 4096\<rparr>" "[]"]
  show ?thesis by (auto simp: sample_reading)
qed

lemma mem_scan_append: "mem_scan (xs @ ys) acc = mem_scan ys (mem_scan xs acc)"
  by (induction xs acc rule: mem_scan.induct) (simp_all add: Let_def)

definition mem_line :: "string \<Rightarrow> nat \<Rightarrow> string" where
  "mem_line name n = join_words [name, dec_str n, ''kB'']"

lemma not_space_kB: "\<not> is_space CHR ''k''" "\<not> is_space CHR ''B''"
  by (simp_all add: is_space_def)

lemma Fields_mem_line:
  "name \<noteq> [] \<Longrightarrow> list_all (\<lambda>c. \<not> is_space c) name \<Longrightarrow> Fields (mem_line name n) = [name, dec_str n, ''kB'']"
  unfolding mem_line_def
  by (rule Fields_join_words) (simp add: dec_str_not_Nil dec_str_no_space not_space_kB)

lemma mem_scan_other:
  "list_all (\<lambda>l. Fields l = [] \<or> hd (Fields l) \<notin> {''MemTotal:'', ''MemAvailable:''}) ls \<Longrightarrow> mem_scan ls acc = acc"
proof (induction ls arbitrary: acc)
  case (Cons l ls)
  obtain tot avail where acc: "acc = (tot, avail)" by (cases acc)
  show ?case
  proof (cases "length (Fields l) < 2")
    case True
    with Cons show ?thesis by (simp add: acc)
  next
    case False
    then have "Fields l \<noteq> []" by auto
    with Cons False show ?thesis by (auto simp: acc Let_def hd_conv_nth)
  qed
qed simp

text \<open>
  Memory in detail. For a \<^verbatim>\<open>meminfo\<close> file that has \<open>t\<close> KiB in its total line and \<open>a\<close> KiB in
  its line of available memory, whatever lines with other names stand around them, the panel
  shows exactly 100 minus the whole percentage of available memory, and the used memory of
  the detail page is their difference.
\<close>

theorem memory_figure_exact:
  assumes "a \<le> t" and "0 < t" and "t * 100 < 2 ^ 64"
    and "list_all (\<lambda>l. Fields l = [] \<or> hd (Fields l) \<notin> {''MemTotal:'', ''MemAvailable:''}) (l1 @ l2 @ l3)"
    and "file = l1 @ mem_line ''MemTotal:'' t # l2 @ mem_line ''MemAvailable:'' a # l3"
  shows "mem_pct (Some file) = 100 - int (a * 100 div t)
    \<and> getSystemHealthDetail n (Some file) None = (n, of_nat t, of_nat (t - a), 0, 0)"
proof -
  have l: "t < 2 ^ 64" "a < 2 ^ 64" using assms(1,3) by linarith+
  have s: "mem_scan file (0, 0) = (of_nat t, of_nat a)"
    using assms(4) l
    by (simp add: assms(5) mem_scan_append mem_scan_other Fields_mem_line is_space_def Let_def ParseUint64_dec_str)
  have u: "unat (of_nat t :: 64 word) = t" "unat (of_nat a :: 64 word) = a"
    using l by (simp_all add: unat_of_nat)
  have "(of_nat a :: 64 word) \<le> of_nat t" "(0 :: 64 word) < of_nat t" "unat (of_nat a :: 64 word) * 100 < 2 ^ 64"
    using assms(1-3) u by (simp_all add: word_le_nat_alt word_less_nat_alt)
  from used_pct_exact(1) [OF this] this(2) u s show ?thesis
    using assms(1) by (simp add: mem_pct_def getSystemHealthDetail_def of_nat_diff)
qed

theorem memory_figure_exact_witness:
  "mem_pct (Some [mem_line ''MemTotal:'' 16384, mem_line ''MemFree:'' 1000, mem_line ''MemAvailable:'' 4096]) = 75"
  using memory_figure_exact [of 4096 16384 "[]" "[mem_line ''MemFree:'' 1000]" "[]"
      "[mem_line ''MemTotal:'' 16384, mem_line ''MemFree:'' 1000, mem_line ''MemAvailable:'' 4096]"]
  by (simp add: Fields_mem_line is_space_def)

end
