(* ===== verification/Cli.thy ===== *)
theory Cli
  imports Client Transport Strings
begin

text \<open>
  The command line client for Windows (\<^verbatim>\<open>main_cli.go\<close>; \<^verbatim>\<open>main.go\<close> is the same program kept
  out of the build): its configuration from flags and file, the transport it dials, the
  commands that set up the device, and one step of each of its loops. It has no reconnect,
  and one cipher context serves all three goroutines.
\<close>

section \<open>Configuration\<close>

record CliConfig =
  cli_ServerIP :: string
  cli_Port :: int
  cli_ShortID :: "16 word"
  cli_SecretKey :: string
  cli_RoutingSalt :: string
  cli_InternalIP :: string
  cli_GatewayIP :: string
  cli_DNS :: string
  cli_Transport :: string
  cli_CDNDomain :: string

text \<open>The parsed flags with their defaults; \<^verbatim>\<open>-short-id\<close> is an unsigned 64-bit number.\<close>

record cli_flags =
  fl_server :: string
  fl_port :: int
  fl_shortID :: "64 word"
  fl_key :: string
  fl_salt :: string
  fl_config :: string

definition default_flags :: cli_flags where
  "default_flags = \<lparr>fl_server = [], fl_port = 0, fl_shortID = 0, fl_key = [], fl_salt = [], fl_config = ''config.json''\<rparr>"

definition flags_config :: "cli_flags \<Rightarrow> CliConfig" where
  "flags_config f =
     \<lparr>cli_ServerIP = fl_server f, cli_Port = fl_port f, cli_ShortID = ucast (fl_shortID f), cli_SecretKey = fl_key f,
      cli_RoutingSalt = fl_salt f, cli_InternalIP = [], cli_GatewayIP = [], cli_DNS = [], cli_Transport = [], cli_CDNDomain = []\<rparr>"

definition cli_incomplete :: "CliConfig \<Rightarrow> bool" where
  "cli_incomplete c \<longleftrightarrow> cli_ServerIP c = [] \<or> cli_Port c = 0 \<or> cli_SecretKey c = [] \<or> cli_RoutingSalt c = [] \<or> cli_ShortID c = 0"

text \<open>The file is read only when a flag is missing; what \<^verbatim>\<open>Decode\<close> leaves in the record is a
  parameter, its error is dropped.\<close>

definition read_file :: "(string \<Rightarrow> string option) \<Rightarrow> (string \<Rightarrow> CliConfig \<Rightarrow> CliConfig) \<Rightarrow> string \<Rightarrow> CliConfig \<Rightarrow> CliConfig" where
  "read_file file decode path c =
     (if cli_incomplete c then (case file path of None \<Rightarrow> c | Some content \<Rightarrow> decode content c) else c)"

definition cli_loadConfig ::
  "(string \<Rightarrow> string option) \<Rightarrow> (string \<Rightarrow> CliConfig \<Rightarrow> CliConfig) \<Rightarrow> cli_flags \<Rightarrow> CliConfig outcome" where
  "cli_loadConfig file decode f =
     (let c0 = read_file file decode (fl_config f) (flags_config f);
          c1 = c0\<lparr>cli_ServerIP := (if cli_ServerIP c0 = [] then ''45.134.39.18'' else cli_ServerIP c0)\<rparr>;
          c2 = c1\<lparr>cli_Port := (if cli_Port c1 = 0 then 19999 else cli_Port c1)\<rparr>
      in if cli_ShortID c2 = 0 then Err ''ShortID not set''
         else if cli_SecretKey c2 = [] then Err ''SecretKey not set''
         else Ok (c2\<lparr>cli_RoutingSalt := (if cli_RoutingSalt c2 = [] then ''HastaVaquetGlobal'' else cli_RoutingSalt c2),
                     cli_GatewayIP := (if cli_GatewayIP c2 = [] then ''192.168.100.1'' else cli_GatewayIP c2),
                     cli_DNS := (if cli_DNS c2 = [] then ''1.1.1.1'' else cli_DNS c2)\<rparr>))"

section \<open>Dialling\<close>

definition cli_request :: "CliConfig \<Rightarrow> dial_req" where
  "cli_request c =
     (if cli_Transport c = ''wss'' then
        (if cli_CDNDomain c \<noteq> [] then DialWSS (cli_CDNDomain c) 443 (cli_CDNDomain c)
         else DialWSS (cli_ServerIP c) (cli_Port c) (cli_ServerIP c))
      else if cli_Transport c = ''quic'' then
        DialQUICUDP (cli_ServerIP c) (cli_Port c) (cli_ShortID c) (cli_SecretKey c)
      else DialRawUDP (cli_ServerIP c) (cli_Port c))"

fun cli_prefix :: "dial_req \<Rightarrow> string" where
  "cli_prefix (DialWSS _ _ _) = ''wss dial: ''"
| "cli_prefix (DialQUICUDP _ _ _ _) = ''quic-udp dial: ''"
| "cli_prefix _ = ''udp dial: ''"

definition dialServer :: "net \<Rightarrow> CliConfig \<Rightarrow> string + conn" where
  "dialServer net c =
     (case dial_net net 0 (cli_request c) of
        Inl e \<Rightarrow> Inl (cli_prefix (cli_request c) @ e)
      | Inr conn \<Rightarrow> Inr conn)"

section \<open>Setting up the device\<close>

text \<open>The output of the PowerShell command, None when it failed.\<close>

definition getInterfaceIndex :: "string option \<Rightarrow> string" where
  "getInterfaceIndex out = (case out of None \<Rightarrow> [] | Some s \<Rightarrow> TrimSpace s)"

definition cli_commands :: "CliConfig \<Rightarrow> string \<Rightarrow> client_effect list" where
  "cli_commands c index =
     [Run ''netsh'' [''interface'', ''ip'', ''set'', ''address'', ''name=HastaVaquet'', ''static'', cli_InternalIP c, ''255.255.255.0''],
      Run ''netsh'' [''interface'', ''ipv4'', ''set'', ''subinterface'', ''name=HastaVaquet'', ''mtu=1300''],
      Run ''netsh'' [''interface'', ''ip'', ''set'', ''dns'', ''name=HastaVaquet'', ''static'', cli_DNS c],
      Run ''route'' [''delete'', cli_ServerIP c],
      Run ''route'' [''add'', cli_ServerIP c, ''mask'', ''255.255.255.255'', cli_GatewayIP c],
      Run ''route'' [''delete'', ''0.0.0.0'', cli_InternalIP c],
      Run ''route'' [''add'', ''0.0.0.0'', ''mask'', ''0.0.0.0'', cli_InternalIP c, ''metric'', ''1'', ''if'', index],
      Run ''netsh'' [''interface'', ''ipv6'', ''add'', ''route'', ''::/0'', ''name=HastaVaquet'', cli_InternalIP c, ''metric=1'']]"

text \<open>The handler of the interrupt signal, before \<^verbatim>\<open>os.Exit(0)\<close>.\<close>

definition cli_interrupt :: "CliConfig \<Rightarrow> client_effect list" where
  "cli_interrupt c = [StopChClosed, Run ''route'' [''delete'', ''0.0.0.0'', cli_InternalIP c]]"

section \<open>The program\<close>

text \<open>The configuration, the cipher context of all goroutines, the QUIC encoder's globals.\<close>

record Cli =
  cl_cfg :: CliConfig
  cl_cp :: CipherPack
  cl_quic :: qglobals

text \<open>What the system answers: the log file, the adapter, the index, the session.\<close>

record cli_env =
  ce_logFile :: "string option"
  ce_adapter :: "string option"
  ce_index :: "string option"
  ce_session :: "string option"

text \<open>\<^verbatim>\<open>main\<close> up to its loops: the effects, and the running client or the fatal error
  (\<^verbatim>\<open>log.Fatal\<close> skips the deferred calls). \<open>None\<close> in the environment means success. The log and
  the copy of \<^verbatim>\<open>wintun.dll\<close> put beside the executable are left out.\<close>

definition cli_setup ::
  "crypto \<Rightarrow> 64 word \<Rightarrow> net \<Rightarrow> cli_env \<Rightarrow> CliConfig \<Rightarrow> client_effect list \<times> Cli outcome" where
  "cli_setup C seed net e c =
     (case NewCipherPack C (DeriveKey C (cli_SecretKey c)) seed of
        Err m \<Rightarrow> ([], Err m)
      | Panic \<Rightarrow> ([], Panic)
      | Ok cp \<Rightarrow>
          (case ce_logFile e of
             Some m \<Rightarrow> ([], Err m)
           | None \<Rightarrow>
          (case ce_adapter e of
             Some m \<Rightarrow> ([], Err m)
           | None \<Rightarrow>
               let cmds = cli_commands c (getInterfaceIndex (ce_index e))
               in case dialServer net c of
                    Inl m \<Rightarrow> (cmds, Err m)
                  | Inr conn \<Rightarrow>
                      (case ce_session e of
                         Some m \<Rightarrow> (cmds, Err m)
                       | None \<Rightarrow> (cmds @ [Go ''keepalive'', Go ''reader''],
                                  Ok \<lparr>cl_cfg = c, cl_cp = cp, cl_quic = qglobals_init\<rparr>)))))"

definition cli_encrypt :: "crypto \<Rightarrow> (nat \<Rightarrow> byte) \<Rightarrow> bytes \<Rightarrow> Cli \<Rightarrow> bytes outcome \<times> Cli" where
  "cli_encrypt C padBuf data cl =
     (let (res, cp, g) = Encrypt C padBuf (cl_cp cl) (cl_quic cl) data (cli_ShortID (cl_cfg cl)) (cli_RoutingSalt (cl_cfg cl))
      in (res, cl\<lparr>cl_cp := cp, cl_quic := g\<rparr>))"

text \<open>One tick of the keep-alive goroutine. The only connection is number 0.\<close>

definition cli_keepalive :: "crypto \<Rightarrow> (nat \<Rightarrow> byte) \<Rightarrow> Cli \<Rightarrow> Cli \<times> client_effect list \<times> step_end" where
  "cli_keepalive C padBuf cl =
     (case cli_encrypt C padBuf [] cl of
        (Panic, cl') \<Rightarrow> (cl', [], ProcPanic)
      | (Err _, cl') \<Rightarrow> (cl', [], Continue)
      | (Ok keepAlive, cl') \<Rightarrow> (cl', [ConnWrite 0 keepAlive], Continue))"

text \<open>One round of the reader. A read gives data, or fails (by the deadline or otherwise), or
  panics inside the connection's library; a panic is recovered and ends the goroutine.\<close>

datatype cli_read = ReadData bytes | ReadTimeout | ReadError | ReadPanic

definition cli_reader_step :: "crypto \<Rightarrow> bool \<Rightarrow> bool \<Rightarrow> cli_read \<Rightarrow> Cli \<Rightarrow> Cli \<times> client_effect list \<times> step_end" where
  "cli_reader_step C stopped alloc rd cl =
     (if stopped then (cl, [], LoopReturn)
      else case rd of
        ReadPanic \<Rightarrow> (cl, [], LoopReturn)
      | ReadTimeout \<Rightarrow> (cl, [], Continue)
      | ReadError \<Rightarrow> (cl, [], Continue)
      | ReadData buf \<Rightarrow>
          if length buf < 4 + 2 + 12 then (cl, [], Continue)
          else case snd (Decrypt C (cl_cp cl) buf) of
                 Panic \<Rightarrow> (cl, [], LoopReturn)
               | Err _ \<Rightarrow> (cl, [], Continue)
               | Ok decrypted \<Rightarrow>
                   if decrypted = [] then (cl, [], Continue)
                   else if decrypted = [1] then (cl, [], Continue)
                   else if \<not> alloc then (cl, [], Continue)
                   else (cl, [TunSend decrypted], Continue))"

text \<open>One round of the main goroutine: a packet of the session, nothing yet (wait), or an
  error, which ends the program with its deferred calls.\<close>

datatype cli_packet = Received bytes | NoMoreItems | SessionError

definition cli_writer_step :: "crypto \<Rightarrow> (nat \<Rightarrow> byte) \<Rightarrow> cli_packet \<Rightarrow> Cli \<Rightarrow> Cli \<times> client_effect list \<times> step_end" where
  "cli_writer_step C padBuf rp cl =
     (case rp of
        Received packet \<Rightarrow>
          if length packet \<ge> 20 \<and> drop_bit 4 (packet ! 0) = 4
          then (case cli_encrypt C padBuf packet cl of
                  (Panic, cl') \<Rightarrow> (cl', [], ProcPanic)
                | (Err _, cl') \<Rightarrow> (cl', [], Continue)
                | (Ok encrypted, cl') \<Rightarrow> (cl', [ConnWrite 0 encrypted], Continue))
          else (cl, [], Continue)
      | NoMoreItems \<Rightarrow> (cl, [], Continue)
      | SessionError \<Rightarrow> (cl, [SessionEnd, ConnClose 0, AdapterClose], LoopReturn))"

section \<open>The reader as a loop\<close>

text \<open>Round \<open>i\<close>: is the stop channel closed, what the read gives, whether the session has a
  buffer. The loop returns the effects of all rounds, or never (\<open>None\<close>).\<close>

record cli_round =
  cr_stopped :: bool
  cr_read :: cli_read
  cr_alloc :: bool

partial_function (option) cli_reader ::
  "crypto \<Rightarrow> (nat \<Rightarrow> cli_round) \<Rightarrow> nat \<Rightarrow> Cli \<Rightarrow> client_effect list \<Rightarrow> (Cli \<times> client_effect list) option" where
  "cli_reader C rounds i cl effs =
     (let (cl', eff, en) = cli_reader_step C (cr_stopped (rounds i)) (cr_alloc (rounds i)) (cr_read (rounds i)) cl
      in if en = Continue then cli_reader C rounds (Suc i) cl' (effs @ eff) else Some (cl', effs @ eff))"

section \<open>Facts\<close>

lemma cli_reader_step_state: "fst (cli_reader_step C stopped alloc rd cl) = cl"
  by (auto simp: cli_reader_step_def split: cli_read.split outcome.split)

lemma cli_reader_unfold:
  "cli_reader C rounds i cl effs =
     (if snd (snd (cli_reader_step C (cr_stopped (rounds i)) (cr_alloc (rounds i)) (cr_read (rounds i)) cl)) = Continue
      then cli_reader C rounds (Suc i) cl
        (effs @ fst (snd (cli_reader_step C (cr_stopped (rounds i)) (cr_alloc (rounds i)) (cr_read (rounds i)) cl)))
      else Some (cl, effs @ fst (snd (cli_reader_step C (cr_stopped (rounds i)) (cr_alloc (rounds i)) (cr_read (rounds i)) cl))))"
  by (subst cli_reader.simps) (simp add: case_prod_beta cli_reader_step_state)

text \<open>A context that can decrypt at all.\<close>

definition cp_ready :: "CipherPack \<Rightarrow> bool" where
  "cp_ready cp \<longleftrightarrow> cp_noEncrypt cp \<or> cp_gcm cp \<noteq> None"

lemma cli_reader_step_continues:
  assumes "cp_ready (cl_cp cl)" and "\<And>b. rd = ReadData b \<Longrightarrow> length b \<le> 65535"
  shows "snd (snd (cli_reader_step go_crypto stopped alloc rd cl)) = Continue \<longleftrightarrow> \<not> stopped \<and> rd \<noteq> ReadPanic"
proof (cases rd)
  case (ReadData b)
  then have "snd (Decrypt go_crypto (cl_cp cl) b) \<noteq> Panic"
    using assms std.decrypt_no_panic [of "cl_cp cl" b] by (auto simp: cp_ready_def)
  with ReadData show ?thesis
    by (auto simp: cli_reader_step_def split: outcome.split)
qed (auto simp: cli_reader_step_def)

lemma cli_reader_returns:
  assumes "cp_ready (cl_cp cl)" and "\<And>j b. cr_read (rounds j) = ReadData b \<Longrightarrow> length b \<le> 65535"
    and "cr_stopped (rounds (i + d)) \<or> cr_read (rounds (i + d)) = ReadPanic"
  shows "cli_reader go_crypto rounds i cl effs \<noteq> None"
  using assms(3)
proof (induction d arbitrary: i effs)
  case 0
  then show ?case
    using cli_reader_step_continues [OF assms(1), of "cr_read (rounds i)" "cr_stopped (rounds i)" "cr_alloc (rounds i)"] assms(2)
    by (subst cli_reader_unfold) auto
next
  case (Suc d)
  then have "cli_reader go_crypto rounds (Suc i) cl effs' \<noteq> None" for effs' by simp
  then show ?case by (subst cli_reader_unfold) auto
qed

lemma cli_reader_needs_end:
  assumes "cli_reader C rounds i cl effs = Some r"
  shows "(\<forall>j. snd (snd (cli_reader_step C (cr_stopped (rounds j)) (cr_alloc (rounds j)) (cr_read (rounds j)) cl)) = Continue
      \<longleftrightarrow> \<not> cr_stopped (rounds j) \<and> cr_read (rounds j) \<noteq> ReadPanic) \<longrightarrow>
    (\<exists>j \<ge> i. cr_stopped (rounds j) \<or> cr_read (rounds j) = ReadPanic)"
  using assms
proof (induction rule: cli_reader.raw_induct [rotated, consumes 1])
  case (1 f C rounds i cl effs r)
  obtain cl' eff en where step: "cli_reader_step C (cr_stopped (rounds i)) (cr_alloc (rounds i)) (cr_read (rounds i)) cl = (cl', eff, en)"
    by (cases "cli_reader_step C (cr_stopped (rounds i)) (cr_alloc (rounds i)) (cr_read (rounds i)) cl")
  then have cl': "cl' = cl" using cli_reader_step_state by (metis fst_conv)
  show ?case
  proof (cases "en = Continue")
    case True
    with 1(2) step cl' have "f C rounds (Suc i) cl (effs @ eff) = Some r" by simp
    from 1(1) [OF this] show ?thesis by (auto dest: Suc_leD)
  next
    case False
    with step show ?thesis by (intro impI exI [of _ i]) (auto dest: spec [of _ i])
  qed
qed

section \<open>Properties\<close>

text \<open>
  The reader of the command line client has no way to end by itself: whatever
  arrives, and however often reading fails, it returns only after the stop channel was
  closed or when the connection's library panics. A connection that is gone for good is
  read again and again, and nothing reconnects.
\<close>

theorem reader_returns_only_when_stopped:
  assumes "cp_ready (cl_cp cl)" and "\<And>j b. cr_read (rounds j) = ReadData b \<Longrightarrow> length b \<le> 65535"
  shows "cli_reader go_crypto rounds i cl effs \<noteq> None \<longleftrightarrow> (\<exists>j \<ge> i. cr_stopped (rounds j) \<or> cr_read (rounds j) = ReadPanic)"
proof
  assume "cli_reader go_crypto rounds i cl effs \<noteq> None"
  moreover have "snd (snd (cli_reader_step go_crypto (cr_stopped (rounds j)) (cr_alloc (rounds j)) (cr_read (rounds j)) cl)) = Continue
      \<longleftrightarrow> \<not> cr_stopped (rounds j) \<and> cr_read (rounds j) \<noteq> ReadPanic" for j
    by (rule cli_reader_step_continues) (use assms in auto)
  ultimately show "\<exists>j \<ge> i. cr_stopped (rounds j) \<or> cr_read (rounds j) = ReadPanic"
    using cli_reader_needs_end [of go_crypto rounds i cl effs] by blast
next
  assume "\<exists>j \<ge> i. cr_stopped (rounds j) \<or> cr_read (rounds j) = ReadPanic"
  then obtain d where "cr_stopped (rounds (i + d)) \<or> cr_read (rounds (i + d)) = ReadPanic"
    using le_Suc_ex by blast
  then show "cli_reader go_crypto rounds i cl effs \<noteq> None" by (intro cli_reader_returns [where d = d] assms)
qed

definition sample_cli :: Cli where
  "sample_cli = \<lparr>cl_cfg = \<lparr>cli_ServerIP = ''192.0.2.1'', cli_Port = 4433, cli_ShortID = 3, cli_SecretKey = ''secret'',
     cli_RoutingSalt = [], cli_InternalIP = ''10.0.0.5'', cli_GatewayIP = ''192.168.100.1'', cli_DNS = ''1.1.1.1'',
     cli_Transport = ''auto'', cli_CDNDomain = []\<rparr>, cl_cp = sample_cp, cl_quic = qglobals_init\<rparr>"

theorem reader_returns_only_when_stopped_witness:
  "cli_reader go_crypto (\<lambda>_. \<lparr>cr_stopped = False, cr_read = ReadError, cr_alloc = True\<rparr>) 0 sample_cli [] = None"
  using reader_returns_only_when_stopped [of sample_cli "\<lambda>_. \<lparr>cr_stopped = False, cr_read = ReadError, cr_alloc = True\<rparr>" 0 "[]"]
  by (simp add: sample_cli_def sample_cp_def cp_ready_def del: not_None_eq)

text \<open>A complete configuration, but for the client's own address.\<close>

definition cli_complete :: "CliConfig \<Rightarrow> bool" where
  "cli_complete c \<longleftrightarrow> \<not> cli_incomplete c \<and> cli_GatewayIP c \<noteq> [] \<and> cli_DNS c \<noteq> []"

text \<open>
  LoadConfig either ends the program for want of a short id or a secret or yields a
  configuration complete but for the client's address: when the five flags are given, the
  file, which alone has an address, is not read, and the device and its default route are
  set up with an empty one. A short id given as a flag is cut to 16 bits.
\<close>

theorem flags_leave_address_empty:
  "case cli_loadConfig file decode f of
     Ok c \<Rightarrow> cli_complete c
       \<and> (cli_incomplete (flags_config f)
          \<or> cli_InternalIP c = [] \<and> cli_ShortID c = ucast (fl_shortID f)
            \<and> Run ''route'' [''add'', ''0.0.0.0'', ''mask'', ''0.0.0.0'', [], ''metric'', ''1'', ''if'', index]
                \<in> set (cli_commands c index))
   | Err e \<Rightarrow> cli_ShortID (read_file file decode (fl_config f) (flags_config f)) = 0
       \<or> cli_SecretKey (read_file file decode (fl_config f) (flags_config f)) = []
   | Panic \<Rightarrow> False"
proof -
  define c0 where "c0 = read_file file decode (fl_config f) (flags_config f)"
  have "\<not> cli_incomplete (flags_config f) \<longrightarrow> c0 = flags_config f" by (simp add: c0_def read_file_def)
  then show ?thesis
    unfolding cli_loadConfig_def c0_def [symmetric] Let_def
    by (auto simp: cli_complete_def cli_incomplete_def flags_config_def cli_commands_def)
qed

text \<open>The engine of the other clients in the same situation: same keys and identity, one copy
  of every packet, the only connection.\<close>

definition cli_like :: "Cli \<Rightarrow> VPN \<Rightarrow> bool" where
  "cli_like cl v \<longleftrightarrow> v_encCP v = Some (cl_cp cl) \<and> v_decCP v = Some (cl_cp cl) \<and> v_pingCP v = Some (cl_cp cl)
     \<and> v_quic v = cl_quic cl \<and> v_conn v = Some 0 \<and> \<not> v_stopping v
     \<and> cfg_ShortID (v_config v) = cli_ShortID (cl_cfg cl) \<and> cfg_RoutingSalt (v_config v) = cli_RoutingSalt (cl_cfg cl)
     \<and> cfg_FEC (v_config v) \<le> 1"

lemma cli_encrypt_like:
  assumes "cli_like cl v"
  shows "cli_encrypt C padBuf d cl =
    (let (res, c, g) = client_encrypt C padBuf v (Some (cl_cp cl)) d in (res, cl\<lparr>cl_cp := the c, cl_quic := g\<rparr>))"
    and "\<exists>res c g. client_encrypt C padBuf v (Some (cl_cp cl)) d = (res, Some c, g)"
  using assms by (simp_all add: cli_like_def cli_encrypt_def client_encrypt_def case_prod_beta)

text \<open>
  C25: the command line client does what the engine of the other clients does: from
  corresponding states its writer, its keep-alive and, as long as decryption does not panic,
  its reader have the same effects and continue alike, and the cipher context advances
  alike.
\<close>

theorem cli_steps_match_engine:
  assumes "cli_like cl v"
  shows "snd (cli_writer_step C padBuf (Received packet) cl) = snd (win_writer_step C padBuf packet v)
    \<and> Some (cl_cp (fst (cli_writer_step C padBuf (Received packet) cl))) = v_encCP (fst (win_writer_step C padBuf packet v))
    \<and> snd (cli_keepalive C padBuf cl) = snd (ping_send C padBuf nowMs nowNs v)
    \<and> Some (cl_cp (fst (cli_keepalive C padBuf cl))) = v_pingCP (fst (ping_send C padBuf nowMs nowNs v))
    \<and> (snd (Decrypt C (cl_cp cl) buf) = Panic \<or>
       snd (cli_reader_step C False alloc (ReadData buf) cl) = snd (win_reader_step C nowMs True alloc (Some buf) v))"
proof (intro conjI)
  have v: "v_encCP v = Some (cl_cp cl)" "v_pingCP v = Some (cl_cp cl)" "v_conn v = Some 0" "clamp_fec (cfg_FEC (v_config v)) = 1"
    using assms by (auto simp: cli_like_def clamp_fec_def Let_def)
  obtain res c g where W: "client_encrypt C padBuf v (Some (cl_cp cl)) packet = (res, Some c, g)"
    using cli_encrypt_like(2) [OF assms] by blast
  obtain res' c' g' where K: "client_encrypt C padBuf v (Some (cl_cp cl)) [] = (res', Some c', g')"
    using cli_encrypt_like(2) [OF assms] by blast
  show "snd (cli_writer_step C padBuf (Received packet) cl) = snd (win_writer_step C padBuf packet v)"
    "Some (cl_cp (fst (cli_writer_step C padBuf (Received packet) cl))) = v_encCP (fst (win_writer_step C padBuf packet v))"
    using v by (auto simp: cli_writer_step_def win_writer_step_def cli_encrypt_like(1) [OF assms] W count_sent_def
        split: outcome.split)
  show "snd (cli_keepalive C padBuf cl) = snd (ping_send C padBuf nowMs nowNs v)"
    "Some (cl_cp (fst (cli_keepalive C padBuf cl))) = v_pingCP (fst (ping_send C padBuf nowMs nowNs v))"
    using v by (auto simp: cli_keepalive_def ping_send_def cli_encrypt_like(1) [OF assms] K split: outcome.split)
  show "snd (Decrypt C (cl_cp cl) buf) = Panic \<or>
       snd (cli_reader_step C False alloc (ReadData buf) cl) = snd (win_reader_step C nowMs True alloc (Some buf) v)"
    using assms
    by (auto simp: cli_like_def cli_reader_step_def win_reader_step_def client_decrypt_def Let_def split: outcome.split)
qed

theorem cli_steps_match_engine_witness:
  "\<exists>v. cli_like sample_cli v
    \<and> snd (cli_writer_step go_crypto (\<lambda>_. 0) (Received [0x45]) sample_cli) = snd (win_writer_step go_crypto (\<lambda>_. 0) [0x45] v)
    \<and> snd (cli_keepalive go_crypto (\<lambda>_. 0) sample_cli) = snd (ping_send go_crypto (\<lambda>_. 0) 1000 5 v)"
proof -
  let ?v = "(New go_crypto (1, 2, 3) (zero_Config\<lparr>cfg_ShortID := 3\<rparr>) True)
    \<lparr>v_encCP := Some sample_cp, v_decCP := Some sample_cp, v_pingCP := Some sample_cp, v_conn := Some 0\<rparr>"
  have l: "cli_like sample_cli ?v"
    by (simp add: cli_like_def sample_cli_def New_def Let_def zero_Config_def)
  from cli_steps_match_engine [OF this, of go_crypto "\<lambda>_. 0" "[0x45]" 1000 5] l show ?thesis by blast
qed

text \<open>
  The default route into the device is set before the server is dialled; when dialling
  fails the program ends without taking it back.
\<close>

theorem failed_dial_leaves_route:
  assumes "cli_setup C seed net e c = (effs, Err m)" and "effs \<noteq> []"
  shows "effs = cli_commands c (getInterfaceIndex (ce_index e))
    \<and> Run ''route'' [''delete'', ''0.0.0.0'', cli_InternalIP c] \<notin>
        set (dropWhile (\<lambda>x. x \<noteq> Run ''route'' [''add'', ''0.0.0.0'', ''mask'', ''0.0.0.0'', cli_InternalIP c, ''metric'', ''1'', ''if'',
          getInterfaceIndex (ce_index e)]) effs)"
proof -
  have "effs = cli_commands c (getInterfaceIndex (ce_index e))"
    using assms by (auto simp: cli_setup_def Let_def split: outcome.splits option.splits sum.splits)
  then show ?thesis by (simp add: cli_commands_def)
qed

end
