(* ===== verification/Services.thy ===== *)
theory Services
  imports Transport WebPanel "HOL-Library.Multiset"
begin

text \<open>
  What a server offers and where a client knocks: the start-up of \<^verbatim>\<open>server/server.go\<close>
  (device commands and the services it starts), the HTTP servers of
  \<^verbatim>\<open>server/wss_server.go\<close> and of the panel, and the targets of the client's diallers in
  \<^verbatim>\<open>core/transport.go\<close>. Listening itself belongs to the system.
\<close>

section \<open>HTTP servers\<close>

datatype service = Panel | WebSocket | XHTTP

text \<open>Where a server listens, whether with TLS, and the path its handler is registered for.\<close>

record http_server =
  hs_service :: service
  hs_host :: string
  hs_port :: int
  hs_tls :: bool
  hs_path :: string

definition hs_Addr :: "http_server \<Rightarrow> string" where
  "hs_Addr h = hs_host h @ '':'' @ int_str (hs_port h)"

definition NewWSSServer :: "Config \<Rightarrow> string + http_server" where
  "NewWSSServer cfg =
     (if cfg_TLSCertFile cfg = [] \<or> cfg_TLSKeyFile cfg = [] then Inl ''WSS: tls_cert and tls_key required''
      else Inr \<lparr>hs_service = WebSocket, hs_host = [], hs_port = 443, hs_tls = True, hs_path = cfg_AdminPath cfg @ ''/ws''\<rparr>)"

definition NewPlainWSServer :: "int \<Rightarrow> Config \<Rightarrow> http_server" where
  "NewPlainWSServer port cfg =
     \<lparr>hs_service = WebSocket, hs_host = [], hs_port = port, hs_tls = False, hs_path = cfg_AdminPath cfg @ ''/ws''\<rparr>"

definition xhttp_server :: "int \<Rightarrow> Config \<Rightarrow> http_server" where
  "xhttp_server port cfg =
     \<lparr>hs_service = XHTTP, hs_host = [], hs_port = port, hs_tls = False, hs_path = cfg_AdminPath cfg @ ''/xhttp''\<rparr>"

definition panel_server :: "Config \<Rightarrow> http_server" where
  "panel_server cfg =
     \<lparr>hs_service = Panel, hs_host = ''localhost'', hs_port = cfg_AdminPort cfg, hs_tls = False, hs_path = cfg_AdminPath cfg @ ''/''\<rparr>"

text \<open>\<^verbatim>\<open>handleWS\<close>: the label it logs, and the connection it hands to the readers.\<close>

definition handleWS :: "http_server \<Rightarrow> string + 'c \<Rightarrow> string \<times> 'c option" where
  "handleWS h upgraded =
     (case upgraded of
        Inl err \<Rightarrow> (''[WSS] Upgrade error: '' @ err, None)
      | Inr conn \<Rightarrow> (if hs_Addr h = '':19998'' then ''WS'' else ''WSS'', Some conn))"

text \<open>What a server does when listening fails with \<open>err\<close>: the WebSocket servers end the
  process (\<open>Some\<close>), the others only log.\<close>

definition listen_failed :: "http_server \<Rightarrow> string \<Rightarrow> string option" where
  "listen_failed h err =
     (case hs_service h of
        WebSocket \<Rightarrow> (if err \<noteq> ''http: Server closed'' then Some err else None)
      | _ \<Rightarrow> None)"

section \<open>Start-up\<close>

datatype start_effect = RunIp "string list" | Serve http_server | ListenUDP int

text \<open>The name of the TUN device or the error of creating it; the error of opening a port.\<close>

record start_env =
  st_tun :: "string + string"
  st_udp :: "int \<Rightarrow> string option"

definition tun_commands :: "string \<Rightarrow> start_effect list" where
  "tun_commands dev =
     [RunIp [''addr'', ''add'', ''10.0.0.2/24'', ''dev'', dev],
      RunIp [''link'', ''set'', ''dev'', dev, ''up''],
      RunIp [''link'', ''set'', ''dev'', dev, ''mtu'', ''1300''],
      RunIp [''link'', ''set'', ''dev'', dev, ''txqueuelen'', ''10000'']]"

definition wss_services :: "Config \<Rightarrow> start_effect list outcome" where
  "wss_services cfg =
     (if cfg_TLSCertFile cfg \<noteq> [] \<and> cfg_TLSKeyFile cfg \<noteq> []
      then (case NewWSSServer cfg of Inl e \<Rightarrow> Err e | Inr h \<Rightarrow> Ok [Serve h])
      else Ok [])"

definition xhttpPort :: "Config \<Rightarrow> int" where
  "xhttpPort cfg = (let p = cfg_WSPort cfg + 1 in if p = 0 then 19997 else p)"

text \<open>The plain WebSocket server, the UDP socket and the XHTTP server.\<close>

definition plain_ws_services :: "Config \<Rightarrow> start_effect list" where
  "plain_ws_services cfg = [Serve (NewPlainWSServer (cfg_WSPort cfg) cfg)]"

definition udp_services :: "start_env \<Rightarrow> Config \<Rightarrow> start_effect list outcome" where
  "udp_services e cfg =
     (case st_udp e (cfg_Port cfg) of Some err \<Rightarrow> Err err | None \<Rightarrow> Ok [ListenUDP (cfg_Port cfg)])"

definition xhttp_services :: "Config \<Rightarrow> start_effect list" where
  "xhttp_services cfg = [Serve (xhttp_server (xhttpPort cfg) cfg)]"

text \<open>\<^verbatim>\<open>main\<close> after the users are registered; \<open>Err\<close> is \<^verbatim>\<open>Fatalf\<close>. The first component: what was
  done until then. The goroutines it starts between, which read the connections, are the
  readers of the theory \<open>Wire\<close>.\<close>

definition start_services :: "start_env \<Rightarrow> Config \<Rightarrow> start_effect list \<times> unit outcome" where
  "start_services e cfg =
     (let panel = (if cfg_AdminToken cfg \<noteq> [] then [Serve (panel_server cfg)] else [])
      in case st_tun e of
           Inl err \<Rightarrow> (panel, Err err)
         | Inr dev \<Rightarrow>
             let cmds = panel @ tun_commands dev
             in case wss_services cfg of
                  Err err \<Rightarrow> (cmds, Err err)
                | Panic \<Rightarrow> (cmds, Panic)
                | Ok wss \<Rightarrow>
                    let ws = cmds @ wss @ plain_ws_services cfg
                    in case udp_services e cfg of
                         Err err \<Rightarrow> (ws, Err err)
                       | Panic \<Rightarrow> (ws, Panic)
                       | Ok udp \<Rightarrow> (ws @ udp @ xhttp_services cfg, Ok ()))"

lemmas later_services [simp] = plain_ws_services_def udp_services_def xhttp_services_def

text \<open>The whole of \<^verbatim>\<open>main\<close> up to its last loop: the configuration, the users, the services.\<close>

definition server_main ::
  "crypto \<Rightarrow> start_env \<Rightarrow> (User \<Rightarrow> 64 word) \<Rightarrow> Config \<Rightarrow> start_effect list \<times> server outcome" where
  "server_main C e seed cfg =
     (case register_users C (map (\<lambda>u. (u, seed u)) (cfg_Users cfg)) (init_server cfg) of
        Err err \<Rightarrow> ([], Err err)
      | Panic \<Rightarrow> ([], Panic)
      | Ok s \<Rightarrow> (let (effs, r) = start_services e cfg in (effs, bindO r (\<lambda>_. Ok s))))"

fun served :: "start_effect list \<Rightarrow> http_server list" where
  "served [] = []"
| "served (Serve h # effs) = h # served effs"
| "served (_ # effs) = served effs"

section \<open>Targets of the client\<close>

text \<open>Where a request goes: by TCP or UDP, to which port, with TLS, for which path. The host is kept
  as text; the UDP diallers read it with \<^verbatim>\<open>net.ParseIP\<close>, so it has to be an address there.\<close>

datatype target = UdpTarget string int | HttpTarget service string int bool string

definition wss_url :: "string \<Rightarrow> int \<Rightarrow> string" where
  "wss_url server port = ''wss://'' @ server @ '':'' @ int_str port @ ''/hasta-vaquet/ws''"

definition ws_url :: "string \<Rightarrow> int \<Rightarrow> string" where
  "ws_url server port = ''ws://'' @ server @ '':'' @ int_str port @ ''/hasta-vaquet/ws''"

definition xhttp_url :: "string \<Rightarrow> int \<Rightarrow> string" where
  "xhttp_url server port = ''http://'' @ server @ '':'' @ int_str port @ ''/hasta-vaquet/xhttp''"

fun dial_target :: "dial_req \<Rightarrow> target" where
  "dial_target (DialWSS server port _) = HttpTarget WebSocket server port True ''/hasta-vaquet/ws''"
| "dial_target (DialWS server port) = HttpTarget WebSocket server port False ''/hasta-vaquet/ws''"
| "dial_target (DialQUICUDP server port _ _) = UdpTarget server port"
| "dial_target (DialRawUDP server port) = UdpTarget server port"
| "dial_target (DialXHTTP server port) = HttpTarget XHTTP server port False ''/hasta-vaquet/xhttp''"

text \<open>A server for the target has been started: the host of the target is not compared, and
  whether the port could be bound is the subject of \<open>servers_listen_iff_ports_differ\<close>. The path
  of a handler without a final slash is matched exactly.\<close>

definition offers :: "start_effect list \<Rightarrow> target \<Rightarrow> bool" where
  "offers effs t =
     (case t of
        UdpTarget _ port \<Rightarrow> ListenUDP port \<in> set effs
      | HttpTarget sv _ port tls path \<Rightarrow>
          \<exists>h \<in> set (served effs). hs_service h = sv \<and> hs_port h = port \<and> hs_tls h = tls \<and> hs_path h = path)"

section \<open>What a started server offers\<close>

lemma served_append [simp]: "served (xs @ ys) = served xs @ served ys"
  by (induction xs rule: served.induct) simp_all

lemma served_tun_commands [simp]: "served (tun_commands d) = []" "ListenUDP p \<notin> set (tun_commands d)"
  by (simp_all add: tun_commands_def)

lemma served_wss:
  "wss_services cfg = Ok wss \<Longrightarrow>
    served wss = (if cfg_TLSCertFile cfg \<noteq> [] \<and> cfg_TLSKeyFile cfg \<noteq> []
      then [\<lparr>hs_service = WebSocket, hs_host = [], hs_port = 443, hs_tls = True, hs_path = cfg_AdminPath cfg @ ''/ws''\<rparr>] else [])
    \<and> ListenUDP p \<notin> set wss"
  by (auto simp: wss_services_def NewWSSServer_def split: if_splits)

lemma wss_services_total: "\<exists>wss. wss_services cfg = Ok wss"
  by (simp add: wss_services_def NewWSSServer_def)

lemma started:
  assumes "start_services e cfg = (effs, Ok ())"
  shows "served effs =
      (if cfg_AdminToken cfg \<noteq> [] then [panel_server cfg] else [])
      @ (if cfg_TLSCertFile cfg \<noteq> [] \<and> cfg_TLSKeyFile cfg \<noteq> []
         then [\<lparr>hs_service = WebSocket, hs_host = [], hs_port = 443, hs_tls = True, hs_path = cfg_AdminPath cfg @ ''/ws''\<rparr>] else [])
      @ [NewPlainWSServer (cfg_WSPort cfg) cfg, xhttp_server (xhttpPort cfg) cfg]"
    and "ListenUDP p \<in> set effs \<longleftrightarrow> p = cfg_Port cfg"
proof -
  obtain wss where w: "wss_services cfg = Ok wss" using wss_services_total by blast
  obtain dev where d: "st_tun e = Inr dev" using assms by (auto simp: start_services_def Let_def split: sum.splits)
  have u: "st_udp e (cfg_Port cfg) = None" using assms by (auto simp: start_services_def w d Let_def split: option.splits)
  have effs: "effs = (if cfg_AdminToken cfg \<noteq> [] then [Serve (panel_server cfg)] else []) @ tun_commands dev @ wss
      @ [Serve (NewPlainWSServer (cfg_WSPort cfg) cfg), ListenUDP (cfg_Port cfg), Serve (xhttp_server (xhttpPort cfg) cfg)]"
    using assms by (simp add: start_services_def w d u Let_def)
  show "served effs = (if cfg_AdminToken cfg \<noteq> [] then [panel_server cfg] else [])
      @ (if cfg_TLSCertFile cfg \<noteq> [] \<and> cfg_TLSKeyFile cfg \<noteq> []
         then [\<lparr>hs_service = WebSocket, hs_host = [], hs_port = 443, hs_tls = True, hs_path = cfg_AdminPath cfg @ ''/ws''\<rparr>] else [])
      @ [NewPlainWSServer (cfg_WSPort cfg) cfg, xhttp_server (xhttpPort cfg) cfg]"
    using served_wss [OF w] by (simp add: effs)
  show "ListenUDP p \<in> set effs \<longleftrightarrow> p = cfg_Port cfg" using served_wss [OF w] by (auto simp: effs)
qed

lemma path_eq [simp]:
  "p @ ''/ws'' = ''/hasta-vaquet/ws'' \<longleftrightarrow> p = ''/hasta-vaquet''"
  "p @ ''/xhttp'' = ''/hasta-vaquet/xhttp'' \<longleftrightarrow> p = ''/hasta-vaquet''"
  using append_same_eq [of p "''/ws''" "''/hasta-vaquet''"] append_same_eq [of p "''/xhttp''" "''/hasta-vaquet''"]
  by simp_all

definition has_tls :: "Config \<Rightarrow> bool" where
  "has_tls cfg \<longleftrightarrow> cfg_TLSCertFile cfg \<noteq> [] \<and> cfg_TLSKeyFile cfg \<noteq> []"

lemma offers_started:
  assumes "start_services e cfg = (effs, Ok ())"
  shows "offers effs (UdpTarget h p) \<longleftrightarrow> p = cfg_Port cfg"
    and "offers effs (HttpTarget WebSocket h p True ''/hasta-vaquet/ws'') \<longleftrightarrow>
      has_tls cfg \<and> p = 443 \<and> cfg_AdminPath cfg = ''/hasta-vaquet''"
    and "offers effs (HttpTarget WebSocket h p False ''/hasta-vaquet/ws'') \<longleftrightarrow>
      p = cfg_WSPort cfg \<and> cfg_AdminPath cfg = ''/hasta-vaquet''"
    and "offers effs (HttpTarget XHTTP h p False ''/hasta-vaquet/xhttp'') \<longleftrightarrow>
      p = xhttpPort cfg \<and> cfg_AdminPath cfg = ''/hasta-vaquet''"
  using assms
  by (auto simp: offers_def started panel_server_def NewPlainWSServer_def xhttp_server_def has_tls_def)

section \<open>Ports\<close>

text \<open>The servers start in goroutines, so in any order. A port that is out of range or taken
  gives an error; a fatal one ends the process. Results: the servers that listen, the fatal
  error.\<close>

definition bindable :: "int list \<Rightarrow> http_server \<Rightarrow> bool" where
  "bindable taken h \<longleftrightarrow> 0 < hs_port h \<and> hs_port h \<le> 65535 \<and> hs_port h \<notin> set taken"

definition bind_error :: "http_server \<Rightarrow> string" where
  "bind_error h = ''listen tcp '' @ hs_Addr h @ '': cannot bind''"

fun bind_all :: "int list \<Rightarrow> http_server list \<Rightarrow> http_server list \<times> string option" where
  "bind_all taken [] = ([], None)"
| "bind_all taken (h # hs) =
     (if bindable taken h then (let (ls, e) = bind_all (hs_port h # taken) hs in (h # ls, e))
      else case listen_failed h (bind_error h) of
             Some e \<Rightarrow> ([], Some e)
           | None \<Rightarrow> bind_all taken hs)"

lemma bind_all_bindable:
  "bindable taken h \<Longrightarrow> bind_all taken (h # hs) =
    (h # fst (bind_all (hs_port h # taken) hs), snd (bind_all (hs_port h # taken) hs))"
  by (simp add: case_prod_beta)

lemma listen_failed_WebSocket: "hs_service h = WebSocket \<Longrightarrow> listen_failed h (bind_error h) = Some (bind_error h)"
  by (simp add: listen_failed_def bind_error_def)

lemma bind_all_unbindable:
  "\<not> bindable taken h \<Longrightarrow> hs_service h = WebSocket \<Longrightarrow> snd (bind_all taken (h # hs)) \<noteq> None"
  "\<not> bindable taken h \<Longrightarrow> hs_service h \<noteq> WebSocket \<Longrightarrow> bind_all taken (h # hs) = bind_all taken hs"
  by (simp_all add: listen_failed_WebSocket) (cases "hs_service h"; simp add: listen_failed_def)

lemmas bind_all_Cons = bind_all_bindable bind_all_unbindable

declare bind_all.simps(2) [simp del]

lemma length_bind_all: "length (fst (bind_all taken hs)) \<le> length hs"
proof (induction hs arbitrary: taken)
  case (Cons h hs)
  show ?case
  proof (cases "bindable taken h")
    case True
    with Cons.IH [of "hs_port h # taken"] show ?thesis by (simp add: bind_all_bindable)
  next
    case False
    with Cons.IH [of taken] show ?thesis
      by (auto simp: bind_all.simps(2) split: option.split)
  qed
qed simp

lemma bind_all_complete:
  "bind_all taken hs = (hs, None) \<longleftrightarrow>
    distinct (map hs_port hs) \<and> (\<forall>h \<in> set hs. bindable taken h)"
proof (induction hs arbitrary: taken)
  case (Cons h hs)
  show ?case
  proof (cases "bindable taken h")
    case True
    have "(\<forall>x \<in> set hs. bindable (hs_port h # taken) x) \<longleftrightarrow>
        (\<forall>x \<in> set hs. bindable taken x) \<and> (\<forall>x \<in> set hs. hs_port x \<noteq> hs_port h)"
      by (auto simp: bindable_def)
    with True Cons.IH [of "hs_port h # taken"] show ?thesis
      by (cases "bind_all (hs_port h # taken) hs") (auto simp: bind_all_bindable image_iff eq_commute [of "hs_port h"])
  next
    case False
    have "fst (bind_all taken hs) \<noteq> h # hs" using length_bind_all [of taken hs] by auto
    with False bind_all_unbindable [of taken h hs] show ?thesis
      by (cases "hs_service h = WebSocket") auto
  qed
qed simp

lemma bind_taken:
  "h \<in> set hs \<Longrightarrow> hs_service h = WebSocket \<Longrightarrow> hs_port h \<in> set taken \<Longrightarrow> snd (bind_all taken hs) \<noteq> None"
proof (induction hs arbitrary: taken)
  case (Cons x hs)
  show ?case
  proof (cases "bindable taken x")
    case True
    then have "x \<noteq> h" using Cons.prems(3) by (auto simp: bindable_def)
    with Cons.prems Cons.IH [of "hs_port x # taken"] True show ?thesis by (simp add: bind_all_bindable)
  next
    case False
    with Cons.prems Cons.IH [of taken] bind_all_unbindable [OF False, of hs] show ?thesis
      by (cases "hs_service x = WebSocket") auto
  qed
qed simp

lemma bind_clash:
  "h1 \<in> set hs \<Longrightarrow> h2 \<in> set hs \<Longrightarrow> h1 \<noteq> h2 \<Longrightarrow> hs_service h1 = WebSocket \<Longrightarrow> hs_service h2 = WebSocket \<Longrightarrow>
    hs_port h1 = hs_port h2 \<Longrightarrow> snd (bind_all taken hs) \<noteq> None"
proof (induction hs arbitrary: taken)
  case (Cons x hs)
  show ?case
  proof (cases "bindable taken x")
    case True
    have "snd (bind_all (hs_port x # taken) hs) \<noteq> None"
      using Cons.prems Cons.IH [of "hs_port x # taken"] bind_taken [of h1 hs "hs_port x # taken"]
        bind_taken [of h2 hs "hs_port x # taken"] by auto
    with True show ?thesis by (simp add: bind_all_bindable)
  next
    case False
    with Cons.prems Cons.IH [of taken] bind_all_unbindable [OF False, of hs] show ?thesis
      by (cases "hs_service x = WebSocket") auto
  qed
qed simp

section \<open>Properties\<close>

text \<open>A path without the wildcards and escapes of the request router.\<close>

definition plain_path :: "string \<Rightarrow> bool" where
  "plain_path p \<longleftrightarrow> (\<exists>q. p = CHR ''/'' # q) \<and> CHR ''{'' \<notin> set p \<and> CHR ''%'' \<notin> set p"

text \<open>Which transports of a client reach a server.\<close>

definition reaches :: "Config \<Rightarrow> Config \<Rightarrow> string \<Rightarrow> bool" where
  "reaches cfg c t \<longleftrightarrow>
     (if t \<in> {''udp'', ''quic''} then cfg_Port c = cfg_Port cfg
      else cfg_AdminPath cfg = ''/hasta-vaquet''
        \<and> (if t = ''ws'' then cfg_WSPort cfg = (if cfg_WSPort c = 0 then 19998 else cfg_WSPort c)
           else if t = ''wss'' then has_tls cfg \<and> cfg_Port c = 443
           else cfg_WSPort cfg = cfg_WSPort c))"

text \<open>
  C19: what a client dials is offered by a started server exactly if, for UDP and the
  QUIC header, the ports agree; for the HTTP transports the server must keep the default
  admin path, because the client's paths are fixed, and then the WebSocket ports must agree
  (a client without one uses 19998 for WebSocket but port 1 for XHTTP), and for WSS without
  a CDN the server needs certificates and the client the port 443.
\<close>

theorem transports_that_reach_server:
  assumes "start_services e cfg = (effs, Ok ())" and "plain_path (cfg_AdminPath cfg)" and "0 < cfg_WSPort cfg"
    and "cfg_CDNDomain c = []" and "dialTransport net c n t = Inr (m, r)"
  shows "offers effs (dial_target r) \<longleftrightarrow> reaches cfg c t"
proof -
  have x: "xhttpPort cfg = cfg_WSPort cfg + 1" using assms(3) by (simp add: xhttpPort_def)
  consider "t = ''wss''" | "t = ''ws''" | "t = ''quic''" | "t = ''udp''" | "t = ''xhttp''"
    using assms(5) by (auto simp: dialTransport_def split: if_splits)
  then show ?thesis
    using assms(4,5) offers_started [OF assms(1)] x
    by cases (auto simp: dialTransport_def dial_net_def reaches_def Let_def split: option.splits)
qed

definition sample_start :: start_env where
  "sample_start = \<lparr>st_tun = Inr ''tun0'', st_udp = (\<lambda>_. None)\<rparr>"

lemma sample_started_services: "\<exists>effs. start_services sample_start cfg = (effs, Ok ())"
  using wss_services_total [of cfg] by (auto simp: start_services_def sample_start_def Let_def)

theorem transports_that_reach_server_witness:
  "\<exists>effs. start_services sample_start (SetDefaults zero_Config) = (effs, Ok ())
    \<and> \<not> offers effs (dial_target (DialXHTTP ''192.0.2.1'' 1))"
proof -
  obtain effs where s: "start_services sample_start (SetDefaults zero_Config) = (effs, Ok ())"
    using sample_started_services by blast
  have p: "plain_path (cfg_AdminPath (SetDefaults zero_Config))" "0 < cfg_WSPort (SetDefaults zero_Config)"
    by (simp_all add: plain_path_def zero_Config_def)
  have "dialTransport (\<lambda>_ _. None) (zero_Config\<lparr>cfg_ServerIP := ''192.0.2.1''\<rparr>) 0 ''xhttp'' = Inr (0, DialXHTTP ''192.0.2.1'' 1)"
    by (simp add: dialTransport_def zero_Config_def)
  with transports_that_reach_server [OF s p _ this] s show ?thesis
    by (auto simp: zero_Config_def reaches_def)
qed

text \<open>
  In whatever order its servers start, every one of them listens exactly if their ports
  are different and valid; two WebSocket servers on one port, as with certificates and the
  WebSocket port 443, always end the process.
\<close>

theorem servers_listen_iff_ports_differ:
  assumes "start_services e cfg = (effs, Ok ())" and "mset hs = mset (served effs)"
  shows "(bind_all [] hs = (hs, None) \<longleftrightarrow>
      distinct (map hs_port (served effs)) \<and> (\<forall>h \<in> set (served effs). 0 < hs_port h \<and> hs_port h \<le> 65535))
    \<and> (has_tls cfg \<and> cfg_WSPort cfg = 443 \<longrightarrow> snd (bind_all [] hs) \<noteq> None)"
proof
  have m: "set hs = set (served effs)" "mset (map hs_port hs) = mset (map hs_port (served effs))"
    using assms(2) by (metis set_mset_mset, simp)
  then show "bind_all [] hs = (hs, None) \<longleftrightarrow>
      distinct (map hs_port (served effs)) \<and> (\<forall>h \<in> set (served effs). 0 < hs_port h \<and> hs_port h \<le> 65535)"
    using mset_eq_imp_distinct_iff [OF m(2)] by (simp add: bind_all_complete bindable_def)
  show "has_tls cfg \<and> cfg_WSPort cfg = 443 \<longrightarrow> snd (bind_all [] hs) \<noteq> None"
    using bind_clash [of "NewPlainWSServer 443 cfg" hs "(NewPlainWSServer 443 cfg)\<lparr>hs_tls := True\<rparr>" "[]"] m(1)
    by (auto simp: started [OF assms(1)] has_tls_def NewPlainWSServer_def)
qed

theorem servers_listen_iff_ports_differ_witness:
  "\<exists>effs. start_services sample_start (SetDefaults zero_Config) = (effs, Ok ())
    \<and> bind_all [] (rev (served effs)) = (rev (served effs), None)"
proof -
  obtain effs where s: "start_services sample_start (SetDefaults zero_Config) = (effs, Ok ())"
    using sample_started_services by blast
  have "map hs_port (served effs) = [19998, 19999]"
    by (simp add: started [OF s] zero_Config_def NewPlainWSServer_def xhttp_server_def xhttpPort_def SetDefaults_def)
  with servers_listen_iff_ports_differ [OF s, of "rev (served effs)"] s show ?thesis
    by (auto simp: started [OF s] zero_Config_def NewPlainWSServer_def xhttp_server_def xhttpPort_def SetDefaults_def)
qed

text \<open>
  The start succeeds exactly if every user registers, the device can be created and the UDP
  port opened; without a device nothing but the panel has been started.
\<close>

theorem server_main_starts:
  "(\<exists>effs s. server_main C e seed cfg = (effs, Ok s)) \<longleftrightarrow>
     (\<exists>s. register_users C (map (\<lambda>u. (u, seed u)) (cfg_Users cfg)) (init_server cfg) = Ok s)
     \<and> (\<exists>dev. st_tun e = Inr dev) \<and> st_udp e (cfg_Port cfg) = None"
  using wss_services_total [of cfg]
  by (auto simp: server_main_def start_services_def Let_def split: outcome.splits sum.splits option.splits prod.splits)

theorem no_device_no_services:
  assumes "st_tun e = Inl err"
  shows "start_services e cfg = (if cfg_AdminToken cfg \<noteq> [] then [Serve (panel_server cfg)] else [], Err err)"
  using assms by (simp add: start_services_def Let_def)

theorem no_device_no_services_witness:
  "start_services \<lparr>st_tun = Inl ''no permission'', st_udp = (\<lambda>_. None)\<rparr> zero_Config = ([], Err ''no permission'')"
  using no_device_no_services [of "\<lparr>st_tun = Inl ''no permission'', st_udp = (\<lambda>_. None)\<rparr>" _ zero_Config]
  by (simp add: zero_Config_def)

text \<open>
  The path that the protocol package's own WebSocket dialler uses belongs to the panel: no
  server configuration has a WebSocket handler there.
\<close>

theorem panel_path_is_no_websocket:
  assumes "start_services e cfg = (effs, Ok ())"
  shows "\<not> offers effs (HttpTarget WebSocket host port tls ''/hasta-vaquet'')"
proof -
  have "p @ ''/ws'' \<noteq> ''/hasta-vaquet''" for p :: string
  proof
    assume "p @ ''/ws'' = ''/hasta-vaquet''"
    then have "last (p @ ''/ws'') = last ''/hasta-vaquet''" by (rule arg_cong)
    then show False by simp
  qed
  then show ?thesis
    by (auto simp: offers_def started [OF assms] panel_server_def NewPlainWSServer_def xhttp_server_def split: if_splits)
qed

theorem panel_path_is_no_websocket_witness:
  "\<exists>effs. start_services sample_start (SetDefaults zero_Config) = (effs, Ok ())
    \<and> \<not> offers effs (HttpTarget WebSocket ''192.0.2.1'' 443 True ''/hasta-vaquet'')"
  using sample_started_services [of "SetDefaults zero_Config"] panel_path_is_no_websocket by blast

end
