(* ===== verification/Conns.thy ===== *)
theory Conns
  imports Transport Wire
begin

text \<open>
  Packet connections: the client's WebSocket connection (\<^verbatim>\<open>wsConn\<close> of
  \<^verbatim>\<open>core/transport.go\<close>) and the connections, transports and listeners of
  \<^verbatim>\<open>protocol/transport.go\<close>. UDP sockets are Go's; a WebSocket connection belongs to a
  library, so it is an interface (\<open>wsConn\<close>, as in the source) and what is relied on is the
  locale \<open>ws_link\<close>. Both give the contract \<open>packet_pipe\<close>: packets come out as they went in.
\<close>

section \<open>What a call on a connection does\<close>

datatype 'a io = Blocks | Fails string | Gives 'a

fun map_io :: "('a \<Rightarrow> 'b) \<Rightarrow> 'a io \<Rightarrow> 'b io" where
  "map_io f Blocks = Blocks"
| "map_io f (Fails e) = Fails e"
| "map_io f (Gives x) = Gives (f x)"

text \<open>Sending packets one after the other, and reading until nothing comes.\<close>

fun send_all :: "(bytes \<Rightarrow> 's \<Rightarrow> string option \<times> 's) \<Rightarrow> bytes list \<Rightarrow> 's \<Rightarrow> string option list \<times> 's" where
  "send_all wr [] s = ([], s)"
| "send_all wr (b # bs) s = (let (e, s1) = wr b s; (es, s2) = send_all wr bs s1 in (e # es, s2))"

fun recv_all :: "('s \<Rightarrow> bytes io \<times> 's) \<Rightarrow> nat \<Rightarrow> 's \<Rightarrow> bytes list \<times> 's" where
  "recv_all rd 0 s = ([], s)"
| "recv_all rd (Suc n) s =
     (case rd s of
        (Gives b, s1) \<Rightarrow> (let (bs, s2) = recv_all rd n s1 in (b # bs, s2))
      | (_, s1) \<Rightarrow> ([], s1))"

text \<open>
  The contract: on a working link a packet that fits is accepted and queued behind the
  others, a read takes the oldest one, and reading an empty link waits.
\<close>

locale packet_pipe =
  fixes wr :: "bytes \<Rightarrow> 's \<Rightarrow> string option \<times> 's"
    and rd :: "'s \<Rightarrow> bytes io \<times> 's"
    and pending :: "'s \<Rightarrow> bytes list"
    and works :: "'s \<Rightarrow> bool"
    and fits :: "bytes \<Rightarrow> bool"
  assumes sent: "works s \<Longrightarrow> fits b \<Longrightarrow> \<exists>s'. wr b s = (None, s') \<and> works s' \<and> pending s' = pending s @ [b]"
    and got: "works s \<Longrightarrow> pending s = b # q \<Longrightarrow> fits b \<Longrightarrow> \<exists>s'. rd s = (Gives b, s') \<and> works s' \<and> pending s' = q"
    and idle: "works s \<Longrightarrow> pending s = [] \<Longrightarrow> rd s = (Blocks, s)"
begin

lemma sends:
  assumes "works s" and "list_all fits bs"
  shows "\<exists>s'. send_all wr bs s = (replicate (length bs) None, s') \<and> works s' \<and> pending s' = pending s @ bs"
  using assms
proof (induction bs arbitrary: s)
  case (Cons b bs)
  then obtain s1 where 1: "wr b s = (None, s1)" "works s1" "pending s1 = pending s @ [b]"
    using sent [of s b] by auto
  with Cons.IH [OF 1(2)] Cons.prems(2) show ?case by auto
qed simp

lemma receives:
  assumes "works s" and "pending s = bs @ q" and "list_all fits bs"
  shows "\<exists>s'. recv_all rd (length bs) s = (bs, s') \<and> works s' \<and> pending s' = q"
  using assms
proof (induction bs arbitrary: s)
  case (Cons b bs)
  then obtain s1 where 1: "rd s = (Gives b, s1)" "works s1" "pending s1 = bs @ q"
    using got [of s b "bs @ q"] by auto
  with Cons.IH [OF 1(2,3)] Cons.prems(3) show ?case by auto
qed simp

lemma stream:
  assumes "works s" and "pending s = []" and "list_all fits bs"
  shows "\<exists>s1 s2. send_all wr bs s = (replicate (length bs) None, s1)
    \<and> recv_all rd (length bs) s1 = (bs, s2) \<and> rd s2 = (Blocks, s2)"
proof -
  obtain s1 where 1: "send_all wr bs s = (replicate (length bs) None, s1)" "works s1" "pending s1 = bs"
    using sends [OF assms(1,3)] assms(2) by auto
  obtain s2 where "recv_all rd (length bs) s1 = (bs, s2)" "works s2" "pending s2 = []"
    using receives [OF 1(2) _ assms(3), of "[]"] 1(3) by auto
  with 1 idle show ?thesis by blast
qed

end

section \<open>UDP\<close>

text \<open>\<^verbatim>\<open>net.UDPConn\<close>: connected to \<open>uc_remote\<close> (after \<^verbatim>\<open>DialUDP\<close>) or not (after \<^verbatim>\<open>ListenUDP\<close>),
  the datagrams that arrived with their senders, the ones sent with their targets.\<close>

record UDPConn =
  uc_remote :: "udp_addr option"
  uc_in :: "(udp_addr \<times> bytes) list"
  uc_out :: "(udp_addr \<times> bytes) list"
  uc_closed :: bool

definition err_closed :: string where "err_closed = ''use of closed network connection''"

text \<open>\<open>n\<close>: the size of the buffer; the rest of a longer datagram is lost.\<close>

definition ReadFromUDP :: "nat \<Rightarrow> UDPConn \<Rightarrow> (udp_addr \<times> bytes) io \<times> UDPConn" where
  "ReadFromUDP n c =
     (if uc_closed c then (Fails err_closed, c)
      else case uc_in c of
             [] \<Rightarrow> (Blocks, c)
           | (a, d) # ds \<Rightarrow> (Gives (a, take n d), c\<lparr>uc_in := ds\<rparr>))"

definition UDP_Read :: "nat \<Rightarrow> UDPConn \<Rightarrow> bytes io \<times> UDPConn" where
  "UDP_Read n c = (let (r, c') = ReadFromUDP n c in (map_io snd r, c'))"

text \<open>\<^verbatim>\<open>Write\<close> needs a connected socket; 65507 bytes is the largest datagram.\<close>

definition UDP_Write :: "bytes \<Rightarrow> UDPConn \<Rightarrow> string option \<times> UDPConn" where
  "UDP_Write b c =
     (if uc_closed c then (Some err_closed, c)
      else case uc_remote c of
             None \<Rightarrow> (Some ''destination address required'', c)
           | Some a \<Rightarrow>
               if 65507 < length b then (Some ''message too long'', c)
               else (None, c\<lparr>uc_out := uc_out c @ [(a, b)]\<rparr>))"

definition UDP_Close :: "UDPConn \<Rightarrow> string option \<times> UDPConn" where
  "UDP_Close c = (if uc_closed c then (Some err_closed, c) else (None, c\<lparr>uc_closed := True\<rparr>))"

text \<open>\<^verbatim>\<open>udpPacketConn\<close>: the socket is shared with the listener, so the operations work on it;
  the object itself is the address it was given.\<close>

type_synonym udpPacketConn = "udp_addr option"

definition udp_ReadPacket :: "UDPConn \<Rightarrow> bytes io \<times> UDPConn" where
  "udp_ReadPacket c = UDP_Read 65535 c"

definition udp_WritePacket :: "bytes \<Rightarrow> UDPConn \<Rightarrow> string option \<times> UDPConn" where
  "udp_WritePacket b c = UDP_Write b c"

definition udp_Close :: "UDPConn \<Rightarrow> string option \<times> UDPConn" where
  "udp_Close c = UDP_Close c"

text \<open>\<^verbatim>\<open>conn.RemoteAddr()\<close> of an unconnected socket is nil, and its \<^verbatim>\<open>String\<close> panics.\<close>

definition udp_RemoteAddr :: "udpPacketConn \<Rightarrow> UDPConn \<Rightarrow> string outcome" where
  "udp_RemoteAddr u c =
     (case u of
        Some a \<Rightarrow> Ok a
      | None \<Rightarrow> (case uc_remote c of Some a \<Rightarrow> Ok a | None \<Rightarrow> Panic))"

text \<open>\<^verbatim>\<open>net.JoinHostPort\<close>; resolving and opening a socket are answers of the system.\<close>

definition JoinHostPort :: "string \<Rightarrow> string \<Rightarrow> string" where
  "JoinHostPort host port =
     (if CHR '':'' \<in> set host \<or> CHR ''%'' \<in> set host then ''['' @ host @ '']:'' @ port else host @ '':'' @ port)"

definition udp_Dial ::
  "(string \<Rightarrow> string + udp_addr) \<Rightarrow> (udp_addr \<Rightarrow> string + UDPConn) \<Rightarrow> string \<Rightarrow> int
     \<Rightarrow> string + udpPacketConn \<times> UDPConn" where
  "udp_Dial resolve dialUDP server port =
     (let addr = JoinHostPort server (int_str port)
      in case resolve addr of
           Inl e \<Rightarrow> Inl (''resolve '' @ addr @ '': '' @ e)
         | Inr udpAddr \<Rightarrow>
             (case dialUDP udpAddr of
                Inl e \<Rightarrow> Inl (''dial UDP '' @ addr @ '': '' @ e)
              | Inr conn \<Rightarrow> Inr (Some udpAddr, conn)))"

definition udp_Listen ::
  "(string \<Rightarrow> string + udp_addr) \<Rightarrow> (udp_addr \<Rightarrow> string + UDPConn) \<Rightarrow> string \<Rightarrow> string + UDPConn" where
  "udp_Listen resolve listenUDP address =
     (case resolve address of
        Inl e \<Rightarrow> Inl (''resolve '' @ address @ '': '' @ e)
      | Inr udpAddr \<Rightarrow>
          (case listenUDP udpAddr of
             Inl e \<Rightarrow> Inl (''listen UDP '' @ address @ '': '' @ e)
           | Inr conn \<Rightarrow> Inr conn))"

text \<open>\<^verbatim>\<open>Accept\<close> waits for a datagram, drops its content and wraps the same socket.\<close>

definition udp_Accept :: "UDPConn \<Rightarrow> udpPacketConn io \<times> UDPConn" where
  "udp_Accept l = (let (r, l') = ReadFromUDP 65535 l in (map_io (\<lambda>(addr, _). Some addr) r, l'))"

section \<open>WebSocket connections\<close>

text \<open>The interface of the library's connection (message types: 1 text, 2 binary), over the
  state \<open>'s\<close> of the whole link.\<close>

record 's wsConn =
  w_ReadMessage :: "'s \<Rightarrow> (int \<times> bytes) io \<times> 's"
  w_WriteMessage :: "int \<Rightarrow> bytes \<Rightarrow> 's \<Rightarrow> string option \<times> 's"
  w_Close :: "'s \<Rightarrow> string option \<times> 's"
  w_RemoteAddr :: "'s \<Rightarrow> string option"

text \<open>\<^verbatim>\<open>wsConn\<close> of the client: any message type is taken, \<open>n\<close> is the size of the caller's buffer.\<close>

definition wsConn_Read :: "'s wsConn \<Rightarrow> nat \<Rightarrow> 's \<Rightarrow> bytes io \<times> 's" where
  "wsConn_Read W n s = (let (r, s') = w_ReadMessage W s in (map_io (\<lambda>(_, msg). take n msg) r, s'))"

definition wsConn_Write :: "'s wsConn \<Rightarrow> bytes \<Rightarrow> 's \<Rightarrow> string option \<times> 's" where
  "wsConn_Write W b s = w_WriteMessage W 2 b s"

definition wsConn_Close :: "'s wsConn \<Rightarrow> 's \<Rightarrow> string option \<times> 's" where
  "wsConn_Close W s = w_Close W s"

text \<open>\<^verbatim>\<open>wssPacketConn\<close> of the protocol package: only binary messages.\<close>

definition wss_ReadPacket :: "'s wsConn \<Rightarrow> 's \<Rightarrow> bytes io \<times> 's" where
  "wss_ReadPacket W s =
     (case w_ReadMessage W s of
        (Gives (msgType, data), s') \<Rightarrow>
          (if msgType \<noteq> 2 then Fails (''unexpected WebSocket message type: '' @ int_str msgType) else Gives data, s')
      | (Fails e, s') \<Rightarrow> (Fails e, s')
      | (Blocks, s') \<Rightarrow> (Blocks, s'))"

definition wss_WritePacket :: "'s wsConn \<Rightarrow> bytes \<Rightarrow> 's \<Rightarrow> string option \<times> 's" where
  "wss_WritePacket W b s = w_WriteMessage W 2 b s"

definition wss_Close :: "'s wsConn \<Rightarrow> 's \<Rightarrow> string option \<times> 's" where
  "wss_Close W s = w_Close W s"

definition wss_RemoteAddr :: "'s wsConn \<Rightarrow> string \<Rightarrow> 's \<Rightarrow> string" where
  "wss_RemoteAddr W remote s =
     (if remote \<noteq> [] then remote else case w_RemoteAddr W s of Some a \<Rightarrow> a | None \<Rightarrow> ''unknown'')"

text \<open>The server's \<^verbatim>\<open>WSSPeerConn.WritePacket\<close>: \<open>n\<close> copies, closing the connection at the first
  error.\<close>

fun peer_write_copies :: "'s wsConn \<Rightarrow> bytes \<Rightarrow> nat \<Rightarrow> 's \<Rightarrow> string option \<times> 's" where
  "peer_write_copies W data 0 s = (None, s)"
| "peer_write_copies W data (Suc n) s =
     (case w_WriteMessage W 2 data s of
        (Some e, s') \<Rightarrow> (Some e, snd (w_Close W s'))
      | (None, s') \<Rightarrow> peer_write_copies W data n s')"

definition peer_WritePacket :: "'s wsConn \<Rightarrow> int \<Rightarrow> bytes \<Rightarrow> 's \<Rightarrow> string option \<times> 's" where
  "peer_WritePacket W fec data s = peer_write_copies W data (clamp_fec fec) s"

definition peer_ReadMessage :: "'s wsConn \<Rightarrow> 's \<Rightarrow> bytes io \<times> 's" where
  "peer_ReadMessage W s = (let (r, s') = w_ReadMessage W s in (map_io snd r, s'))"

text \<open>
  What the code relies on: the messages one end writes are what the other end reads, whole
  and in order.
\<close>

locale ws_link =
  fixes A :: "'s wsConn" and B :: "'s wsConn"
    and queued :: "'s \<Rightarrow> (int \<times> bytes) list"
    and alive :: "'s \<Rightarrow> bool"
  assumes sent: "alive s \<Longrightarrow> t \<in> {1, 2} \<Longrightarrow> \<exists>s'. w_WriteMessage A t b s = (None, s') \<and> alive s' \<and> queued s' = queued s @ [(t, b)]"
    and got: "alive s \<Longrightarrow> queued s = m # q \<Longrightarrow> \<exists>s'. w_ReadMessage B s = (Gives m, s') \<and> alive s' \<and> queued s' = q"
    and idle: "alive s \<Longrightarrow> queued s = [] \<Longrightarrow> w_ReadMessage B s = (Blocks, s)"
begin

lemma read_truncates:
  assumes "alive s" and "queued s = (t, b) # q"
  shows "\<exists>s'. wsConn_Read B n s = (Gives (take n b), s') \<and> queued s' = q"
  using got [OF assms] by (auto simp: wsConn_Read_def)

lemma copies:
  assumes "alive s"
  shows "\<exists>s'. peer_write_copies A b n s = (None, s') \<and> alive s' \<and> queued s' = queued s @ replicate n (2, b)"
  using assms
proof (induction n arbitrary: s)
  case (Suc n)
  obtain s1 where 1: "w_WriteMessage A 2 b s = (None, s1)" "alive s1" "queued s1 = queued s @ [(2, b)]"
    using sent [OF Suc.prems, of 2 b] by auto
  with Suc.IH [OF 1(2)] show ?case by auto
qed simp

end

sublocale ws_link \<subseteq> protocol: packet_pipe "wss_WritePacket A" "wss_ReadPacket B" "\<lambda>s. map snd (queued s)"
    "\<lambda>s. alive s \<and> list_all (\<lambda>m. fst m = 2) (queued s)" "\<lambda>_. True"
proof unfold_locales
  fix s b assume "alive s \<and> list_all (\<lambda>m. fst m = 2) (queued s)"
  then show "\<exists>s'. wss_WritePacket A b s = (None, s') \<and> (alive s' \<and> list_all (\<lambda>m. fst m = 2) (queued s'))
      \<and> map snd (queued s') = map snd (queued s) @ [b]"
    using sent [of s 2 b] by (auto simp: wss_WritePacket_def)
next
  fix s b q assume s: "alive s \<and> list_all (\<lambda>m. fst m = 2) (queued s)" and "map snd (queued s) = b # q"
  then obtain q' where "queued s = (2, b) # q'" "map snd q' = q" by (cases "queued s") auto
  with got [of s "(2, b)" q'] s
  show "\<exists>s'. wss_ReadPacket B s = (Gives b, s') \<and> (alive s' \<and> list_all (\<lambda>m. fst m = 2) (queued s'))
      \<and> map snd (queued s') = q"
    by (auto simp: wss_ReadPacket_def)
next
  fix s assume "alive s \<and> list_all (\<lambda>m. fst m = 2) (queued s)" and "map snd (queued s) = []"
  with idle [of s] show "wss_ReadPacket B s = (Blocks, s)" by (simp add: wss_ReadPacket_def)
qed

sublocale ws_link \<subseteq> client: packet_pipe "wsConn_Write A" "wsConn_Read B 65535" "\<lambda>s. map snd (queued s)"
    "alive" "\<lambda>b. length b \<le> 65535"
proof unfold_locales
  fix s b assume "alive s"
  then show "\<exists>s'. wsConn_Write A b s = (None, s') \<and> alive s' \<and> map snd (queued s') = map snd (queued s) @ [b]"
    using sent [of s 2 b] by (auto simp: wsConn_Write_def)
next
  fix s b q assume s: "alive s" and "map snd (queued s) = b # q" and "length b \<le> 65535"
  then obtain t q' where "queued s = (t, b) # q'" "map snd q' = q" by (cases "queued s") auto
  with got [of s "(t, b)" q'] s \<open>length b \<le> 65535\<close>
  show "\<exists>s'. wsConn_Read B 65535 s = (Gives b, s') \<and> alive s' \<and> map snd (queued s') = q"
    by (auto simp: wsConn_Read_def)
next
  fix s assume "alive s" and "map snd (queued s) = []"
  with idle [of s] show "wsConn_Read B 65535 s = (Blocks, s)" by (simp add: wsConn_Read_def)
qed

context ws_link
begin

lemmas client_stream = client.stream
lemmas protocol_stream = protocol.stream

end

section \<open>Transports and listeners\<close>

text \<open>\<^verbatim>\<open>wssTransport\<close>: the functions a binary registers; without them dialling fails.\<close>

record ('d, 'l) wssTransport =
  wt_dialFn :: "(string \<Rightarrow> int \<Rightarrow> string + 'd) option"
  wt_listenFn :: "(string \<Rightarrow> string + 'l) option"

definition WSS_init :: "('d, 'l) wssTransport" where
  "WSS_init = \<lparr>wt_dialFn = None, wt_listenFn = None\<rparr>"

definition errNoWebSocket :: string where
  "errNoWebSocket = ''WebSocket transport not available: gorilla/websocket not imported''"

definition wss_Dial :: "('d, 'l) wssTransport \<Rightarrow> string \<Rightarrow> int \<Rightarrow> string + 'd" where
  "wss_Dial t server port = (case wt_dialFn t of Some f \<Rightarrow> f server port | None \<Rightarrow> Inl errNoWebSocket)"

definition wss_Listen :: "('d, 'l) wssTransport \<Rightarrow> string \<Rightarrow> string + 'l" where
  "wss_Listen t address = (case wt_listenFn t of Some f \<Rightarrow> f address | None \<Rightarrow> Inl errNoWebSocket)"

definition RegisterWSSTransport ::
  "(string \<Rightarrow> int \<Rightarrow> string + 'd) option \<Rightarrow> (string \<Rightarrow> string + 'l) option
     \<Rightarrow> ('d, 'l) wssTransport \<Rightarrow> ('d, 'l) wssTransport" where
  "RegisterWSSTransport dialFn listenFn t = t\<lparr>wt_dialFn := dialFn, wt_listenFn := listenFn\<rparr>"

text \<open>\<^verbatim>\<open>WSSDialWithRetry\<close>: the URL, one call of the dial function, the remote name.\<close>

definition retry_url :: "string \<Rightarrow> int \<Rightarrow> string" where
  "retry_url server port = ''wss://'' @ server @ '':'' @ int_str port @ ''/hasta-vaquet''"

definition WSSDialWithRetry :: "(string \<Rightarrow> string + 'w) \<Rightarrow> string \<Rightarrow> int \<Rightarrow> string + 'w \<times> string" where
  "WSSDialWithRetry dialFn server port =
     (case dialFn (retry_url server port) of
        Inl e \<Rightarrow> Inl (''WSS dial '' @ retry_url server port @ '': '' @ e)
      | Inr conn \<Rightarrow> Inr (conn, server))"

text \<open>\<^verbatim>\<open>Accept\<close> of the upgrading listener; the second component lists the raw connections it
  closed.\<close>

definition upgrader_Accept ::
  "(string + 'c) \<Rightarrow> ('c \<Rightarrow> string + 'w) \<Rightarrow> ('c \<Rightarrow> string) \<Rightarrow> (string + 'w \<times> string) \<times> 'c list" where
  "upgrader_Accept accepted upgrader remoteAddr =
     (case accepted of
        Inl e \<Rightarrow> (Inl e, [])
      | Inr conn \<Rightarrow>
          (case upgrader conn of
             Inl e \<Rightarrow> (Inl e, [conn])
           | Inr ws \<Rightarrow> (Inr (ws, remoteAddr conn), [])))"

text \<open>\<^verbatim>\<open>SetReadDeadline\<close>: a type assertion on the method set. The two connection types of the
  package have no such method.\<close>

datatype packet_conn = UDPPacketConn udpPacketConn | WSSPacketConn string

fun deadline_method :: "packet_conn \<Rightarrow> (int \<Rightarrow> UDPConn \<Rightarrow> string option \<times> UDPConn) option" where
  "deadline_method (UDPPacketConn _) = None"
| "deadline_method (WSSPacketConn _) = None"

definition SetReadDeadline ::
  "(int \<Rightarrow> 's \<Rightarrow> string option \<times> 's) option \<Rightarrow> int \<Rightarrow> 's \<Rightarrow> string option \<times> 's" where
  "SetReadDeadline dl deadline s = (case dl of Some f \<Rightarrow> f deadline s | None \<Rightarrow> (None, s))"

section \<open>Links\<close>

text \<open>A WebSocket link as two queues of messages.\<close>

record ws_pair =
  wp_in :: "(int \<times> bytes) list"
  wp_closed :: bool

definition pair_write :: "int \<Rightarrow> bytes \<Rightarrow> ws_pair \<Rightarrow> string option \<times> ws_pair" where
  "pair_write t b s =
     (if wp_closed s then (Some err_closed, s)
      else if t \<notin> {1, 2} then (Some ''bad message type'', s)
      else (None, s\<lparr>wp_in := wp_in s @ [(t, b)]\<rparr>))"

definition pair_read :: "ws_pair \<Rightarrow> (int \<times> bytes) io \<times> ws_pair" where
  "pair_read s =
     (if wp_closed s then (Fails err_closed, s)
      else case wp_in s of [] \<Rightarrow> (Blocks, s) | m # q \<Rightarrow> (Gives m, s\<lparr>wp_in := q\<rparr>))"

definition pair_end :: "ws_pair wsConn" where
  "pair_end = \<lparr>w_ReadMessage = pair_read, w_WriteMessage = pair_write,
     w_Close = (\<lambda>s. (None, s\<lparr>wp_closed := True\<rparr>)), w_RemoteAddr = (\<lambda>s. Some ''192.0.2.1:443'')\<rparr>"

interpretation pair: ws_link pair_end pair_end wp_in "\<lambda>s. \<not> wp_closed s"
  by unfold_locales (auto simp: pair_end_def pair_write_def pair_read_def)

text \<open>Two UDP sockets and a network that delivers: what the first sends arrives at the second.\<close>

definition udp_link_write :: "bytes \<Rightarrow> UDPConn \<times> UDPConn \<Rightarrow> string option \<times> UDPConn \<times> UDPConn" where
  "udp_link_write b cs =
     (let (e, c) = udp_WritePacket b (fst cs)
      in (e, c\<lparr>uc_out := []\<rparr>, (snd cs)\<lparr>uc_in := uc_in (snd cs) @ map (\<lambda>(_, d). (''client'', d)) (uc_out c)\<rparr>))"

definition udp_link_read :: "UDPConn \<times> UDPConn \<Rightarrow> bytes io \<times> UDPConn \<times> UDPConn" where
  "udp_link_read cs = (let (r, s) = udp_ReadPacket (snd cs) in (r, fst cs, s))"

definition udp_link_up :: "UDPConn \<times> UDPConn \<Rightarrow> bool" where
  "udp_link_up cs \<longleftrightarrow> \<not> uc_closed (fst cs) \<and> \<not> uc_closed (snd cs) \<and> uc_remote (fst cs) \<noteq> None \<and> uc_out (fst cs) = []"

interpretation udp: packet_pipe udp_link_write udp_link_read "\<lambda>cs. map snd (uc_in (snd cs))" udp_link_up
    "\<lambda>b. length b \<le> 65507"
  by unfold_locales
    (auto simp: udp_link_write_def udp_link_read_def udp_link_up_def udp_WritePacket_def UDP_Write_def
      udp_ReadPacket_def UDP_Read_def ReadFromUDP_def Let_def split: option.splits list.splits)

section \<open>Properties\<close>

text \<open>
  Over a WebSocket link packets arrive whole, once and in the order they were written,
  whether a client writes to the server, the protocol package's connections talk to each
  other, or the server writes its copies to a client; only a message longer than the
  client's buffer is cut to the buffer, its rest lost.
\<close>

theorem websocket_keeps_packets:
  assumes "ws_link A B queued alive" and "alive s" and "queued s = []" and "list_all (\<lambda>b. length b \<le> 65535) bs"
  shows "(\<exists>s1 s2. send_all (wsConn_Write A) bs s = (replicate (length bs) None, s1)
        \<and> recv_all (wsConn_Read B 65535) (length bs) s1 = (bs, s2) \<and> wsConn_Read B 65535 s2 = (Blocks, s2))
    \<and> (\<exists>s1 s2. send_all (wss_WritePacket A) bs s = (replicate (length bs) None, s1)
        \<and> recv_all (wss_ReadPacket B) (length bs) s1 = (bs, s2) \<and> wss_ReadPacket B s2 = (Blocks, s2))
    \<and> (\<exists>s1. peer_WritePacket A fec b s = (None, s1) \<and> queued s1 = replicate (clamp_fec fec) (2, b)
        \<and> fst (wsConn_Read B n s1) = Gives (take n b))"
proof (intro conjI)
  show "\<exists>s1 s2. send_all (wsConn_Write A) bs s = (replicate (length bs) None, s1)
        \<and> recv_all (wsConn_Read B 65535) (length bs) s1 = (bs, s2) \<and> wsConn_Read B 65535 s2 = (Blocks, s2)"
    using ws_link.client_stream [OF assms(1,2)] assms(3,4) by simp
  show "\<exists>s1 s2. send_all (wss_WritePacket A) bs s = (replicate (length bs) None, s1)
        \<and> recv_all (wss_ReadPacket B) (length bs) s1 = (bs, s2) \<and> wss_ReadPacket B s2 = (Blocks, s2)"
    using ws_link.protocol_stream [OF assms(1), of s bs] assms(2,3) by (simp add: list_all_iff)
  obtain s1 where s1: "peer_WritePacket A fec b s = (None, s1)" "alive s1" "queued s1 = replicate (clamp_fec fec) (2, b)"
    using ws_link.copies [OF assms(1,2), of b "clamp_fec fec"] assms(3) by (auto simp: peer_WritePacket_def)
  obtain k where "clamp_fec fec = Suc k" using clamp_fec_range [of fec] by (cases "clamp_fec fec") auto
  with s1 ws_link.read_truncates [OF assms(1) s1(2), of 2 b "replicate k (2, b)" n]
  show "\<exists>s1. peer_WritePacket A fec b s = (None, s1) \<and> queued s1 = replicate (clamp_fec fec) (2, b)
        \<and> fst (wsConn_Read B n s1) = Gives (take n b)" by auto
qed

theorem websocket_keeps_packets_witness:
  "\<exists>s1 s2. send_all (wsConn_Write pair_end) [[1, 2], [3]] \<lparr>wp_in = [], wp_closed = False\<rparr> = ([None, None], s1)
    \<and> recv_all (wsConn_Read pair_end 65535) 2 s1 = ([[1, 2], [3]], s2)"
  using websocket_keeps_packets [OF pair.ws_link_axioms, of "\<lparr>wp_in = [], wp_closed = False\<rparr>" "[[1, 2], [3]]" 1 "[]" 0]
  by (auto simp: numeral_2_eq_2)

text \<open>
  A connection that the protocol package's UDP listener accepts is of no use: the
  datagram that announced the client is lost, every packet written to it is refused, because
  the listening socket is not connected, and a read takes the next datagram of any sender.
\<close>

theorem accepted_udp_connection_is_mute:
  assumes "\<not> uc_closed l" and "uc_remote l = None" and "uc_in l = (a, d) # (b, d') # ds"
  shows "\<exists>l'. udp_Accept l = (Gives (Some a), l') \<and> udp_RemoteAddr (Some a) l' = Ok a
    \<and> udp_ReadPacket l' = (Gives (take 65535 d'), l'\<lparr>uc_in := ds\<rparr>)
    \<and> udp_WritePacket p l' = (Some ''destination address required'', l')"
  using assms
  by (simp add: udp_Accept_def ReadFromUDP_def udp_RemoteAddr_def udp_ReadPacket_def UDP_Read_def udp_WritePacket_def
      UDP_Write_def)

theorem accepted_udp_connection_is_mute_witness:
  "\<exists>l'. udp_Accept \<lparr>uc_remote = None, uc_in = [(''a'', [1]), (''b'', [2])], uc_out = [], uc_closed = False\<rparr> = (Gives (Some ''a''), l')
    \<and> udp_ReadPacket l' = (Gives [2], l'\<lparr>uc_in := []\<rparr>)
    \<and> udp_WritePacket [9] l' = (Some ''destination address required'', l')"
  using accepted_udp_connection_is_mute [of "\<lparr>uc_remote = None, uc_in = [(''a'', [1]), (''b'', [2])], uc_out = [], uc_closed = False\<rparr>"
      "''a''" "[1]" "''b''" "[2]" "[]" "[9]"] by auto

text \<open>Between a dialled and a listening socket packets of up to 65507 bytes arrive in order.\<close>

theorem udp_keeps_packets:
  assumes "udp_link_up cs" and "uc_in (snd cs) = []" and "list_all (\<lambda>b. length b \<le> 65507) bs"
  shows "\<exists>s1 s2. send_all udp_link_write bs cs = (replicate (length bs) None, s1)
    \<and> recv_all udp_link_read (length bs) s1 = (bs, s2) \<and> udp_link_read s2 = (Blocks, s2)"
  using udp.stream [OF assms(1) _ assms(3)] assms(2) by simp

definition sample_udp_link :: "UDPConn \<times> UDPConn" where
  "sample_udp_link = (\<lparr>uc_remote = Some ''s'', uc_in = [], uc_out = [], uc_closed = False\<rparr>,
     \<lparr>uc_remote = None, uc_in = [], uc_out = [], uc_closed = False\<rparr>)"

theorem udp_keeps_packets_witness:
  "\<exists>s1 s2. send_all udp_link_write [[1], [2]] sample_udp_link = ([None, None], s1) \<and> recv_all udp_link_read 2 s1 = ([[1], [2]], s2)"
  using udp_keeps_packets [of sample_udp_link "[[1], [2]]"]
  by (auto simp: sample_udp_link_def udp_link_up_def numeral_2_eq_2)

text \<open>
  Before a binary registers its functions the WebSocket transport only fails; afterwards it
  calls them. The read deadline of either connection type is silently ignored.
\<close>

theorem registration_and_deadlines:
  "wss_Dial WSS_init server port = Inl errNoWebSocket \<and> wss_Listen WSS_init address = Inl errNoWebSocket
   \<and> wss_Dial (RegisterWSSTransport (Some f) (Some g) t) server port = f server port
   \<and> wss_Listen (RegisterWSSTransport (Some f) (Some g) t) address = g address
   \<and> SetReadDeadline (deadline_method pc) deadline c = (None, c)"
  by (cases pc)
    (simp_all add: wss_Dial_def wss_Listen_def WSS_init_def RegisterWSSTransport_def SetReadDeadline_def)

text \<open>An upgrade that fails does not leak the accepted connection, and nothing else is closed.\<close>

theorem upgrade_failure_closes:
  "upgrader_Accept (Inr conn) up addr = (case up conn of Inl e \<Rightarrow> (Inl e, [conn]) | Inr ws \<Rightarrow> (Inr (ws, addr conn), []))"
  by (simp add: upgrader_Accept_def)

end
