(* ===== verification/Paths.thy ===== *)
theory Paths
  imports System Gui Cli Services Conns
begin

text \<open>
  The ways between the clients and the server: the reply transport of a peer along a run of
  the server, the command line client over UDP, the desktop application's XHTTP, and the
  form of everything a client sends.
\<close>

section \<open>The reply transport of a peer\<close>

text \<open>A step that leaves the writer of peer \<open>r\<close> alone.\<close>

definition writer_kept :: "nat \<Rightarrow> server \<Rightarrow> server \<Rightarrow> bool" where
  "writer_kept r s s' \<longleftrightarrow> p_Writer (s_store s' r) = p_Writer (s_store s r)"

lemma writer_kept_refl [simp]: "writer_kept r s s"
  by (simp add: writer_kept_def)

lemma writer_kept_trans [trans]: "writer_kept r s t \<Longrightarrow> writer_kept r t u \<Longrightarrow> writer_kept r s u"
  by (simp add: writer_kept_def)

lemma writer_kept_upd: "(\<And>p. q = r \<Longrightarrow> p_Writer (f p) = p_Writer p) \<Longrightarrow> writer_kept r s (upd_peer q f s)"
  by (simp add: writer_kept_def)

lemma writer_kept_store: "s_store s' = s_store s \<Longrightarrow> writer_kept r s s'"
  by (simp add: writer_kept_def)

lemma writer_kept_lock [simp]: "writer_kept r s (lock_peer q s)"
  unfolding lock_peer_def by (rule writer_kept_upd) simp

lemma writer_kept_count [simp]:
  "writer_kept r s (upd_peer q (count_in n) s)" "writer_kept r s (upd_peer q (count_out n m) s)"
  by (rule writer_kept_upd, simp add: count_in_def count_out_def)+

lemma writer_kept_encrypt: "peer_encrypt C e isQ q d s = (res, s') \<Longrightarrow> writer_kept r s s'"
  by (auto simp: peer_encrypt_def writer_kept_def split: option.splits prod.splits)

lemma writer_kept_deliver: "writer_kept r s (fst (xhttp_deliver C e q pkt s))"
  unfolding xhttp_deliver_def
  by (auto split: outcome.splits prod.splits simp del: upd_peer_select
      intro: writer_kept_encrypt writer_kept_trans [OF writer_kept_encrypt writer_kept_lock])

lemma writer_kept_xhttpProcessPacket: "writer_kept r s (fst (xhttpProcessPacket C e pkt s))"
proof -
  have "writer_kept r s (fst (xhttp_deliver C e q pkt (s\<lparr>s_bloom := b, s_bloomCount := n\<rparr>)))" for q b n
    using writer_kept_trans [OF writer_kept_store writer_kept_deliver] by simp
  then show ?thesis
    unfolding xhttpProcessPacket_def Let_def by (auto split: option.splits intro: writer_kept_deliver)
qed

lemma writer_kept_batch: "writer_kept r s (fst (xhttp_batch C e body cnt i off s))"
proof (induction C e body cnt i off s rule: xhttp_batch.induct)
  case (1 C e body cnt i off s)
  define n where "n = unat (get32 (drop off body))"
  obtain s1 eff echo en where
    p: "xhttpProcessPacket C e (slice_of body (off + 4) (off + 4 + n)) s = (s1, eff, echo, en)"
    by (cases "xhttpProcessPacket C e (slice_of body (off + 4) (off + 4 + n)) s") auto
  have k: "writer_kept r s s1"
    using writer_kept_xhttpProcessPacket [of r s C e "slice_of body (off + 4) (off + 4 + n)"] p by simp
  show ?case
  proof (cases "(i < cnt \<and> off + 6 \<le> length body) \<and> \<not> (length body < off + 4 + n \<or> n < 4 + 2 + 12) \<and> en = Returned")
    case True
    with 1 [of n, OF _ n_def _ p [symmetric] refl refl] p k show ?thesis
      by (subst xhttp_batch.simps) (auto simp: n_def [symmetric] Let_def split: prod.splits intro: writer_kept_trans)
  next
    case False
    with p k show ?thesis
      by (subst xhttp_batch.simps) (auto simp: n_def [symmetric] Let_def split: prod.splits)
  qed
qed

lemma writer_kept_handler: "writer_kept r s (fst (xhttp_handler C e meth req s))"
  unfolding xhttp_handler_def Let_def
  using writer_kept_xhttpProcessPacket [of r s C e] writer_kept_batch [of r s C e]
  by (auto split: option.splits prod.splits)
     (metis fst_conv)+

lemma writer_kept_tun: "writer_kept r s (fst (tun_reader_step C e packet s))"
  unfolding tun_reader_step_def Let_def
  by (auto split: option.splits outcome.splits prod.splits simp del: upd_peer_select
      intro: writer_kept_encrypt writer_kept_trans [OF writer_kept_encrypt writer_kept_lock]
        writer_kept_trans [OF writer_kept_encrypt writer_kept_count(2)])

lemma writer_kept_echo: "writer_kept r s (fst (keep_alive_echo C e isQ q s))"
  unfolding keep_alive_echo_def
  by (auto split: outcome.splits prod.splits
      intro: writer_kept_encrypt writer_kept_trans [OF writer_kept_encrypt writer_kept_lock])

lemma writer_kept_logDrops: "writer_kept r s (fst (logDrops e s))"
  by (rule writer_kept_store) (simp add: logDrops_def Let_def)

lemma writer_kept_drops:
  "drop_noPeer e s = (s', eff) \<Longrightarrow> writer_kept r s s'" "drop_replay e s = (s', eff) \<Longrightarrow> writer_kept r s s'"
  "drop_failed e m s = (s', eff) \<Longrightarrow> writer_kept r s s'"
  unfolding drop_noPeer_def drop_replay_def drop_failed_def
  by (drule arg_cong [where f = fst], simp add: writer_kept_def logDrops_def Let_def split: if_splits; auto)+

lemma writer_kept_accept: "writer_kept r s (fst (accept_packet C e isQ q mark d s))"
proof -
  define s1 where "s1 = (case mark of None \<Rightarrow> s
    | Some k \<Rightarrow> s\<lparr>s_bloom := bloomSet (s_bloom s) k, s_bloomCount := s_bloomCount s + 1\<rparr>)"
  have "writer_kept r s s1" by (rule writer_kept_store) (simp add: s1_def split: option.split)
  also have "writer_kept r s1 (upd_peer q (\<lambda>p. p\<lparr>p_LastSeen := e_unix e\<rparr>) s1)" by (rule writer_kept_upd) simp
  finally have k: "writer_kept r s (upd_peer q (\<lambda>p. p\<lparr>p_LastSeen := e_unix e\<rparr>) s1)" .
  then show ?thesis
    unfolding accept_packet_def s1_def [symmetric] Let_def
    by (auto simp del: upd_peer_select intro: writer_kept_trans [OF k writer_kept_echo] writer_kept_trans [OF k writer_kept_count(1)])
qed

lemma writer_kept_process:
  assumes "map_of (s_peers s) (in_ShortID pkt) \<noteq> Some r"
  shows "writer_kept r s (fst (processPacket C e pkt s))"
proof (cases "map_of (s_peers s) (in_ShortID pkt)")
  case None
  then show ?thesis by (auto simp: processPacket_def split: prod.split dest: writer_kept_drops)
next
  case (Some q)
  with assms have "q \<noteq> r" by simp
  define s1 where "s1 = upd_peer q (set_writer (in_Writer pkt)) s"
  have k: "writer_kept r s s1" unfolding s1_def by (rule writer_kept_upd) (simp add: \<open>q \<noteq> r\<close>)
  have "writer_kept r s1 (upd_peer q f s1)" for f by (rule writer_kept_upd) (simp add: \<open>q \<noteq> r\<close>)
  then have "writer_kept r s1 (fst (processPacket C e pkt s))"
    unfolding processPacket_def Some option.case Let_def s1_def [symmetric]
    by (auto split: prod.splits outcome.splits simp del: upd_peer_select dest: writer_kept_drops
        intro: writer_kept_accept writer_kept_trans [OF _ writer_kept_lock])
  with k show ?thesis by (rule writer_kept_trans)
qed

lemma writer_kept_bloom_tick: "writer_kept r s (bloom_tick t s)"
  by (rule writer_kept_store) (simp add: bloom_tick_def Let_def)

text \<open>Events that carry no packet of short id \<open>sid\<close> by UDP or WebSocket, and no panel request.\<close>

fun only_xhttp :: "16 word \<Rightarrow> string \<Rightarrow> event \<Rightarrow> bool" where
  "only_xhttp sid salt (UdpDatagram addr buf) = (case udp_reader salt addr buf of None \<Rightarrow> True | Some p \<Rightarrow> in_ShortID p \<noteq> sid)"
| "only_xhttp sid salt (WsMessage w msg) = (case snd (ws_reader_step salt msg w) of None \<Rightarrow> True | Some p \<Rightarrow> in_ShortID p \<noteq> sid)"
| "only_xhttp sid salt (PanelRequest pe req) = False"
| "only_xhttp sid salt _ = True"

text \<open>What such an event leaves: the tables, the salt, and the writer of the peer.\<close>

definition tables_kept :: "nat \<Rightarrow> server \<Rightarrow> server \<Rightarrow> bool" where
  "tables_kept r s s' \<longleftrightarrow> writer_kept r s s' \<and> s_peers s' = s_peers s \<and> s_ipToPeer s' = s_ipToPeer s
     \<and> s_routingSalt s' = s_routingSalt s"

lemma keeps_tables_kept: "keeps s s' \<Longrightarrow> writer_kept r s s' \<Longrightarrow> tables_kept r s s'"
  by (simp add: keeps_def tables_kept_def)

lemma main_loop_writer_kept:
  assumes "server_inv s" and "map_of (s_peers s) sid = Some r" and "case pkt of None \<Rightarrow> True | Some p \<Rightarrow> in_ShortID p \<noteq> sid"
  shows "writer_kept r s (fst (main_loop C e pkt s))"
proof (cases pkt)
  case (Some p)
  have "map_of (s_peers s) (in_ShortID p) \<noteq> Some r"
  proof
    assume "map_of (s_peers s) (in_ShortID p) = Some r"
    with assms(1,2) have "in_ShortID p = sid" unfolding server_inv_def by metis
    with assms(3) Some show False by simp
  qed
  with Some show ?thesis by (simp add: main_loop_def writer_kept_process)
qed (simp add: main_loop_def)

lemma event_tables_kept:
  assumes "server_event C e ev pn = (pn', eff, en)" and "server_inv (pn_server pn)"
    and "map_of (s_peers (pn_server pn)) sid = Some r" and "only_xhttp sid (s_routingSalt (pn_server pn)) ev"
  shows "tables_kept r (pn_server pn) (pn_server pn')"
proof -
  let ?s = "pn_server pn"
  have h: "pn_server pn' = fst (server_handle C e ev ?s)"
    using assms(1,4) by (cases ev) (auto simp: server_event_def split: prod.splits)
  show ?thesis
  proof (cases "\<exists>t. ev = BloomTick t")
    case True
    then show ?thesis
      using h by (auto simp: tables_kept_def writer_kept_def bloom_tick_def Let_def)
  next
    case False
    have "writer_kept r ?s (fst (server_handle C e ev ?s))"
      using assms(4) main_loop_writer_kept [OF assms(2,3)]
      by (cases ev) (simp_all add: writer_kept_handler writer_kept_tun writer_kept_bloom_tick)
    with keeps_server_handle [of ev ?s C e] False h show ?thesis by (auto intro: keeps_tables_kept)
  qed
qed

lemma run_tables_kept:
  assumes "server_run C pn evs effs pn'" and "server_inv (pn_server pn)" and "map_of (s_peers (pn_server pn)) sid = Some r"
    and "\<forall>(e, ev) \<in> set evs. only_xhttp sid (s_routingSalt (pn_server pn)) ev"
  shows "tables_kept r (pn_server pn) (pn_server pn')"
  using assms
proof (induction rule: server_run.induct)
  case (run_nil pn)
  then show ?case by (simp add: tables_kept_def)
next
  case (run_step e ev pn pn1 eff en evs effs pn2)
  have k: "tables_kept r (pn_server pn) (pn_server pn1)"
    using event_tables_kept [OF run_step.hyps(1) run_step.prems(1,2)] run_step.prems(3) by simp
  then have "map_of (s_peers (pn_server pn1)) sid = Some r" "s_routingSalt (pn_server pn1) = s_routingSalt (pn_server pn)"
    using run_step.prems(2) by (simp_all add: tables_kept_def del: map_of_eq_Some_iff)
  with run_step.IH [OF server_inv_event [OF run_step.prems(1) run_step.hyps(1)]] run_step.prems(3)
  have "tables_kept r (pn_server pn1) (pn_server pn2)" by simp
  with k show ?case by (auto simp: tables_kept_def intro: writer_kept_trans)
qed

section \<open>The command line client\<close>

lemma cli_setup_Ok:
  "cli_setup C seed net e c = (effs, Ok cl) \<Longrightarrow>
    cl_cfg cl = c \<and> cl_quic cl = qglobals_init \<and> NewCipherPack C (DeriveKey C (cli_SecretKey c)) seed = Ok (cl_cp cl)"
  by (auto simp: cli_setup_def Let_def split: outcome.splits option.splits sum.splits)

text \<open>A command line client that was set up for a user of a started server is paired with it.\<close>

lemma cli_paired:
  assumes "register_users go_crypto us (init_server cfg) = Ok s" and "\<not> cfg_NoEncrypt cfg" and "(u, useed) \<in> set us"
    and "cli_setup go_crypto seed net e c = (effs, Ok cl)" and "cli_SecretKey c = u_SecretKey u"
    and "cli_ShortID c = u_ShortID u" and "cli_RoutingSalt c = cfg_RoutingSalt cfg"
  shows "\<exists>v r. paired s v r (DeriveKey go_crypto (u_SecretKey u)) (DeriveKey go_crypto (u_SecretKey u)) \<and> cli_like cl v
    \<and> s_bloom s = bloom_zero"
proof -
  let ?key = "DeriveKey go_crypto (u_SecretKey u)"
  let ?cfg = "zero_Config\<lparr>cfg_SecretKey := u_SecretKey u, cfg_ShortID := u_ShortID u, cfg_RoutingSalt := cfg_RoutingSalt cfg\<rparr>"
  let ?v0 = "New go_crypto (0, 0, 0) ?cfg False"
  note cl = cli_setup_Ok [OF assms(4)]
  obtain r where p: "paired s ?v0 r ?key ?key" and b: "s_bloom s = bloom_zero"
    using std.started_pair [OF assms(1-3), of ?cfg "(0, 0, 0)" False] by (auto simp: zero_Config_def)
  define v where "v = ?v0\<lparr>v_encCP := Some (cl_cp cl), v_decCP := Some (cl_cp cl), v_pingCP := Some (cl_cp cl), v_conn := Some 0\<rparr>"
  have "length ?key = 32" by (simp add: DeriveKey_def std.length_sha)
  with cl assms(5) NewCipherPack_std have ctx: "std_ctx (cl_cp cl) ?key ?key \<and> cp_PadMax (cl_cp cl) \<le> 0" by metis
  have v0: "v_config ?v0 = ?cfg" "v_quic ?v0 = qglobals_init" "\<not> v_stopping ?v0" by (simp_all add: New_def Let_def)
  have "paired s v r ?key ?key"
    using p ctx by (simp add: paired_def client_ctx_def v_def v0)
  moreover have "cfg_FEC ?cfg \<le> 1" by (simp add: zero_Config_def)
  with cl assms(6,7) have "cli_like cl v" by (simp add: cli_like_def v_def v0)
  ultimately show ?thesis using b by blast
qed

section \<open>Frames\<close>

text \<open>What a server can route: long enough, addressed to the sender, with the marker's bit.\<close>

definition wf_frame :: "string \<Rightarrow> 16 word \<Rightarrow> bytes \<Rightarrow> bool" where
  "wf_frame salt sid pkt \<longleftrightarrow> 36 \<le> length pkt \<and> packet_shortID salt pkt = sid \<and> bit (pkt ! 0) 6"

definition sends_frames :: "string \<Rightarrow> 16 word \<Rightarrow> client_effect list \<Rightarrow> bool" where
  "sends_frames salt sid effs \<longleftrightarrow> (\<forall>b \<in> set (sent_bytes effs). wf_frame salt sid b)"

text \<open>The identity of a client and the mode of its contexts, which no step changes.\<close>

definition std_client :: "string \<Rightarrow> 16 word \<Rightarrow> bytes \<Rightarrow> bytes \<Rightarrow> VPN \<Rightarrow> bool" where
  "std_client salt sid key k v \<longleftrightarrow> cfg_RoutingSalt (v_config v) = salt \<and> cfg_ShortID (v_config v) = sid
     \<and> (\<forall>c \<in> {v_encCP v, v_pingCP v}. \<exists>cp. c = Some cp \<and> std_ctx cp key k)"

lemma client_encrypt_frame:
  assumes "std_client salt sid key k v" and "c \<in> {v_encCP v, v_pingCP v}"
  shows "\<exists>res cp g. client_encrypt go_crypto padBuf v c pt = (res, Some cp, g) \<and> std_ctx cp key k
    \<and> (\<forall>pkt. res = Ok pkt \<longrightarrow> wf_frame salt sid pkt)"
proof -
  from assms obtain cp where c: "c = Some cp" "std_ctx cp key k" by (auto simp: std_client_def)
  obtain res cp' g where E: "Encrypt go_crypto padBuf cp (v_quic v) pt sid salt = (res, cp', g)"
    by (cases "Encrypt go_crypto padBuf cp (v_quic v) pt sid salt") auto
  have "same_cp (Some cp) (Some cp')" by (rule Encrypt_same_cp [OF E])
  then have "std_ctx cp' key k" using c(2) by (simp add: same_cp_def std_ctx_def)
  moreover have "wf_frame salt sid pkt" if "res = Ok pkt" for pkt
    using std.std_packet_shape(1-3) [OF c(2), of padBuf "v_quic v" pt sid salt pkt] E that by (simp add: wf_frame_def)
  ultimately show ?thesis using assms(1) E c(1) by (auto simp: client_encrypt_def std_client_def)
qed

lemma sends_frames_simps [simp]:
  "sends_frames salt sid []"
  "sends_frames salt sid (replicate n (ConnWrite c b)) \<longleftrightarrow> n = 0 \<or> wf_frame salt sid b"
  by (auto simp: sends_frames_def)

lemma std_client_cong:
  "std_client salt sid key k v \<Longrightarrow> v_config v' = v_config v \<Longrightarrow>
    (\<forall>c \<in> {v_encCP v', v_pingCP v'}. \<exists>cp. c = Some cp \<and> std_ctx cp key k) \<Longrightarrow> std_client salt sid key k v'"
  by (simp add: std_client_def)

lemma writer_frames:
  assumes "std_client salt sid key k v"
  shows "win_writer_step go_crypto padBuf packet v = (v', effs, en) \<Longrightarrow> sends_frames salt sid effs \<and> std_client salt sid key k v'"
    and "android_writer_step go_crypto padBuf rd v = (v', effs, en) \<Longrightarrow> sends_frames salt sid effs \<and> std_client salt sid key k v'"
proof -
  have ctx: "\<exists>cp. v_pingCP v = Some cp \<and> std_ctx cp key k" using assms by (simp add: std_client_def)
  obtain res cp g where E: "client_encrypt go_crypto padBuf v (v_encCP v) packet = (res, Some cp, g)"
    "std_ctx cp key k" "\<forall>pkt. res = Ok pkt \<longrightarrow> wf_frame salt sid pkt"
    using client_encrypt_frame [OF assms, of "v_encCP v" padBuf packet] by auto
  show "win_writer_step go_crypto padBuf packet v = (v', effs, en) \<Longrightarrow> sends_frames salt sid effs \<and> std_client salt sid key k v'"
    using assms E ctx
    by (auto simp: win_writer_step_def count_sent_def Let_def split: if_splits outcome.splits option.splits intro!: std_client_cong [OF assms])
  show "android_writer_step go_crypto padBuf rd v = (v', effs, en) \<Longrightarrow> sends_frames salt sid effs \<and> std_client salt sid key k v'"
  proof (cases rd)
    case (Some buf)
    obtain res cp g where E: "client_encrypt go_crypto padBuf v (v_encCP v) buf = (res, Some cp, g)"
      "std_ctx cp key k" "\<forall>pkt. res = Ok pkt \<longrightarrow> wf_frame salt sid pkt"
      using client_encrypt_frame [OF assms, of "v_encCP v" padBuf buf] by auto
    show "android_writer_step go_crypto padBuf rd v = (v', effs, en) \<Longrightarrow> sends_frames salt sid effs \<and> std_client salt sid key k v'"
      using assms E ctx Some
      by (auto simp: android_writer_step_def count_sent_def Let_def split: if_splits outcome.splits option.splits intro!: std_client_cong [OF assms])
  qed (use assms in \<open>auto simp: android_writer_step_def\<close>)
qed

lemma ping_frames:
  assumes "std_client salt sid key k v" and "ping_send go_crypto padBuf nowMs nowNs v = (v', effs, en)"
  shows "sends_frames salt sid effs \<and> std_client salt sid key k v'"
proof -
  have ctx: "\<exists>cp. v_encCP v = Some cp \<and> std_ctx cp key k" using assms(1) by (simp add: std_client_def)
  obtain res cp g where E: "client_encrypt go_crypto padBuf v (v_pingCP v) [] = (res, Some cp, g)"
    "std_ctx cp key k" "\<forall>pkt. res = Ok pkt \<longrightarrow> wf_frame salt sid pkt"
    using client_encrypt_frame [OF assms(1), of "v_pingCP v" padBuf "[]"] by auto
  show ?thesis
    using assms E ctx
    by (auto simp: ping_send_def Let_def split: option.splits outcome.splits intro!: std_client_cong [OF assms(1)])
qed

text \<open>The senders of a client taking turns: a packet of the Windows session, a read of the
  Android device, a tick of the ping loop.\<close>

datatype sender = SessionPacket bytes | DeviceRead "bytes option" | PingTick int int

fun sender_step :: "(nat \<Rightarrow> byte) \<Rightarrow> sender \<Rightarrow> VPN \<Rightarrow> VPN \<times> client_effect list \<times> step_end" where
  "sender_step padBuf (SessionPacket packet) v = win_writer_step go_crypto padBuf packet v"
| "sender_step padBuf (DeviceRead rd) v = android_writer_step go_crypto padBuf rd v"
| "sender_step padBuf (PingTick nowMs nowNs) v = ping_send go_crypto padBuf nowMs nowNs v"

fun sender_run :: "(nat \<Rightarrow> byte) \<Rightarrow> sender list \<Rightarrow> VPN \<Rightarrow> VPN \<times> client_effect list \<times> step_end" where
  "sender_run padBuf [] v = (v, [], Continue)"
| "sender_run padBuf (x # xs) v =
     (let (v1, effs, en) = sender_step padBuf x v
      in if en \<noteq> Continue then (v1, effs, en)
         else let (v2, effs2, en2) = sender_run padBuf xs v1 in (v2, effs @ effs2, en2))"

lemma sender_step_frames:
  "std_client salt sid key k v \<Longrightarrow> sender_step padBuf x v = (v', effs, en) \<Longrightarrow>
    sends_frames salt sid effs \<and> std_client salt sid key k v'"
  by (cases x) (auto dest: writer_frames ping_frames)

lemma sends_frames_append [simp]:
  "sends_frames salt sid (xs @ ys) \<longleftrightarrow> sends_frames salt sid xs \<and> sends_frames salt sid ys"
  by (auto simp: sends_frames_def)

lemma sender_run_frames:
  "std_client salt sid key k v \<Longrightarrow> sender_run padBuf xs v = (v', effs, en) \<Longrightarrow>
    sends_frames salt sid effs \<and> std_client salt sid key k v'"
proof (induction xs arbitrary: v v' effs en)
  case (Cons x xs)
  obtain v1 e1 n1 where 1: "sender_step padBuf x v = (v1, e1, n1)" by (cases "sender_step padBuf x v") auto
  obtain v2 e2 n2 where 2: "sender_run padBuf xs v1 = (v2, e2, n2)" by (cases "sender_run padBuf xs v1") auto
  note s = sender_step_frames [OF Cons.prems(1) 1]
  show ?case
    using Cons.prems(2) s Cons.IH [of v1, OF _ 2] by (simp add: 1 2 split: if_splits) auto
qed simp

lemma New_std_client:
  assumes "\<not> cfg_NoEncrypt cfg"
  shows "std_client (cfg_RoutingSalt cfg) (cfg_ShortID cfg) (DeriveKey go_crypto (cfg_SecretKey cfg))
    (DeriveKey go_crypto (cfg_SecretKey cfg)) (New go_crypto seeds cfg l)"
proof -
  have "client_ctx (New go_crypto seeds cfg l) (DeriveKey go_crypto (cfg_SecretKey cfg)) (DeriveKey go_crypto (cfg_SecretKey cfg))"
    by (rule New_client_ctx [OF _ assms]) (simp_all add: DeriveKey_def std.key32_ok std.length_sha)
  moreover have "v_config (New go_crypto seeds cfg l) = cfg" by (cases seeds) (simp add: New_def Let_def)
  ultimately show ?thesis by (auto simp: std_client_def client_ctx_def)
qed

section \<open>Properties\<close>

text \<open>
  C21: a client that uses XHTTP alone never gets a packet from the server's device: along
  any run in which nothing with its short id arrives by UDP or WebSocket the peer keeps no
  reply transport, and the device reader drops every packet for the peer's address.
\<close>

theorem xhttp_client_gets_no_downlink:
  assumes "server_run go_crypto pn evs effs pn'" and "server_inv (pn_server pn)"
    and "map_of (s_peers (pn_server pn)) sid = Some r" and "p_Writer (s_store (pn_server pn) r) = None"
    and "\<forall>(e, ev) \<in> set evs. only_xhttp sid (s_routingSalt (pn_server pn)) ev"
    and "map_of (s_ipToPeer (pn_server pn)) (ipv4_string (slice_of packet 16 20)) = Some r"
  shows "tun_reader_step go_crypto e packet (pn_server pn') = (pn_server pn', [], Returned)"
proof -
  have "tables_kept r (pn_server pn) (pn_server pn')" by (rule run_tables_kept [OF assms(1-3,5)])
  with assms(4,6) have "p_Writer (s_store (pn_server pn') r) = None"
    "map_of (s_ipToPeer (pn_server pn')) (ipv4_string (slice_of packet 16 20)) = Some r"
    by (simp_all add: tables_kept_def writer_kept_def del: map_of_eq_Some_iff)
  then show ?thesis by (simp add: tun_reader_step_def Let_def del: map_of_eq_Some_iff)
qed

definition mute_panel :: panel where
  "mute_panel = sample_panel\<lparr>pn_server := upd_peer 0 (\<lambda>p. p\<lparr>p_Writer := None\<rparr>) sample_server\<rparr>"

theorem xhttp_client_gets_no_downlink_witness:
  "\<exists>pn'. server_run go_crypto mute_panel [(sample_io, XhttpRequest ''POST'' (Some [0, 0, 0, 0]))] [] pn'
    \<and> tun_reader_step go_crypto sample_io sample_frame (pn_server pn') = (pn_server pn', [], Returned)"
proof -
  let ?ev = "XhttpRequest ''POST'' (Some [0, 0, 0, 0])" and ?s = "upd_peer 0 (\<lambda>p. p\<lparr>p_Writer := None\<rparr>) sample_server"
  have s: "pn_server mute_panel = ?s" by (simp add: mute_panel_def)
  have g: "get32 [0, 0, 0, 0] = 0" by (simp add: get32_def)
  have ev: "server_event go_crypto sample_io ?ev mute_panel = (mute_panel, [], Returned)"
    by (simp add: server_event_def xhttp_handler_def g)
  from run_step [OF ev _ run_nil] have run: "server_run go_crypto mute_panel [(sample_io, ?ev)] [] mute_panel" by simp
  have "keeps sample_server ?s" by (rule keeps_upd_peer) (simp add: same_peer_def)
  then have inv: "server_inv (pn_server mute_panel)" unfolding s using keeps_server_inv sample_server_inv by blast
  have "tun_reader_step go_crypto sample_io sample_frame (pn_server mute_panel) = (pn_server mute_panel, [], Returned)"
    by (rule xhttp_client_gets_no_downlink [OF run inv, of 3 0]) (simp_all add: s sample_frame_dst)
  with run show ?thesis by blast
qed

text \<open>
  C5: everything a new client ever writes to its connection is a frame the server can route:
  in whatever order packets come from the device, of any length and content, and pings are
  sent, each message has at least 36 bytes, addresses the client's short id under its salt
  and carries the marker bit. (A packet that is too long ends the process instead.)
\<close>

theorem client_sends_frames:
  assumes "\<not> cfg_NoEncrypt cfg"
    and "sender_run padBuf xs ((New go_crypto seeds cfg l)\<lparr>v_conn := conn\<rparr>) = (v', effs, en)"
  shows "\<forall>b \<in> set (sent_bytes effs). wf_frame (cfg_RoutingSalt cfg) (cfg_ShortID cfg) b"
proof -
  have "std_client (cfg_RoutingSalt cfg) (cfg_ShortID cfg) (DeriveKey go_crypto (cfg_SecretKey cfg))
      (DeriveKey go_crypto (cfg_SecretKey cfg)) ((New go_crypto seeds cfg l)\<lparr>v_conn := conn\<rparr>)"
    using New_std_client [OF assms(1), of seeds l] by (simp add: std_client_def)
  from sender_run_frames [OF this assms(2)] show ?thesis by (simp add: sends_frames_def)
qed

theorem client_sends_frames_witness:
  "\<exists>v' effs en. sender_run (\<lambda>_. 0) [PingTick 1 1, SessionPacket sample_frame]
      ((New go_crypto (1, 2, 3) sample_client_cfg True)\<lparr>v_conn := Some 4\<rparr>) = (v', effs, en)
    \<and> (\<forall>b \<in> set (sent_bytes effs). wf_frame [] 3 b)"
proof -
  let ?r = "sender_run (\<lambda>_. 0) [PingTick 1 1, SessionPacket sample_frame] ((New go_crypto (1, 2, 3) sample_client_cfg True)\<lparr>v_conn := Some 4\<rparr>)"
  obtain v' effs en where r: "?r = (v', effs, en)" by (metis prod_cases3)
  have "\<not> cfg_NoEncrypt sample_client_cfg" by (simp add: sample_client_cfg_def zero_Config_def)
  from client_sends_frames [OF this r] r show ?thesis by (auto simp: sample_client_cfg_def zero_Config_def)
qed

text \<open>
  C4: a packet of the command line client arrives: in the state of an engine paired with the
  server, the client encrypts an IPv4 packet of its device once and writes it once to its UDP
  socket; the server's reader passes it on, unless its first bytes happen to look like the
  header of the QUIC disguise, and the main loop writes exactly that packet to its device.
\<close>

theorem cli_packet_delivered:
  assumes "paired s v r key k" and "cli_like cl v" and "20 \<le> length packet" and "length packet \<le> 65493"
    and "drop_bit 4 (packet ! 0) = 4" and "bloomCheck (s_bloom s) (next_key v (v_encCP v))" and "e_tunOK e packet"
  shows "\<exists>cl' enc. cli_writer_step go_crypto padBuf (Received packet) cl = (cl', [ConnWrite 0 enc], Continue)
    \<and> ((\<not> bit (enc ! 0) 7 \<and> enc ! 1 = 0 \<and> enc ! 2 = 0)
       \<or> (\<exists>p s' eff. udp_reader (s_routingSalt s) addr enc = Some p \<and> in_Writer p = Some (UDPWriter addr)
            \<and> main_loop_run go_crypto e [p] s = (s', eff, Returned) \<and> tun_writes eff = [packet]))"
proof -
  define p where "p enc = \<lparr>in_Data = enc, in_Writer = Some (UDPWriter addr), in_ShortID = cfg_ShortID (v_config v), in_IsQUIC = False\<rparr>" for enc
  have v: "v_encCP v = Some (cl_cp cl)" "v_quic v = cl_quic cl" "cfg_RoutingSalt (v_config v) = cli_RoutingSalt (cl_cfg cl)"
    "cfg_ShortID (v_config v) = cli_ShortID (cl_cfg cl)" "s_routingSalt s = cfg_RoutingSalt (v_config v)"
    "std_ctx (cl_cp cl) key k"
    using assms(1,2) by (auto simp: cli_like_def paired_def client_ctx_def)
  obtain enc c where E: "client_encrypt go_crypto padBuf v (v_encCP v) packet = (Ok enc, Some c, v_quic v)"
    and G: "genuine go_crypto s (p enc) packet r key k" and K: "replay_key (p enc) = next_key v (v_encCP v)"
    using std.client_packet [OF assms(1) _ assms(4), of "v_encCP v" padBuf] unfolding p_def by blast
  have W: "cli_writer_step go_crypto padBuf (Received packet) cl = (cl\<lparr>cl_cp := c, cl_quic := v_quic v\<rparr>, [ConnWrite 0 enc], Continue)"
    using E assms(3,5) by (simp add: cli_writer_step_def cli_encrypt_like(1) [OF assms(2)] v(1))
  have "fst (Encrypt go_crypto padBuf (cl_cp cl) (cl_quic cl) packet (cfg_ShortID (v_config v)) (s_routingSalt s)) = Ok enc"
    using E v by (auto simp: client_encrypt_def split: prod.splits)
  note shape = std.std_packet_shape(1-3) [OF v(6) this]
  show ?thesis
  proof (cases "\<not> bit (enc ! 0) 7 \<and> enc ! 1 = 0 \<and> enc ! 2 = 0")
    case True
    with W show ?thesis by blast
  next
    case False
    with shape have R: "udp_reader (s_routingSalt s) addr enc = Some (p enc)"
      by (auto simp: udp_reader_def p_def quic_bits)
    have "packet \<noteq> []" using assms(3) by auto
    with deliver_copies [OF G, of e 0] assms(1,6,7) K
    obtain s' eff where "main_loop_run go_crypto e [p enc] s = (s', eff, Returned)" "tun_writes eff = [packet]"
      by (auto simp: paired_def simp del: main_loop_run.simps)
    with W R show ?thesis by (auto simp: p_def simp del: main_loop_run.simps)
  qed
qed

text \<open>A started command line client and server.\<close>

definition sample_cli_cfg :: CliConfig where
  "sample_cli_cfg = (cl_cfg sample_cli)\<lparr>cli_SecretKey := ''secret'', cli_ShortID := 3, cli_RoutingSalt := []\<rparr>"

definition sample_cli_env :: cli_env where
  "sample_cli_env = \<lparr>ce_logFile = None, ce_adapter = None, ce_index = Some ''7'', ce_session = None\<rparr>"

lemma sample_cli_setup: "\<exists>effs cl. cli_setup go_crypto 5 (\<lambda>_ _. None) sample_cli_env sample_cli_cfg = (effs, Ok cl)"
proof -
  have "\<exists>cp. NewCipherPack go_crypto (DeriveKey go_crypto (cli_SecretKey sample_cli_cfg)) 5 = Ok cp"
    by (simp add: NewCipherPack_def DeriveKey_def std.key32_ok std.length_sha Let_def split: prod.split)
  then show ?thesis
    by (auto simp: cli_setup_def sample_cli_env_def dialServer_def dial_net_def Let_def)
qed

theorem cli_packet_delivered_witness:
  "\<exists>s cl cl' enc. cli_writer_step go_crypto (\<lambda>_. 0) (Received sample_frame) cl = (cl', [ConnWrite 0 enc], Continue)
    \<and> ((\<not> bit (enc ! 0) 7 \<and> enc ! 1 = 0 \<and> enc ! 2 = 0)
       \<or> (\<exists>p s' eff. udp_reader (s_routingSalt s) ''c:1'' enc = Some p
            \<and> main_loop_run go_crypto sample_io [p] s = (s', eff, Returned) \<and> tun_writes eff = [sample_frame]))"
proof -
  obtain s where s: "register_users go_crypto [(sample_user, 7)] (init_server zero_Config) = Ok s"
    using sample_started by blast
  obtain effs cl where cl: "cli_setup go_crypto 5 (\<lambda>_ _. None) sample_cli_env sample_cli_cfg = (effs, Ok cl)"
    using sample_cli_setup by blast
  have "\<not> cfg_NoEncrypt zero_Config" by (simp add: zero_Config_def)
  from cli_paired [OF s this, of sample_user 7 5 "\<lambda>_ _. None" sample_cli_env sample_cli_cfg effs cl] cl
  obtain v r key where v: "paired s v r key key" "cli_like cl v" "s_bloom s = bloom_zero"
    by (auto simp: sample_user_def sample_cli_cfg_def zero_Config_def)
  have f: "length sample_frame = 20" "drop_bit 4 (sample_frame ! 0) = 4" by (simp_all add: sample_frame_def)
  have "e_tunOK sample_io sample_frame" by (simp add: sample_io_def)
  with cli_packet_delivered [OF v(1,2), of sample_frame sample_io "\<lambda>_. 0" "''c:1''"] f v(3)
  obtain cl' enc where
    "cli_writer_step go_crypto (\<lambda>_. 0) (Received sample_frame) cl = (cl', [ConnWrite 0 enc], Continue)"
    "(\<not> bit (enc ! 0) 7 \<and> enc ! 1 = 0 \<and> enc ! 2 = 0)
       \<or> (\<exists>p s' eff. udp_reader (s_routingSalt s) ''c:1'' enc = Some p
            \<and> main_loop_run go_crypto sample_io [p] s = (s', eff, Returned) \<and> tun_writes eff = [sample_frame])"
    by (auto simp: bloom.fresh_empty simp del: main_loop_run.simps)
  then show ?thesis by blast
qed

text \<open>
  C27: in the desktop application the transport XHTTP never works: the configuration the
  window builds has no WebSocket port, so the engine dials port 1. Dialling reports success
  at once, whatever the network does, but no server that could be started listens there.
\<close>

theorem gui_xhttp_reaches_nothing:
  assumes "start_services e cfg = (effs, Ok ())" and "config_valid cfg" and "ca_transport r = ''xhttp''"
  shows "fst (tm_Dial net (NewTransportManager (connect_config r a)))
      = Inr ((0, DialXHTTP (ca_serverIP r) 1), ''xhttp'')
    \<and> \<not> offers effs (dial_target (DialXHTTP (ca_serverIP r) 1))"
proof
  show "fst (tm_Dial net (NewTransportManager (connect_config r a))) = Inr ((0, DialXHTTP (ca_serverIP r) 1), ''xhttp'')"
    using assms(3)
    by (simp add: tm_Dial_def NewTransportManager_def resolvePriorities_def connect_config_def dialTransport_def zero_Config_def)
  have "xhttpPort cfg \<noteq> 1" using assms(2) by (simp add: xhttpPort_def config_valid_def Let_def)
  then show "\<not> offers effs (dial_target (DialXHTTP (ca_serverIP r) 1))"
    using offers_started(4) [OF assms(1)] by simp
qed

theorem gui_xhttp_reaches_nothing_witness:
  "\<exists>effs. start_services sample_start (SetDefaults zero_Config) = (effs, Ok ())
    \<and> \<not> offers effs (dial_target (DialXHTTP ''192.0.2.1'' 1))"
proof -
  obtain effs where s: "start_services sample_start (SetDefaults zero_Config) = (effs, Ok ())"
    using sample_started_services by blast
  let ?r = "\<lparr>ca_serverIP = ''192.0.2.1'', ca_secretKey = ''secret'', ca_routingSalt = [], ca_internalIP = ''10.0.0.5'',
    ca_gatewayIP = [], ca_dns = [], ca_transport = ''xhttp'', ca_cdnDomain = [], ca_port = 4433, ca_shortID = 3\<rparr>"
  from gui_xhttp_reaches_nothing [OF s config_valid_SetDefaults, of ?r] s show ?thesis by auto
qed

end
