(* ===== verification/Profiles.thy ===== *)
theory Profiles
  imports Config Strings "HOL-Library.AList" "HOL-Library.List_Lexorder" "HOL-Library.Char_ord"
begin

text \<open>
  The profile files of the desktop application (\<^verbatim>\<open>gui/app.go\<close>): loading, importing,
  listing and deleting the configurations under \<^verbatim>\<open>profiles\<close> beside the executable, and the
  name of the last one. The file system is a table of files; a path is the list of its
  elements, from the root. JSON is a pair of functions.
\<close>

section \<open>Paths and files\<close>

type_synonym path = "string list"

text \<open>\<^verbatim>\<open>filepath.Join\<close> below an absolute directory: both separators of Windows split, empty
  elements and dots vanish, two dots take the last element away.\<close>

definition path_elems :: "string \<Rightarrow> string list" where
  "path_elems s = Split (map (\<lambda>c. if c = CHR 0x5C then CHR ''/'' else c) s) CHR ''/''"

fun clean_onto :: "path \<Rightarrow> string list \<Rightarrow> path" where
  "clean_onto acc [] = rev acc"
| "clean_onto acc (e # es) =
     (if e = [] \<or> e = ''.'' then clean_onto acc es
      else if e = ''..'' then clean_onto (tl acc) es
      else clean_onto (e # acc) es)"

definition Join :: "path \<Rightarrow> string \<Rightarrow> path" where
  "Join dir s = clean_onto (rev dir) (path_elems s)"

text \<open>What a name given to the system means: absolute with a separator in front, otherwise below
  the working directory. Names with a Windows volume (\<^verbatim>\<open>C:\<close>) are left out.\<close>

definition open_path :: "path \<Rightarrow> string \<Rightarrow> path" where
  "open_path cwd s = Join (if s \<noteq> [] \<and> (s ! 0 = CHR ''/'' \<or> s ! 0 = CHR 0x5C) then [] else cwd) s"

type_synonym fs = "(path \<times> string) list"

definition ReadFile :: "fs \<Rightarrow> path \<Rightarrow> string + string" where
  "ReadFile fs p = (case map_of fs p of None \<Rightarrow> Inl ''file not found'' | Some d \<Rightarrow> Inr d)"

definition WriteFile :: "path \<Rightarrow> string \<Rightarrow> fs \<Rightarrow> fs" where
  "WriteFile p d fs = AList.update p d fs"

text \<open>\<^verbatim>\<open>os.ReadDir\<close>: the names directly below a directory, and whether each is a directory.\<close>

definition below :: "path \<Rightarrow> path \<Rightarrow> bool" where
  "below dir p \<longleftrightarrow> length dir < length p \<and> take (length dir) p = dir"

definition ReadDir :: "fs \<Rightarrow> path \<Rightarrow> (string \<times> bool) list" where
  "ReadDir fs dir =
     map (\<lambda>p. (p ! length dir, length dir + 1 < length p)) (filter (below dir) (map fst fs))"

section \<open>Results\<close>

record ConfigResult =
  res_ProfileName :: string
  res_ServerIP :: string
  res_Port :: int
  res_ShortID :: "16 word"
  res_SecretKey :: string
  res_InternalIP :: string
  res_RoutingSalt :: string
  res_GatewayIP :: string
  res_DNS :: string
  res_Transport :: string
  res_CDNDomain :: string
  res_BypassMode :: string
  res_BypassCIDRs :: "string list"

definition toResult :: "Config \<Rightarrow> ConfigResult" where
  "toResult cfg =
     \<lparr>res_ProfileName = cfg_ProfileName cfg, res_ServerIP = cfg_ServerIP cfg, res_Port = cfg_Port cfg,
      res_ShortID = cfg_ShortID cfg, res_SecretKey = cfg_SecretKey cfg, res_InternalIP = cfg_InternalIP cfg,
      res_RoutingSalt = cfg_RoutingSalt cfg, res_GatewayIP = cfg_GatewayIP cfg, res_DNS = cfg_DNS cfg,
      res_Transport = cfg_Transport cfg, res_CDNDomain = cfg_CDNDomain cfg, res_BypassMode = cfg_BypassMode cfg,
      res_BypassCIDRs = cfg_BypassCIDRs cfg\<rparr>"

definition error_result :: "string \<Rightarrow> ConfigResult" where
  "error_result err = toResult (zero_Config\<lparr>cfg_ProfileName := ''error: '' @ err\<rparr>)"

record ProfileItem =
  it_Name :: string
  it_ServerIP :: string
  it_Port :: int
  it_ShortID :: "16 word"
  it_InternalIP :: string
  it_DNS :: string

text \<open>\<^verbatim>\<open>core.LoadConfig\<close> of a path; \<open>decode\<close> is JSON decoding into a record.\<close>

definition load_path :: "(string \<Rightarrow> Config \<Rightarrow> Config) \<Rightarrow> fs \<Rightarrow> path \<Rightarrow> string + Config" where
  "load_path decode fs p =
     (case LoadConfig (\<lambda>_. ReadFile fs p) decode [] of
        (_, Some err) \<Rightarrow> Inl err
      | (cfg, None) \<Rightarrow> Inr cfg)"

section \<open>Operations\<close>

text \<open>\<open>exe\<close>: the directory of the executable, \<open>cwd\<close>: the working directory.\<close>

definition LoadDefaultConfig :: "(string \<Rightarrow> Config \<Rightarrow> Config) \<Rightarrow> path \<Rightarrow> path \<Rightarrow> fs \<Rightarrow> ConfigResult option" where
  "LoadDefaultConfig decode exe cwd fs =
     (case load_path decode fs (Join exe ''config.json'') of
        Inr cfg \<Rightarrow> Some (toResult cfg)
      | Inl _ \<Rightarrow> (case load_path decode fs (Join cwd ''config.json'') of
          Inr cfg \<Rightarrow> Some (toResult cfg)
        | Inl _ \<Rightarrow> None))"

definition profilesDir :: "path \<Rightarrow> path" where
  "profilesDir exe = Join exe ''profiles''"

text \<open>The profile names in a directory listing: \<^verbatim>\<open>filepath.Ext\<close> is \<^verbatim>\<open>.json\<close> exactly for names that
  end so.\<close>

definition profile_names :: "(string \<times> bool) list \<Rightarrow> string list" where
  "profile_names entries =
     map (\<lambda>(n, _). take (length n - 5) n) (filter (\<lambda>(n, isDir). \<not> isDir \<and> HasSuffix n ''.json'') entries)"

definition ListProfiles :: "path \<Rightarrow> fs \<Rightarrow> string list" where
  "ListProfiles exe fs = sort (profile_names (ReadDir fs (profilesDir exe)))"

definition profile_path :: "path \<Rightarrow> string \<Rightarrow> path" where
  "profile_path exe name = Join (profilesDir exe) (name @ ''.json'')"

definition LoadProfile :: "(string \<Rightarrow> Config \<Rightarrow> Config) \<Rightarrow> path \<Rightarrow> path \<Rightarrow> string \<Rightarrow> fs \<Rightarrow> ConfigResult option" where
  "LoadProfile decode exe cwd name fs =
     (case load_path decode fs (profile_path exe name) of
        Inr cfg \<Rightarrow> Some (toResult cfg)
      | Inl _ \<Rightarrow> (case load_path decode fs (open_path cwd (name @ ''.json'')) of
          Inr cfg \<Rightarrow> Some (toResult cfg)
        | Inl _ \<Rightarrow> None))"

text \<open>\<open>writeOK\<close>: whether the file can be written; the code ignores it.\<close>

definition importToProfiles ::
  "(string \<Rightarrow> Config \<Rightarrow> Config) \<Rightarrow> (Config \<Rightarrow> string) \<Rightarrow> path \<Rightarrow> bool \<Rightarrow> path \<Rightarrow> fs \<Rightarrow> ConfigResult \<times> fs" where
  "importToProfiles decode encode exe writeOK p fs =
     (case load_path decode fs p of
        Inl err \<Rightarrow> (error_result err, fs)
      | Inr cfg0 \<Rightarrow>
          let name = (if cfg_ProfileName cfg0 = [] then ''profile-'' @ dec_str (unat (cfg_ShortID cfg0)) else cfg_ProfileName cfg0);
              cfg = cfg0\<lparr>cfg_ProfileName := name\<rparr>;
              dst = profile_path exe name
          in (toResult cfg, if writeOK then WriteFile dst (encode cfg) fs else fs))"

definition ImportConfig ::
  "(string \<Rightarrow> Config \<Rightarrow> Config) \<Rightarrow> (Config \<Rightarrow> string) \<Rightarrow> path \<Rightarrow> bool \<Rightarrow> path \<Rightarrow> fs \<Rightarrow> ConfigResult \<times> fs" where
  "ImportConfig = importToProfiles"

text \<open>\<open>dialog\<close>: the answer of the file dialog, an error or a path, empty when it was cancelled.\<close>

definition ImportConfigFromDialog ::
  "(string \<Rightarrow> Config \<Rightarrow> Config) \<Rightarrow> (Config \<Rightarrow> string) \<Rightarrow> path \<Rightarrow> bool \<Rightarrow> string + path \<Rightarrow> fs \<Rightarrow> ConfigResult option \<times> fs" where
  "ImportConfigFromDialog decode encode exe writeOK dialog fs =
     (case dialog of
        Inl err \<Rightarrow> (Some (error_result err), fs)
      | Inr p \<Rightarrow> if p = [] then (None, fs)
                 else let (r, fs') = importToProfiles decode encode exe writeOK p fs in (Some r, fs'))"

definition DeleteProfile :: "path \<Rightarrow> string \<Rightarrow> fs \<Rightarrow> string \<times> fs" where
  "DeleteProfile exe name fs =
     (case map_of fs (profile_path exe name) of
        None \<Rightarrow> (''error: '' @ ''file not found'', fs)
      | Some _ \<Rightarrow> (''deleted'', AList.delete (profile_path exe name) fs))"

text \<open>A file that cannot be read or decoded gives the zero configuration; here no defaults are
  filled in.\<close>

definition profile_item :: "(string \<Rightarrow> Config \<Rightarrow> Config) \<Rightarrow> fs \<Rightarrow> path \<Rightarrow> string \<Rightarrow> ProfileItem" where
  "profile_item unmarshal fs dir n =
     (let cfg = (case ReadFile fs (Join dir n) of Inl _ \<Rightarrow> zero_Config | Inr d \<Rightarrow> unmarshal d zero_Config)
      in \<lparr>it_Name = take (length n - 5) n, it_ServerIP = cfg_ServerIP cfg, it_Port = cfg_Port cfg,
          it_ShortID = cfg_ShortID cfg, it_InternalIP = cfg_InternalIP cfg, it_DNS = cfg_DNS cfg\<rparr>)"

definition ListProfileItems :: "(string \<Rightarrow> Config \<Rightarrow> Config) \<Rightarrow> path \<Rightarrow> fs \<Rightarrow> ProfileItem list" where
  "ListProfileItems unmarshal exe fs =
     sort_key it_Name (map (\<lambda>(n, _). profile_item unmarshal fs (profilesDir exe) n)
       (filter (\<lambda>(n, isDir). \<not> isDir \<and> HasSuffix n ''.json'') (ReadDir fs (profilesDir exe))))"

definition SaveLastProfile :: "path \<Rightarrow> bool \<Rightarrow> string \<Rightarrow> fs \<Rightarrow> fs" where
  "SaveLastProfile exe writeOK name fs = (if writeOK then WriteFile (Join exe ''last_profile.txt'') name fs else fs)"

definition LoadLastProfile :: "path \<Rightarrow> path \<Rightarrow> fs \<Rightarrow> string" where
  "LoadLastProfile exe cwd fs =
     (case ReadFile fs (Join exe ''last_profile.txt'') of
        Inr d \<Rightarrow> d
      | Inl _ \<Rightarrow> (case ReadFile fs (Join cwd ''last_profile.txt'') of Inr d \<Rightarrow> d | Inl _ \<Rightarrow> []))"

section \<open>Facts\<close>

definition plain_name :: "string \<Rightarrow> bool" where
  "plain_name n \<longleftrightarrow> CHR ''/'' \<notin> set n \<and> CHR 0x5C \<notin> set n"

lemma path_elems_plain: "plain_name s \<Longrightarrow> path_elems s = [s]"
proof -
  assume p: "plain_name s"
  then have "map (\<lambda>c. if c = CHR 0x5C then CHR ''/'' else c) s = s"
    by (intro map_idI) (auto simp: plain_name_def)
  with p show ?thesis by (simp add: path_elems_def plain_name_def Split_single)
qed

lemma Join_plain:
  "plain_name s \<Longrightarrow> s \<notin> {[], ''.'', ''..''} \<Longrightarrow> Join dir s = dir @ [s]"
  by (simp add: Join_def path_elems_plain)

lemma profilesDir_eq: "profilesDir exe = exe @ [''profiles'']"
  by (simp add: profilesDir_def Join_plain plain_name_def)

lemma json_name:
  "n @ ''.json'' \<notin> {[], ''.'', ''..''}" "plain_name (n @ ''.json'') \<longleftrightarrow> plain_name n"
proof -
  have "length (n @ ''.json'') \<noteq> length s" if "s \<in> {[], ''.'', ''..''}" for s
    using that by auto
  then show "n @ ''.json'' \<notin> {[], ''.'', ''..''}" by metis
qed (simp add: plain_name_def)

lemma profile_path_plain: "plain_name n \<Longrightarrow> profile_path exe n = exe @ [''profiles'', n @ ''.json'']"
  using json_name [of n] by (simp add: profile_path_def Join_plain profilesDir_eq)

lemma HasSuffix_append [simp]: "HasSuffix (n @ suf) suf"
  by (simp add: HasSuffix_def)

lemma HasSuffix_json: "HasSuffix n ''.json'' \<Longrightarrow> n = take (length n - 5) n @ ''.json''"
proof -
  assume "HasSuffix n ''.json''"
  then have d: "drop (length n - 5) n = ''.json''"
    by (simp add: HasSuffix_def eval_nat_numeral)
  show ?thesis by (simp only: d [symmetric] append_take_drop_id)
qed

text \<open>The listing, by membership: a profile is a file directly in the directory.\<close>

lemma in_ReadDir: "(n, False) \<in> set (ReadDir fs dir) \<longleftrightarrow> dir @ [n] \<in> fst ` set fs"
proof
  assume "(n, False) \<in> set (ReadDir fs dir)"
  then obtain p where p: "p \<in> fst ` set fs" "below dir p" "\<not> length dir + 1 < length p" "n = p ! length dir"
    by (auto simp: ReadDir_def)
  then have l: "length p = Suc (length dir)" and t: "take (length dir) p = dir" by (simp_all add: below_def)
  have "take (Suc (length dir)) p = take (length dir) p @ [p ! length dir]"
    by (rule take_Suc_conv_app_nth) (simp add: l)
  then have "p = dir @ [n]" using l t p(4) by simp
  with p(1) show "dir @ [n] \<in> fst ` set fs" by simp
next
  assume "dir @ [n] \<in> fst ` set fs"
  then have "dir @ [n] \<in> set (filter (below dir) (map fst fs))" by (simp add: below_def)
  then have "(\<lambda>p. (p ! length dir, length dir + 1 < length p)) (dir @ [n]) \<in> set (ReadDir fs dir)"
    unfolding ReadDir_def set_map by (rule imageI)
  then show "(n, False) \<in> set (ReadDir fs dir)" by simp
qed

lemma in_profile_names:
  "n \<in> set (profile_names (ReadDir fs dir)) \<longleftrightarrow> dir @ [n @ ''.json''] \<in> fst ` set fs"
proof -
  have "n \<in> set (profile_names entries) \<longleftrightarrow> (n @ ''.json'', False) \<in> set entries" for entries
  proof
    assume "n \<in> set (profile_names entries)"
    then obtain m where m: "(m, False) \<in> set entries" "HasSuffix m ''.json''" "n = take (length m - 5) m"
      by (auto simp: profile_names_def)
    with HasSuffix_json [OF m(2)] show "(n @ ''.json'', False) \<in> set entries" by simp
  next
    assume "(n @ ''.json'', False) \<in> set entries"
    then have "(n @ ''.json'', False) \<in> set (filter (\<lambda>(n, isDir). \<not> isDir \<and> HasSuffix n ''.json'') entries)" by simp
    then have "(\<lambda>(n, _). take (length n - 5) n) (n @ ''.json'', False) \<in> set (profile_names entries)"
      unfolding profile_names_def set_map by (rule imageI)
    then show "n \<in> set (profile_names entries)" by simp
  qed
  then show ?thesis by (simp only: in_ReadDir)
qed

lemma ListProfiles_iff: "n \<in> set (ListProfiles exe fs) \<longleftrightarrow> map_of fs (exe @ [''profiles'', n @ ''.json'']) \<noteq> None"
  by (simp add: ListProfiles_def in_profile_names profilesDir_eq map_of_eq_None_iff)

text \<open>What an import does when the file can be read.\<close>

definition import_config :: "Config \<Rightarrow> Config" where
  "import_config c =
     c\<lparr>cfg_ProfileName := (if cfg_ProfileName c = [] then ''profile-'' @ dec_str (unat (cfg_ShortID c)) else cfg_ProfileName c)\<rparr>"

lemma importToProfiles_Inr:
  "load_path decode fs p = Inr c \<Longrightarrow> importToProfiles decode encode exe True p fs =
    (toResult (import_config c),
     WriteFile (profile_path exe (cfg_ProfileName (import_config c))) (encode (import_config c)) fs)"
  by (simp add: importToProfiles_def import_config_def Let_def)

lemma load_path_valid: "load_path decode fs p = Inr c \<Longrightarrow> config_valid c"
  using config_valid_SetDefaults
  by (auto simp: load_path_def LoadConfig_def split: sum.splits)

lemma load_path_written:
  assumes "decode (encode c) zero_Config = c" and "config_valid c"
  shows "load_path decode (WriteFile p (encode c) fs) p = Inr c"
  using assms SetDefaults_valid_id by (simp add: load_path_def LoadConfig_def WriteFile_def ReadFile_def update_conv')

lemma import_config_valid: "config_valid c \<Longrightarrow> config_valid (import_config c)"
  by (simp add: config_valid_def import_config_def)

section \<open>Properties\<close>

text \<open>
  An imported configuration is found again: if its name has no separator, the import
  lists it as a profile, loading that profile gives the result the import showed, every
  other file is untouched, and deleting it removes it from the list again. This needs only
  that JSON gives back the configuration that was written.
\<close>

theorem imported_profile_loads:
  assumes "load_path decode fs p = Inr c" and "decode (encode (import_config c)) zero_Config = import_config c"
    and "plain_name (cfg_ProfileName (import_config c))"
    and "importToProfiles decode encode exe True p fs = (r, fs')"
  shows "LoadProfile decode exe cwd (res_ProfileName r) fs' = Some r
    \<and> res_ProfileName r \<in> set (ListProfiles exe fs')
    \<and> (\<forall>q. q \<noteq> profile_path exe (res_ProfileName r) \<longrightarrow> map_of fs' q = map_of fs q)
    \<and> (distinct (map fst fs) \<longrightarrow> fst (DeleteProfile exe (res_ProfileName r) fs') = ''deleted''
         \<and> res_ProfileName r \<notin> set (ListProfiles exe (snd (DeleteProfile exe (res_ProfileName r) fs'))))"
proof -
  let ?n = "cfg_ProfileName (import_config c)"
  have r: "r = toResult (import_config c)" and fs': "fs' = WriteFile (profile_path exe ?n) (encode (import_config c)) fs"
    using assms(4) by (simp_all add: importToProfiles_Inr [OF assms(1)])
  have n: "res_ProfileName r = ?n" by (simp add: r toResult_def)
  have L: "load_path decode fs' (profile_path exe ?n) = Inr (import_config c)"
    unfolding fs' using load_path_written [of decode encode "import_config c", OF assms(2)] load_path_valid [OF assms(1)] import_config_valid by blast
  have m: "map_of fs' = (map_of fs)(profile_path exe ?n \<mapsto> encode (import_config c))"
    by (simp add: fs' WriteFile_def update_conv')
  note path = profile_path_plain [OF assms(3), of exe]
  have "LoadProfile decode exe cwd ?n fs' = Some r" by (simp add: LoadProfile_def L r)
  moreover have "?n \<in> set (ListProfiles exe fs')" by (simp add: ListProfiles_iff m path)
  moreover have "fst (DeleteProfile exe ?n fs') = ''deleted''"
    "?n \<notin> set (ListProfiles exe (snd (DeleteProfile exe ?n fs')))"
    by (simp_all add: DeleteProfile_def m ListProfiles_iff delete_conv' path)
  ultimately show ?thesis using m by (simp add: n)
qed

definition sample_profile :: Config where
  "sample_profile = SetDefaults (zero_Config\<lparr>cfg_ProfileName := ''home'', cfg_ServerIP := ''192.0.2.1'', cfg_ShortID := 3\<rparr>)"

lemma sample_profile_import: "import_config sample_profile = sample_profile" "cfg_ProfileName sample_profile = ''home''"
  by (simp_all add: import_config_def sample_profile_def SetDefaults_def)

lemma sample_profile_load: "load_path (\<lambda>_ _. sample_profile) [([''tmp'', ''a.json''], ''{}'')] [''tmp'', ''a.json''] = Inr sample_profile"
  using SetDefaults_valid_id [of sample_profile] config_valid_SetDefaults
  by (simp add: load_path_def LoadConfig_def ReadFile_def sample_profile_def)

theorem imported_profile_loads_witness:
  "\<exists>r fs'. importToProfiles (\<lambda>_ _. sample_profile) (\<lambda>_. ''{}'') [''app''] True [''tmp'', ''a.json''] [([''tmp'', ''a.json''], ''{}'')] = (r, fs')
    \<and> LoadProfile (\<lambda>_ _. sample_profile) [''app''] [] ''home'' fs' = Some r \<and> ''home'' \<in> set (ListProfiles [''app''] fs')"
proof -
  obtain r fs' where i: "importToProfiles (\<lambda>_ _. sample_profile) (\<lambda>_. ''{}'') [''app''] True [''tmp'', ''a.json''] [([''tmp'', ''a.json''], ''{}'')] = (r, fs')"
    by fastforce
  have "plain_name (cfg_ProfileName (import_config sample_profile))" by (simp add: sample_profile_import plain_name_def)
  moreover have "res_ProfileName r = ''home''"
    using i by (auto simp: importToProfiles_Inr [OF sample_profile_load] sample_profile_import toResult_def)
  ultimately show ?thesis
    using imported_profile_loads [OF sample_profile_load _ _ i, of "[]"] sample_profile_import i by auto
qed

text \<open>
  C31: the name in an imported file decides where it is written: a configuration named
  \<^verbatim>\<open>../config\<close> replaces the application's own \<^verbatim>\<open>config.json\<close>, which it then starts from,
  and the profile list does not show it; a delete request with that name removes the file.
\<close>

theorem profile_name_escapes_directory:
  assumes "load_path decode fs p = Inr c" and "cfg_ProfileName c = ''../config''"
    and "decode (encode c) zero_Config = c" and "importToProfiles decode encode exe True p fs = (r, fs')"
  shows "map_of fs' (Join exe ''config.json'') = Some (encode c) \<and> LoadDefaultConfig decode exe cwd fs' = Some r
    \<and> set (ListProfiles exe fs') = set (ListProfiles exe fs)
    \<and> map_of (snd (DeleteProfile exe ''../config'' fs')) (Join exe ''config.json'') = None"
proof -
  have c: "import_config c = c" using assms(2) by (simp add: import_config_def)
  have el: "path_elems ''../config.json'' = [''..'', ''config.json'']" by (simp add: path_elems_def Split_def)
  have j: "Join exe ''config.json'' = exe @ [''config.json'']" by (rule Join_plain) (simp_all add: plain_name_def)
  have path: "profile_path exe ''../config'' = exe @ [''config.json'']"
    by (simp add: profile_path_def Join_def el profilesDir_eq)
  have r: "r = toResult c" and fs': "fs' = WriteFile (exe @ [''config.json'']) (encode c) fs"
    using assms(4) by (simp_all add: importToProfiles_Inr [OF assms(1)] c assms(2) path)
  have m: "map_of fs' = (map_of fs)(exe @ [''config.json''] \<mapsto> encode c)" by (simp add: fs' WriteFile_def update_conv')
  have "load_path decode fs' (Join exe ''config.json'') = Inr c"
    unfolding fs' j using load_path_written [of decode encode c, OF assms(3)] load_path_valid [OF assms(1)] by blast
  then have "LoadDefaultConfig decode exe cwd fs' = Some r" by (simp add: LoadDefaultConfig_def r)
  moreover have "set (ListProfiles exe fs') = set (ListProfiles exe fs)" by (auto simp: ListProfiles_iff m)
  ultimately show ?thesis by (simp add: m j DeleteProfile_def path delete_conv')
qed

theorem profile_name_escapes_directory_witness:
  "\<exists>c r fs'. importToProfiles (\<lambda>_ _. c) (\<lambda>_. ''x'') [''app''] True [''tmp''] [([''tmp''], ''{}'')] = (r, fs')
    \<and> map_of fs' [''app'', ''config.json''] = Some ''x''"
proof -
  define c where "c = SetDefaults (zero_Config\<lparr>cfg_ProfileName := ''../config''\<rparr>)"
  have c: "cfg_ProfileName c = ''../config''" by (simp add: c_def SetDefaults_def)
  have l: "load_path (\<lambda>_ _. c) [([''tmp''], ''{}'')] [''tmp''] = Inr c"
    using SetDefaults_valid_id [of c] config_valid_SetDefaults by (simp add: load_path_def LoadConfig_def ReadFile_def c_def)
  obtain r fs' where i: "importToProfiles (\<lambda>_ _. c) (\<lambda>_. ''x'') [''app''] True [''tmp''] [([''tmp''], ''{}'')] = (r, fs')"
    by fastforce
  have "Join [''app''] ''config.json'' = [''app'', ''config.json'']"
    using Join_plain [of "''config.json''" "[''app'']"] by (simp add: plain_name_def)
  with profile_name_escapes_directory [OF l c _ i, of "[]"] i show ?thesis by auto
qed

text \<open>
  The list of profiles is sorted and holds exactly the names whose file lies directly in the
  profile directory.
\<close>

theorem profiles_listed_sorted:
  "sorted (ListProfiles exe fs)
   \<and> (n \<in> set (ListProfiles exe fs) \<longleftrightarrow> map_of fs (exe @ [''profiles'', n @ ''.json'']) \<noteq> None)"
  by (simp add: ListProfiles_iff) (simp add: ListProfiles_def)

text \<open>The last profile's name is read back; without the file beside the program the one in the
  working directory is taken.\<close>

theorem last_profile_remembered:
  "LoadLastProfile exe cwd (SaveLastProfile exe True name fs) = name"
  by (simp add: LoadLastProfile_def SaveLastProfile_def WriteFile_def ReadFile_def update_conv')

end
