(* ===== verification/Genome.thy ===== *)
theory Genome
  imports Strings "HOL-Library.State_Monad" "HOL-Library.Multiset"
begin

text \<open>
  The search for good transport parameters in \<^verbatim>\<open>cmd/protocol-test\<close>: parameter sets
  (\<open>Genome\<close>), their random variation in \<^verbatim>\<open>config.go\<close> and \<^verbatim>\<open>main.go\<close>, the measurement of
  \<^verbatim>\<open>runner.go\<close> and the generations of \<^verbatim>\<open>main\<close>. The random generator is the state of a monad:
  a stream of numbers of which \<^verbatim>\<open>rng.Intn(n)\<close> takes one below \<open>n\<close>; every sequence of
  answers comes from some stream. Losses and scores are in tenths (of a per cent, of a
  point), as the ping command rounds them.
\<close>

section \<open>Random choices\<close>

type_synonym rng = "nat \<Rightarrow> nat"
type_synonym 'a rand = "(rng, 'a) state"

definition Intn :: "nat \<Rightarrow> int rand" where
  "Intn n = State (\<lambda>r. (int (r 0 mod n), \<lambda>i. r (Suc i)))"

text \<open>\<^verbatim>\<open>xs[rng.Intn(len(xs))]\<close>\<close>

definition pick :: "'a list \<Rightarrow> 'a rand" where
  "pick xs = do { i \<leftarrow> Intn (length xs); State_Monad.return (xs ! nat i) }"

text \<open>All results of a computation have a property.\<close>

definition gives :: "('a \<Rightarrow> bool) \<Rightarrow> 'a rand \<Rightarrow> bool" where
  "gives P m \<longleftrightarrow> (\<forall>r. P (fst (run_state m r)))"

lemma gives_return: "P x \<Longrightarrow> gives P (State_Monad.return x)"
  by (simp add: gives_def)

lemma gives_bind: "gives Q m \<Longrightarrow> (\<And>x. Q x \<Longrightarrow> gives P (f x)) \<Longrightarrow> gives P (State_Monad.bind m f)"
  by (simp add: gives_def case_prod_beta)

lemma gives_Intn: "0 < n \<Longrightarrow> gives (\<lambda>k. 0 \<le> k \<and> k < int n) (Intn n)"
  by (simp add: gives_def Intn_def)

lemma gives_pick: "xs \<noteq> [] \<Longrightarrow> gives (\<lambda>x. x \<in> set xs) (pick xs)"
  by (simp add: gives_def pick_def Intn_def)

section \<open>Parameter sets\<close>

record Genome =
  g_Name :: string
  g_FEC :: int
  g_PadTargetSize :: int
  g_MinDelayMs :: int
  g_MaxDelayMs :: int
  g_IdleBps :: int
  g_Mimic :: string
  g_PortOffset :: int

definition DefaultGenome :: Genome where
  "DefaultGenome = \<lparr>g_Name = ''baseline'', g_FEC = 1, g_PadTargetSize = 1300, g_MinDelayMs = 0, g_MaxDelayMs = 0,
     g_IdleBps = 0, g_Mimic = [], g_PortOffset = 0\<rparr>"

text \<open>The exported variants of \<^verbatim>\<open>config.go\<close>.\<close>

definition Mutate :: "Genome \<Rightarrow> Genome rand" where
  "Mutate g = do {
     k \<leftarrow> Intn 6;
     let n = g\<lparr>g_Name := ''mutated''\<rparr>;
     if k = 0 then do { f \<leftarrow> Intn 3; State_Monad.return (n\<lparr>g_FEC := 1 + f\<rparr>) }
     else if k = 1 then do { s \<leftarrow> pick [0, 256, 512, 1024, 1300]; State_Monad.return (n\<lparr>g_PadTargetSize := s\<rparr>) }
     else if k = 2 then do {
       a \<leftarrow> Intn 50;
       b \<leftarrow> Intn 100;
       State_Monad.return (n\<lparr>g_MinDelayMs := a, g_MaxDelayMs := a + b\<rparr>) }
     else if k = 3 then do { b \<leftarrow> Intn 500000; State_Monad.return (n\<lparr>g_IdleBps := b\<rparr>) }
     else if k = 4 then do { m \<leftarrow> pick [[], ''tls'']; State_Monad.return (n\<lparr>g_Mimic := m\<rparr>) }
     else do { p \<leftarrow> Intn 1000; State_Monad.return (n\<lparr>g_PortOffset := p - 500\<rparr>) } }"

text \<open>One field of the crossing: if its flag is set, the value of a randomly chosen parent.\<close>

definition cross_field :: "bool \<Rightarrow> Genome \<Rightarrow> Genome \<Rightarrow> (Genome \<Rightarrow> 'v) \<Rightarrow> 'v \<Rightarrow> 'v rand" where
  "cross_field flag a b field old =
     (if flag then do { s \<leftarrow> pick [a, b]; State_Monad.return (field s) } else State_Monad.return old)"

definition coin :: "bool rand" where
  "coin = do { k \<leftarrow> Intn 2; State_Monad.return (k = 0) }"

definition Crossover :: "Genome \<Rightarrow> Genome \<Rightarrow> Genome rand" where
  "Crossover a b = do {
     f0 \<leftarrow> coin; f1 \<leftarrow> coin; f2 \<leftarrow> coin; f3 \<leftarrow> coin; f4 \<leftarrow> coin; f5 \<leftarrow> coin; f6 \<leftarrow> coin;
     v0 \<leftarrow> cross_field f0 a b g_FEC (g_FEC a);
     v1 \<leftarrow> cross_field f1 a b g_PadTargetSize (g_PadTargetSize a);
     v2 \<leftarrow> cross_field f2 a b g_MinDelayMs (g_MinDelayMs a);
     v3 \<leftarrow> cross_field f3 a b g_MaxDelayMs (g_MaxDelayMs a);
     v4 \<leftarrow> cross_field f4 a b g_IdleBps (g_IdleBps a);
     v5 \<leftarrow> cross_field f5 a b g_Mimic (g_Mimic a);
     v6 \<leftarrow> cross_field f6 a b g_PortOffset (g_PortOffset a);
     State_Monad.return \<lparr>g_Name = ''cross'', g_FEC = v0, g_PadTargetSize = v1, g_MinDelayMs = v2, g_MaxDelayMs = v3,
       g_IdleBps = v4, g_Mimic = v5, g_PortOffset = v6\<rparr> }"

text \<open>The variants \<^verbatim>\<open>main.go\<close> uses; case 5 of \<^verbatim>\<open>mutate\<close> changes nothing.\<close>

definition mutate :: "Genome \<Rightarrow> Genome rand" where
  "mutate g = do {
     k \<leftarrow> Intn 6;
     if k = 0 then do { f \<leftarrow> Intn 4; State_Monad.return (g\<lparr>g_FEC := 1 + f\<rparr>) }
     else if k = 1 then do {
       a \<leftarrow> Intn 100;
       b \<leftarrow> Intn 200;
       State_Monad.return (g\<lparr>g_MinDelayMs := a, g_MaxDelayMs := a + b\<rparr>) }
     else if k = 2 then do { b \<leftarrow> Intn 500000; State_Monad.return (g\<lparr>g_IdleBps := b\<rparr>) }
     else if k = 3 then do { p \<leftarrow> Intn 200; State_Monad.return (g\<lparr>g_PortOffset := p - 100\<rparr>) }
     else if k = 4 then do { m \<leftarrow> pick [[], ''tls'']; State_Monad.return (g\<lparr>g_Mimic := m\<rparr>) }
     else State_Monad.return g }"

definition crossover :: "Genome \<Rightarrow> Genome \<Rightarrow> Genome rand" where
  "crossover a b = do {
     c0 \<leftarrow> coin; c1 \<leftarrow> coin; c2 \<leftarrow> coin; c3 \<leftarrow> coin; c4 \<leftarrow> coin; c5 \<leftarrow> coin;
     State_Monad.return (a\<lparr>
       g_FEC := (if c0 then g_FEC b else g_FEC a),
       g_MinDelayMs := (if c1 then g_MinDelayMs b else g_MinDelayMs a),
       g_MaxDelayMs := (if c2 then g_MaxDelayMs b else g_MaxDelayMs a),
       g_IdleBps := (if c3 then g_IdleBps b else g_IdleBps a),
       g_Mimic := (if c4 then g_Mimic b else g_Mimic a),
       g_PortOffset := (if c5 then g_PortOffset b else g_PortOffset a)\<rparr>) }"

section \<open>Measurement\<close>

record TestResult =
  tr_Name :: string
  tr_Genome :: Genome
  tr_LossPct :: int
  tr_BestSize :: int
  tr_Score :: int

text \<open>
  \<^verbatim>\<open>pingSize\<close>: loss and mean delay out of what the PowerShell command prints (None: it failed).
  \<open>parse\<close> reads a decimal number, in tenths; whatever cannot be read counts as a loss of 100 per
  cent.
\<close>

definition pingSize :: "(string \<Rightarrow> int option) \<Rightarrow> string option \<Rightarrow> int \<times> int" where
  "pingSize parse out =
     (case out of
        None \<Rightarrow> (1000, 0)
      | Some text \<Rightarrow>
          let parts = Split (TrimSpace text) CHR '':''
          in if 2 \<le> length parts
             then (case (parse (TrimSpace (parts ! 0)), parse (TrimSpace (parts ! 1))) of
                     (Some l, Some m) \<Rightarrow> (l, m)
                   | _ \<Rightarrow> (1000, 0))
             else (1000, 0))"

text \<open>The loop over the packet sizes; \<open>loss sz\<close> is what the ping of that size gives.\<close>

fun best_size :: "(int \<Rightarrow> int) \<Rightarrow> int list \<Rightarrow> int \<times> int \<Rightarrow> int \<times> int" where
  "best_size loss [] best = best"
| "best_size loss (sz # szs) (bestLoss, bestSize) =
     best_size loss szs (if loss sz < bestLoss then (loss sz, sz) else (bestLoss, bestSize))"

definition test_sizes :: "int list" where
  "test_sizes = [200, 500, 800, 1100, 1400]"

text \<open>In tenths: \<^verbatim>\<open>1000.0 - bestLoss*10\<close> points are \<open>10000 - 10 * loss\<close> tenths of a point.\<close>

definition RunTest :: "(int \<Rightarrow> int) \<Rightarrow> string \<Rightarrow> Genome \<Rightarrow> TestResult" where
  "RunTest loss name g =
     (let (bestLoss, bestSize) = best_size loss test_sizes (1000, 1400);
          score = 10000 - bestLoss * 10
      in \<lparr>tr_Name = name, tr_Genome = g, tr_LossPct = bestLoss, tr_BestSize = bestSize,
          tr_Score = (if score < 0 then 0 else score)\<rparr>)"

text \<open>\<^verbatim>\<open>saveAndLog\<close>: the result file (\<open>ok\<close>: it can be written, an error is ignored) and the list
  that all measurements share.\<close>

definition saveAndLog ::
  "(TestResult \<Rightarrow> string) \<Rightarrow> bool \<Rightarrow> string \<Rightarrow> TestResult \<Rightarrow> (string \<Rightarrow> string option) \<times> TestResult list
     \<Rightarrow> (string \<Rightarrow> string option) \<times> TestResult list" where
  "saveAndLog encode ok dir r st =
     (if ok then (fst st)(dir @ ''/'' @ tr_Name r @ ''.json'' := Some (encode r)) else fst st, snd st @ [r])"

section \<open>Generations\<close>

definition seed_genomes :: "Genome list" where
  "seed_genomes =
     (let z = \<lparr>g_Name = [], g_FEC = 0, g_PadTargetSize = 0, g_MinDelayMs = 0, g_MaxDelayMs = 0, g_IdleBps = 0,
               g_Mimic = [], g_PortOffset = 0\<rparr>
      in [z\<lparr>g_Name := ''baseline'', g_FEC := 1\<rparr>, z\<lparr>g_Name := ''fec2'', g_FEC := 2\<rparr>, z\<lparr>g_Name := ''fec3'', g_FEC := 3\<rparr>,
          z\<lparr>g_Name := ''delay10-50'', g_FEC := 1, g_MinDelayMs := 10, g_MaxDelayMs := 50\<rparr>,
          z\<lparr>g_Name := ''port+10'', g_FEC := 1, g_PortOffset := 10\<rparr>,
          z\<lparr>g_Name := ''port-10'', g_FEC := 1, g_PortOffset := -10\<rparr>])"

text \<open>A random genome for every name, renamed.\<close>

fun repeat_named :: "string list \<Rightarrow> Genome rand \<Rightarrow> Genome list rand" where
  "repeat_named [] m = State_Monad.return []"
| "repeat_named (name # names) m = do {
     g \<leftarrow> m;
     gs \<leftarrow> repeat_named names m;
     State_Monad.return (g\<lparr>g_Name := name\<rparr> # gs) }"

text \<open>\<^verbatim>\<open>nextGen\<close>; an empty list of results panics (None).\<close>

definition nextGen :: "TestResult list \<Rightarrow> Genome list rand option" where
  "nextGen best =
     (case best of
        [] \<Rightarrow> None
      | t # ts \<Rightarrow> Some (do {
          let kept = tr_Genome t # (case ts of [] \<Rightarrow> [] | u # _ \<Rightarrow> [tr_Genome u]);
          ms \<leftarrow> repeat_named [''m0'', ''m1'', ''m2'', ''m3''] (mutate (tr_Genome t));
          xs \<leftarrow> repeat_named [''x0'', ''x1''] (crossover (tr_Genome t) (tr_Genome (best ! (1 mod length best))));
          State_Monad.return (kept @ ms @ xs) }))"

text \<open>One generation: the measured genomes, sorted by falling score (by \<^verbatim>\<open>sort.Slice\<close>, whose
  order among equals is open), and the next genomes from the best three. \<open>ping\<close> is the network
  at each measurement.\<close>

definition generation ::
  "(TestResult list \<Rightarrow> TestResult list) \<Rightarrow> (nat \<Rightarrow> int \<Rightarrow> int) \<Rightarrow> Genome list \<Rightarrow> TestResult list \<times> Genome list rand option" where
  "generation srt ping genomes =
     (let results = srt (map (\<lambda>(i, g). RunTest (ping i) (g_Name g) g) (enumerate 0 genomes))
      in (results, nextGen (take 3 results)))"

text \<open>\<open>sort.Slice\<close> by falling score.\<close>

definition sorts_by_score :: "(TestResult list \<Rightarrow> TestResult list) \<Rightarrow> bool" where
  "sorts_by_score srt \<longleftrightarrow> (\<forall>xs. mset (srt xs) = mset xs \<and> sorted_wrt (\<lambda>a b. tr_Score a \<ge> tr_Score b) (srt xs))"

text \<open>The generations of \<^verbatim>\<open>main\<close>: \<open>n\<close> more after this one; all results, in order.\<close>

fun generations ::
  "(TestResult list \<Rightarrow> TestResult list) \<Rightarrow> (nat \<Rightarrow> nat \<Rightarrow> int \<Rightarrow> int) \<Rightarrow> nat \<Rightarrow> Genome list \<Rightarrow> rng
     \<Rightarrow> (TestResult list list) option" where
  "generations srt ping 0 genomes r = Some [fst (generation srt (ping 0) genomes)]"
| "generations srt ping (Suc n) genomes r =
     (case generation srt (ping (Suc n)) genomes of
        (results, None) \<Rightarrow> None
      | (results, Some next) \<Rightarrow>
          (case run_state next r of
             (genomes', r') \<Rightarrow> map_option ((#) results) (generations srt ping n genomes' r')))"

text \<open>The results \<^verbatim>\<open>main\<close> prints at the end.\<close>

definition final_results :: "(TestResult list \<Rightarrow> TestResult list) \<Rightarrow> TestResult list list \<Rightarrow> TestResult list" where
  "final_results srt all_results = take 5 (srt (concat all_results))"

section \<open>Ranges\<close>

text \<open>The ranges of the parameters: of a search run, and of the exported variants.\<close>

definition wf_genome :: "Genome \<Rightarrow> bool" where
  "wf_genome g \<longleftrightarrow> 1 \<le> g_FEC g \<and> g_FEC g \<le> 4 \<and> 0 \<le> g_MinDelayMs g \<and> g_MinDelayMs g < 100
     \<and> 0 \<le> g_MaxDelayMs g \<and> g_MaxDelayMs g < 300 \<and> 0 \<le> g_IdleBps g \<and> g_IdleBps g < 500000
     \<and> g_Mimic g \<in> {[], ''tls''} \<and> - 100 \<le> g_PortOffset g \<and> g_PortOffset g < 100"

definition wf_Genome :: "Genome \<Rightarrow> bool" where
  "wf_Genome g \<longleftrightarrow> 1 \<le> g_FEC g \<and> g_FEC g \<le> 3 \<and> g_PadTargetSize g \<in> {0, 256, 512, 1024, 1300}
     \<and> 0 \<le> g_MinDelayMs g \<and> g_MinDelayMs g < 50 \<and> 0 \<le> g_MaxDelayMs g \<and> g_MaxDelayMs g < 149
     \<and> 0 \<le> g_IdleBps g \<and> g_IdleBps g < 500000 \<and> g_Mimic g \<in> {[], ''tls''}
     \<and> - 500 \<le> g_PortOffset g \<and> g_PortOffset g < 500"

lemma gives_coin: "gives (\<lambda>_. True) coin"
  by (simp add: gives_def)

lemma gives_mutate: "wf_genome g \<Longrightarrow> gives wf_genome (mutate g)"
  unfolding mutate_def
  by (rule gives_bind, rule gives_Intn, simp)
    (auto intro!: gives_bind [OF gives_Intn] gives_bind [OF gives_pick] gives_return simp: wf_genome_def)

lemma gives_crossover: "wf_genome a \<Longrightarrow> wf_genome b \<Longrightarrow> gives wf_genome (crossover a b)"
  unfolding crossover_def
  by (intro gives_bind [OF gives_coin] gives_return) (auto simp: wf_genome_def)

lemma gives_repeat_named:
  "gives wf_genome m \<Longrightarrow> gives (\<lambda>gs. length gs = length names \<and> (\<forall>g \<in> set gs. wf_genome g)) (repeat_named names m)"
proof (induction names)
  case (Cons name names)
  show ?case
    unfolding repeat_named.simps
    by (rule gives_bind [OF Cons.prems], rule gives_bind [OF Cons.IH [OF Cons.prems]])
      (auto intro!: gives_return simp: wf_genome_def)
qed (simp add: gives_return)

lemma gives_Mutate: "wf_Genome g \<Longrightarrow> gives wf_Genome (Mutate g)"
  unfolding Mutate_def Let_def
  by (rule gives_bind, rule gives_Intn, simp)
    (auto intro!: gives_bind [OF gives_Intn] gives_bind [OF gives_pick] gives_return simp: wf_Genome_def)

lemma gives_cross_field:
  "P old \<Longrightarrow> P (field a) \<Longrightarrow> P (field b) \<Longrightarrow> gives P (cross_field flag a b field old)"
  by (auto simp: cross_field_def intro!: gives_return gives_bind [OF gives_pick])

lemma gives_Crossover:
  assumes "wf_Genome a" and "wf_Genome b"
  shows "gives wf_Genome (Crossover a b)"
proof -
  note F = gives_cross_field [where a = a and b = b]
  have a: "1 \<le> g_FEC a \<and> g_FEC a \<le> 3" "g_PadTargetSize a \<in> {0, 256, 512, 1024, 1300}" "0 \<le> g_MinDelayMs a \<and> g_MinDelayMs a < 50"
    "0 \<le> g_MaxDelayMs a \<and> g_MaxDelayMs a < 149" "0 \<le> g_IdleBps a \<and> g_IdleBps a < 500000" "g_Mimic a \<in> {[], ''tls''}"
    "- 500 \<le> g_PortOffset a \<and> g_PortOffset a < 500"
    using assms(1) unfolding wf_Genome_def by blast+
  have b: "1 \<le> g_FEC b \<and> g_FEC b \<le> 3" "g_PadTargetSize b \<in> {0, 256, 512, 1024, 1300}" "0 \<le> g_MinDelayMs b \<and> g_MinDelayMs b < 50"
    "0 \<le> g_MaxDelayMs b \<and> g_MaxDelayMs b < 149" "0 \<le> g_IdleBps b \<and> g_IdleBps b < 500000" "g_Mimic b \<in> {[], ''tls''}"
    "- 500 \<le> g_PortOffset b \<and> g_PortOffset b < 500"
    using assms(2) unfolding wf_Genome_def by blast+
  note fields = F [where P = "\<lambda>v. 1 \<le> v \<and> v \<le> 3", OF a(1) a(1) b(1)]
    F [where P = "\<lambda>v. v \<in> {0, 256, 512, 1024, 1300}", OF a(2) a(2) b(2)]
    F [where P = "\<lambda>v. 0 \<le> v \<and> v < 50", OF a(3) a(3) b(3)]
    F [where P = "\<lambda>v. 0 \<le> v \<and> v < 149", OF a(4) a(4) b(4)]
    F [where P = "\<lambda>v. 0 \<le> v \<and> v < 500000", OF a(5) a(5) b(5)]
    F [where P = "\<lambda>v. v \<in> {[], ''tls''}", OF a(6) a(6) b(6)]
    F [where P = "\<lambda>v. - 500 \<le> v \<and> v < 500", OF a(7) a(7) b(7)]
  show ?thesis
    unfolding Crossover_def
    by (intro gives_bind [OF gives_coin], rule gives_bind [OF fields(1)], rule gives_bind [OF fields(2)],
        rule gives_bind [OF fields(3)], rule gives_bind [OF fields(4)], rule gives_bind [OF fields(5)],
        rule gives_bind [OF fields(6)], rule gives_bind [OF fields(7)], rule gives_return)
      (simp add: wf_Genome_def)
qed

section \<open>A run of the search\<close>

lemma best_size_min:
  "fst (best_size loss szs best) = Min (insert (fst best) (loss ` set szs))"
proof (induction szs arbitrary: best)
  case (Cons sz szs)
  obtain l s where b: "best = (l, s)" by (cases best)
  have m: "fst (if loss sz < l then (loss sz, sz) else (l, s)) = min l (loss sz)" by simp
  show ?case
    unfolding b best_size.simps Cons.IH m by (cases "szs = []") (simp_all add: min.assoc)
qed simp

lemma RunTest_Genome [simp]: "tr_Genome (RunTest loss name g) = g"
  by (simp add: RunTest_def Let_def case_prod_beta)

lemma RunTest_range:
  assumes "\<forall>sz. 0 \<le> loss sz \<and> loss sz \<le> 1000"
  shows "0 \<le> tr_Score (RunTest loss name g) \<and> tr_Score (RunTest loss name g) \<le> 10000
    \<and> tr_LossPct (RunTest loss name g) = Min (loss ` set test_sizes)
    \<and> tr_Score (RunTest loss name g) = 10000 - 10 * tr_LossPct (RunTest loss name g)"
proof -
  obtain l s where b: "best_size loss test_sizes (1000, 1400) = (l, s)" by fastforce
  have "l = Min (insert 1000 (loss ` set test_sizes))" using best_size_min [of loss test_sizes "(1000, 1400)"] b by simp
  also have "\<dots> = min 1000 (Min (loss ` set test_sizes))" by (rule Min_insert) (simp_all add: test_sizes_def)
  also have "\<dots> = Min (loss ` set test_sizes)"
  proof (rule min_absorb2)
    have "Min (loss ` set test_sizes) \<le> loss 200" by (rule Min_le) (simp_all add: test_sizes_def)
    with assms show "Min (loss ` set test_sizes) \<le> 1000" by (meson order_trans)
  qed
  finally have l: "l = Min (loss ` set test_sizes)" .
  have "l \<in> loss ` set test_sizes" unfolding l by (rule Min_in) (simp_all add: test_sizes_def)
  then have "0 \<le> l" "l \<le> 1000" using assms by auto
  then show ?thesis by (simp add: RunTest_def b l)
qed

definition wf_results :: "TestResult list \<Rightarrow> bool" where
  "wf_results rs \<longleftrightarrow> (\<forall>t \<in> set rs. wf_genome (tr_Genome t) \<and> 0 \<le> tr_Score t \<and> tr_Score t \<le> 10000)"

lemma generation_wf:
  assumes "sorts_by_score srt" and "\<forall>i sz. 0 \<le> ping i sz \<and> ping i sz \<le> 1000" and "\<forall>g \<in> set genomes. wf_genome g"
  shows "wf_results (fst (generation srt ping genomes)) \<and> length (fst (generation srt ping genomes)) = length genomes"
proof -
  define rs where "rs = map (\<lambda>(i, g). RunTest (ping i) (g_Name g) g) (enumerate 0 genomes)"
  have m: "mset (srt rs) = mset rs" using assms(1) by (simp add: sorts_by_score_def)
  have score: "0 \<le> tr_Score (RunTest (ping i) nm g) \<and> tr_Score (RunTest (ping i) nm g) \<le> 10000" for i nm g
    using RunTest_range [of "ping i"] assms(2) by blast
  have "wf_genome (genomes ! i)" if "i < length genomes" for i using assms(3) that by simp
  then have "wf_results rs"
    using score by (auto simp: wf_results_def rs_def in_set_enumerate_eq)
  moreover have "set (srt rs) = set rs" using m by (metis set_mset_mset)
  moreover have "length (srt rs) = length genomes" using mset_eq_length [OF m] by (simp add: rs_def)
  ultimately show ?thesis by (simp add: generation_def wf_results_def rs_def [symmetric] Let_def)
qed

lemma nextGen_wf:
  assumes "wf_results best" and "best \<noteq> []"
  obtains m where "nextGen best = Some m"
    and "gives (\<lambda>gs. length gs = (if length best = 1 then 7 else 8) \<and> (\<forall>g \<in> set gs. wf_genome g)) m"
proof -
  obtain t ts where b: "best = t # ts" using assms(2) by (cases best) auto
  let ?o = "tr_Genome (best ! (1 mod length best))"
  have wf: "wf_genome (tr_Genome t)" "wf_genome ?o" "\<forall>u \<in> set ts. wf_genome (tr_Genome u)"
    using assms(1) by (auto simp: b wf_results_def in_set_conv_nth intro: nth_mem)
  note ms = gives_repeat_named [OF gives_mutate [OF wf(1)], of "[''m0'', ''m1'', ''m2'', ''m3'']"]
  note xs = gives_repeat_named [OF gives_crossover [OF wf(1,2)], of "[''x0'', ''x1'']"]
  show ?thesis
  proof (rule that)
    show "nextGen best = Some (do {
          let kept = tr_Genome t # (case ts of [] \<Rightarrow> [] | u # _ \<Rightarrow> [tr_Genome u]);
          ms \<leftarrow> repeat_named [''m0'', ''m1'', ''m2'', ''m3''] (mutate (tr_Genome t));
          xs \<leftarrow> repeat_named [''x0'', ''x1''] (crossover (tr_Genome t) ?o);
          State_Monad.return (kept @ ms @ xs) })" by (simp add: nextGen_def b)
    show "gives (\<lambda>gs. length gs = (if length best = 1 then 7 else 8) \<and> (\<forall>g \<in> set gs. wf_genome g)) (do {
          let kept = tr_Genome t # (case ts of [] \<Rightarrow> [] | u # _ \<Rightarrow> [tr_Genome u]);
          ms \<leftarrow> repeat_named [''m0'', ''m1'', ''m2'', ''m3''] (mutate (tr_Genome t));
          xs \<leftarrow> repeat_named [''x0'', ''x1''] (crossover (tr_Genome t) ?o);
          State_Monad.return (kept @ ms @ xs) })"
      unfolding Let_def
      by (rule gives_bind [OF ms], rule gives_bind [OF xs], rule gives_return)
        (use wf in \<open>auto simp: b split: list.split\<close>)
  qed
qed

lemma generations_wf:
  assumes "sorts_by_score srt" and "\<forall>k i sz. 0 \<le> ping k i sz \<and> ping k i sz \<le> 1000"
    and "\<forall>g \<in> set genomes. wf_genome g" and "2 \<le> length genomes"
  shows "\<exists>rs. generations srt ping n genomes r = Some rs \<and> (\<forall>x \<in> set rs. wf_results x)
    \<and> map length rs = length genomes # replicate n 8"
  using assms(3,4)
proof (induction n arbitrary: genomes r)
  case 0
  then show ?case using generation_wf [OF assms(1), of "ping 0" genomes] assms(2) by simp
next
  case (Suc n)
  obtain results where res: "fst (generation srt (ping (Suc n)) genomes) = results" by blast
  with generation_wf [OF assms(1), of "ping (Suc n)" genomes] assms(2) Suc.prems
  have wf: "wf_results results" "length results = length genomes" by auto
  have top: "wf_results (take 3 results)" "take 3 results \<noteq> []" "length (take 3 results) \<noteq> 1"
    using wf Suc.prems(2) by (auto simp: wf_results_def dest: in_set_takeD)
  obtain m where m: "nextGen (take 3 results) = Some m"
    "gives (\<lambda>gs. length gs = (if length (take 3 results) = 1 then 7 else 8) \<and> (\<forall>g \<in> set gs. wf_genome g)) m"
    using nextGen_wf [OF top(1,2)] by blast
  obtain gs r' where gs: "run_state m r = (gs, r')" by fastforce
  with m(2) top(3) have g: "length gs = 8" "\<forall>g \<in> set gs. wf_genome g" by (auto simp: gives_def dest: spec [of _ r])
  have gen: "generation srt (ping (Suc n)) genomes = (results, Some m)"
    using res m(1) by (auto simp: generation_def Let_def)
  from Suc.IH [OF g(2), of r'] g(1) obtain rs where "generations srt ping n gs r' = Some rs" "\<forall>x \<in> set rs. wf_results x"
    "map length rs = 8 # replicate n 8" by auto
  with gen gs wf show ?case by auto
qed

lemma seed_genomes_wf: "(\<forall>g \<in> set seed_genomes. wf_genome g) \<and> length seed_genomes = 6"
  by (simp add: seed_genomes_def wf_genome_def Let_def)

section \<open>Properties\<close>

text \<open>
  The search of the protocol test is well-typed in the sense of its parameters: it
  never panics, its three generations have six, eight and eight members, and whatever the
  random generator and the network do, every parameter set that is tested lies in the ranges
  of the program (one to four copies, delays below 100 and 300 ms, at most 500000 bytes per
  second, a known disguise, a port offset within a hundred) and every score lies between 0
  and 1000 points.
\<close>

theorem search_stays_in_range:
  assumes "sorts_by_score srt" and "\<forall>k i sz. 0 \<le> ping k i sz \<and> ping k i sz \<le> 1000"
  shows "\<exists>rs. generations srt ping 2 seed_genomes r = Some rs \<and> map length rs = [6, 8, 8]
    \<and> (\<forall>results \<in> set rs. \<forall>t \<in> set results. wf_genome (tr_Genome t) \<and> 0 \<le> tr_Score t \<and> tr_Score t \<le> 10000)"
  using generations_wf [OF assms, of seed_genomes 2 r] seed_genomes_wf by (auto simp: wf_results_def numeral_2_eq_2)

definition sort_by_score :: "TestResult list \<Rightarrow> TestResult list" where
  "sort_by_score = sort_key (\<lambda>t. - tr_Score t)"

lemma sort_by_score: "sorts_by_score sort_by_score"
proof -
  have "sorted_wrt (\<lambda>a b. tr_Score a \<ge> tr_Score b) (sort_key (\<lambda>t. - tr_Score t) xs)" for xs
    using sorted_sort_key [of "\<lambda>t. - tr_Score t" xs] by (simp add: sorted_wrt_map)
  then show ?thesis unfolding sorts_by_score_def sort_by_score_def by (intro allI conjI) simp_all
qed

theorem search_stays_in_range_witness:
  "\<exists>rs. generations sort_by_score (\<lambda>k i sz. 25) 2 seed_genomes (\<lambda>i. i) = Some rs \<and> map length rs = [6, 8, 8]"
  using search_stays_in_range [OF sort_by_score, of "\<lambda>k i sz. 25" "\<lambda>i. i"] by auto

text \<open>
  The variants of \<^verbatim>\<open>config.go\<close> stay in their ranges too, but crossing mixes the two delays of
  the parents: from two sound parents a set can come whose largest delay is below its
  smallest.
\<close>

theorem variants_stay_in_range:
  assumes "wf_Genome a" and "wf_Genome b"
  shows "wf_Genome (fst (run_state (Mutate a) r)) \<and> wf_Genome (fst (run_state (Crossover a b) r))"
  using gives_Mutate [OF assms(1)] gives_Crossover [OF assms] by (simp add: gives_def)

theorem variants_stay_in_range_witness:
  "wf_Genome (fst (run_state (Crossover DefaultGenome DefaultGenome) (\<lambda>i. i)))"
  using variants_stay_in_range [of DefaultGenome DefaultGenome "\<lambda>i. i"] by (simp add: wf_Genome_def DefaultGenome_def)

theorem crossing_mixes_delays:
  "let a = seed_genomes ! 3; b = seed_genomes ! 0; c = fst (run_state (crossover a b) (\<lambda>i. if i = 2 then 0 else 1))
   in g_MinDelayMs a \<le> g_MaxDelayMs a \<and> g_MinDelayMs b \<le> g_MaxDelayMs b \<and> g_MaxDelayMs c < g_MinDelayMs c"
  by (simp add: seed_genomes_def crossover_def coin_def Intn_def)

text \<open>
  The measurement takes the least loss over the packet sizes, and the parameter set has no
  part in it: under one network every set gets the same score.
\<close>

theorem score_ignores_parameters:
  "tr_Score (RunTest loss name g) = tr_Score (RunTest loss name' g')
   \<and> tr_LossPct (RunTest loss name g) = Min (insert 1000 (loss ` set test_sizes))"
  using best_size_min [of loss test_sizes "(1000, 1400)"]
  by (auto simp: RunTest_def Let_def split: prod.split)

text \<open>A host that does not answer scores nothing, at the size the search starts from.\<close>

lemma unreachable_scores_nothing:
  "RunTest (\<lambda>sz. fst (pingSize parse None)) name g
    = \<lparr>tr_Name = name, tr_Genome = g, tr_LossPct = 1000, tr_BestSize = 1400, tr_Score = 0\<rparr>"
  by (simp add: RunTest_def test_sizes_def pingSize_def)

text \<open>What the program prints at the end are its best results: no result is better than one of
  the five printed unless it is printed too.\<close>

lemma final_results_best:
  assumes "sorts_by_score srt" and "r \<in># mset (concat rs) - mset (final_results srt rs)" and "q \<in> set (final_results srt rs)"
  shows "tr_Score r \<le> tr_Score q"
proof -
  let ?xs = "srt (concat rs)"
  have "mset ?xs = mset (concat rs)" and sorted: "sorted_wrt (\<lambda>a b. tr_Score a \<ge> tr_Score b) (take 5 ?xs @ drop 5 ?xs)"
    using assms(1) by (simp_all add: sorts_by_score_def)
  then have "mset (concat rs) = mset (take 5 ?xs) + mset (drop 5 ?xs)" by (metis append_take_drop_id mset_append)
  then have "mset (concat rs) - mset (final_results srt rs) = mset (drop 5 ?xs)" by (simp add: final_results_def)
  with assms(2) have "r \<in> set (drop 5 ?xs)" by simp
  with sorted assms(3) show ?thesis unfolding sorted_wrt_append final_results_def by blast
qed

end
