(* ===== verification/Tls.thy ===== *)
theory Tls
  imports Conns
begin

text \<open>
  The TLS helpers of \<^verbatim>\<open>protocol/tls.go\<close> and, for builds with the tag \<^verbatim>\<open>notls\<close>, of
  \<^verbatim>\<open>protocol/tls_fallback.go\<close>: the configuration records, the ClientHello that imitates
  Chrome, and the dialler with its error paths. The handshake itself belongs to the uTLS
  library: what it answers is the environment.
\<close>

section \<open>Configurations\<close>

text \<open>Versions by their wire number.\<close>

definition VersionTLS12 :: "16 word" where "VersionTLS12 = 0x0303"
definition VersionTLS13 :: "16 word" where "VersionTLS13 = 0x0304"

record tls_Config =
  tls_ServerName :: string
  tls_InsecureSkipVerify :: bool
  tls_MinVersion :: "16 word"

definition NewTLSConfig :: "string \<Rightarrow> bool \<Rightarrow> tls_Config" where
  "NewTLSConfig serverName isClient =
     \<lparr>tls_ServerName = serverName, tls_InsecureSkipVerify = False, tls_MinVersion = VersionTLS13\<rparr>"

definition fallback_NewTLSConfig :: "string \<Rightarrow> bool \<Rightarrow> tls_Config" where
  "fallback_NewTLSConfig serverName isClient =
     \<lparr>tls_ServerName = serverName, tls_InsecureSkipVerify = False, tls_MinVersion = VersionTLS12\<rparr>"

section \<open>The ClientHello\<close>

text \<open>The extensions in use, with the source's parameters as the names of its constants.\<close>

datatype tls_extension =
    SNIExtension string
  | ExtendedMasterSecretExtension
  | RenegotiationInfoExtension string
  | SupportedCurvesExtension "string list"
  | SupportedPointsExtension "byte list"
  | SessionTicketExtension
  | ALPNExtension "string list"
  | StatusRequestExtension
  | SignatureAlgorithmsExtension "string list"
  | SCTExtension
  | KeyShareExtension "string list"
  | PSKKeyExchangeModesExtension "string list"
  | SupportedVersionsExtension "16 word list"
  | UtlsExtendedMasterSecretExtension

record ClientHelloSpec =
  ch_VersMax :: "16 word"
  ch_VersMin :: "16 word"
  ch_CipherSuites :: "string list"
  ch_CompressionMethods :: "byte list"
  ch_Extensions :: "tls_extension list"

definition chrome_suites :: "string list" where
  "chrome_suites =
     [''TLS_AES_128_GCM_SHA256'', ''TLS_AES_256_GCM_SHA384'', ''TLS_CHACHA20_POLY1305_SHA256'',
      ''TLS_ECDHE_ECDSA_WITH_AES_128_GCM_SHA256'', ''TLS_ECDHE_RSA_WITH_AES_128_GCM_SHA256'',
      ''TLS_ECDHE_ECDSA_WITH_AES_256_GCM_SHA384'', ''TLS_ECDHE_RSA_WITH_AES_256_GCM_SHA384'',
      ''TLS_ECDHE_ECDSA_WITH_CHACHA20_POLY1305'', ''TLS_ECDHE_RSA_WITH_CHACHA20_POLY1305'',
      ''TLS_ECDHE_RSA_WITH_AES_128_CBC_SHA'', ''TLS_ECDHE_RSA_WITH_AES_256_CBC_SHA'',
      ''TLS_RSA_WITH_AES_128_GCM_SHA256'', ''TLS_RSA_WITH_AES_256_GCM_SHA384'',
      ''TLS_RSA_WITH_AES_128_CBC_SHA'', ''TLS_RSA_WITH_AES_256_CBC_SHA'']"

definition chrome_extensions :: "string \<Rightarrow> tls_extension list" where
  "chrome_extensions sni =
     [SNIExtension sni,
      ExtendedMasterSecretExtension,
      RenegotiationInfoExtension ''RenegotiateOnceAsClient'',
      SupportedCurvesExtension [''X25519'', ''CurveP256'', ''CurveP384''],
      SupportedPointsExtension [0],
      SessionTicketExtension,
      ALPNExtension [''http/1.1''],
      StatusRequestExtension,
      SignatureAlgorithmsExtension
        [''ECDSAWithP256AndSHA256'', ''PSSWithSHA256'', ''PKCS1WithSHA256'', ''ECDSAWithP384AndSHA384'',
         ''PSSWithSHA384'', ''PKCS1WithSHA384'', ''PSSWithSHA512'', ''PKCS1WithSHA512''],
      SCTExtension,
      KeyShareExtension [''X25519''],
      PSKKeyExchangeModesExtension [''PskModeDHE''],
      SupportedVersionsExtension [VersionTLS13, VersionTLS12],
      UtlsExtendedMasterSecretExtension]"

definition hello_spec :: "string \<Rightarrow> ClientHelloSpec" where
  "hello_spec sni =
     \<lparr>ch_VersMax = VersionTLS13, ch_VersMin = VersionTLS12, ch_CipherSuites = chrome_suites,
      ch_CompressionMethods = [0], ch_Extensions = chrome_extensions sni\<rparr>"

section \<open>Dialling\<close>

datatype hello_id = HelloCustom | HelloChrome_Auto

text \<open>A uTLS connection over the TCP connection \<open>uc_raw\<close>.\<close>

record UConn =
  uc_raw :: nat
  uc_config :: tls_Config
  uc_hello :: hello_id

definition UClient :: "nat \<Rightarrow> string \<Rightarrow> hello_id \<Rightarrow> UConn" where
  "UClient raw sni hello =
     \<lparr>uc_raw = raw, uc_config = \<lparr>tls_ServerName = sni, tls_InsecureSkipVerify = False, tls_MinVersion = VersionTLS13\<rparr>,
      uc_hello = hello\<rparr>"

text \<open>What the network and the library answer: the TCP connection or an error, the errors of
  \<^verbatim>\<open>ApplyPreset\<close> and \<^verbatim>\<open>Handshake\<close>, the protocol the server chose.\<close>

record tls_env =
  te_dial :: "string \<Rightarrow> string + nat"
  te_preset :: "UConn \<Rightarrow> ClientHelloSpec \<Rightarrow> string option"
  te_handshake :: "UConn \<Rightarrow> string option"
  te_protocol :: "UConn \<Rightarrow> string"

text \<open>The second component: the TCP connections that were closed.\<close>

definition UTLSDial :: "tls_env \<Rightarrow> string \<Rightarrow> int \<Rightarrow> string \<Rightarrow> (string + UConn) \<times> nat list" where
  "UTLSDial e server port sni =
     (case te_dial e (JoinHostPort server (int_str port)) of
        Inl err \<Rightarrow> (Inl (''TCP dial: '' @ err), [])
      | Inr tcpConn \<Rightarrow>
          let uconn = UClient tcpConn sni HelloCustom
          in case te_preset e uconn (hello_spec sni) of
               Some err \<Rightarrow> (Inl (''uTLS custom spec: '' @ err), [tcpConn])
             | None \<Rightarrow>
                 (case te_handshake e uconn of
                    Some err \<Rightarrow> (Inl (''uTLS handshake: '' @ err), [tcpConn])
                  | None \<Rightarrow>
                      if te_protocol e uconn \<noteq> ''http/1.1''
                      then (Inl (''server negotiated '' @ te_protocol e uconn @ '', need http/1.1''), [tcpConn])
                      else (Inr uconn, [])))"

definition NewUTLSConn :: "tls_env \<Rightarrow> nat \<Rightarrow> string \<Rightarrow> (string + UConn) \<times> nat list" where
  "NewUTLSConn e raw sni =
     (let uconn = UClient raw sni HelloChrome_Auto
      in case te_handshake e uconn of
           Some err \<Rightarrow> (Inl (''uTLS handshake: '' @ err), [raw])
         | None \<Rightarrow> (Inr uconn, []))"

definition fallback_UTLSDial :: "string \<Rightarrow> int \<Rightarrow> string \<Rightarrow> string + UConn" where
  "fallback_UTLSDial server port sni = Inl ''uTLS not available: build with !notls tag''"

definition fallback_NewUTLSConn :: "nat \<Rightarrow> string \<Rightarrow> string + UConn" where
  "fallback_NewUTLSConn raw sni = Inl ''uTLS not available: build with !notls tag''"

section \<open>Facts\<close>

text \<open>The protocols and versions a ClientHello offers.\<close>

definition offered_protocols :: "ClientHelloSpec \<Rightarrow> string list" where
  "offered_protocols spec = concat (map (\<lambda>x. case x of ALPNExtension ps \<Rightarrow> ps | _ \<Rightarrow> []) (ch_Extensions spec))"

definition offered_versions :: "ClientHelloSpec \<Rightarrow> 16 word list" where
  "offered_versions spec = concat (map (\<lambda>x. case x of SupportedVersionsExtension vs \<Rightarrow> vs | _ \<Rightarrow> []) (ch_Extensions spec))"

lemma hello_offers:
  "offered_protocols (hello_spec sni) = [''http/1.1'']"
  "offered_versions (hello_spec sni) = [VersionTLS13, VersionTLS12]"
  by (simp_all add: offered_protocols_def offered_versions_def hello_spec_def chrome_extensions_def)

text \<open>
  Dialling leaves no TCP connection open but the one it returns: whatever fails after the
  TCP connection was made closes it, once, and a connection is returned exactly if TCP, the
  preset and the handshake succeed and the server chose \<^verbatim>\<open>http/1.1\<close>, the only protocol
  offered. It verifies the server's certificate for the given name.
\<close>

theorem utls_dial_outcome:
  "case te_dial e (JoinHostPort server (int_str port)) of
     Inl err \<Rightarrow> UTLSDial e server port sni = (Inl (''TCP dial: '' @ err), [])
   | Inr c \<Rightarrow>
       (let u = UClient c sni HelloCustom;
            good = (te_preset e u (hello_spec sni) = None \<and> te_handshake e u = None
                    \<and> te_protocol e u \<in> set (offered_protocols (hello_spec sni)))
        in if good then UTLSDial e server port sni = (Inr u, [])
             \<and> tls_ServerName (uc_config u) = sni \<and> \<not> tls_InsecureSkipVerify (uc_config u)
           else \<exists>err. UTLSDial e server port sni = (Inl err, [c]))"
  by (auto simp: UTLSDial_def UClient_def Let_def hello_offers split: sum.split option.split)

text \<open>
  Wrapping an existing connection closes it when the handshake fails, but checks no protocol:
  with the automatic ClientHello of Chrome the server may choose another one.
\<close>

theorem wrapping_checks_no_protocol:
  assumes "te_handshake e (UClient raw sni HelloChrome_Auto) = None"
  shows "NewUTLSConn e raw sni = (Inr (UClient raw sni HelloChrome_Auto), [])"
  using assms by (simp add: NewUTLSConn_def)

text \<open>The ClientHello offers a version below the minimum its configuration demands, and neither
  build's \<^verbatim>\<open>NewTLSConfig\<close> looks at its second argument.\<close>

theorem hello_below_minimum:
  "\<exists>v \<in> set (offered_versions (hello_spec sni)). unat v < unat (tls_MinVersion (uc_config (UClient raw sni HelloCustom)))"
  by (auto simp: hello_offers UClient_def VersionTLS12_def VersionTLS13_def)

theorem tls_config_ignores_side:
  "NewTLSConfig name True = NewTLSConfig name False \<and> fallback_NewTLSConfig name True = fallback_NewTLSConfig name False"
  by (simp add: NewTLSConfig_def fallback_NewTLSConfig_def)

end
