(* ===== verification/Bench.thy ===== *)
theory Bench
  imports System Conns Complex_Main "HOL-Library.Multiset"
begin

text \<open>
  The measuring tools: the benchmark of the transport variants (\<^verbatim>\<open>cmd/bench\<close>) and the
  echo test (\<^verbatim>\<open>cmd/echotest\<close>). The clock of the benchmark decides the number of rounds
  and the elapsed seconds, which are arguments; its figures are exact fractions instead of
  floating point numbers, its printed tables are left out.
\<close>

section \<open>The benchmark\<close>

definition bench_serverIP :: string where "bench_serverIP = ''45.134.39.18''"
definition bench_secret :: string where "bench_secret = ''ed2ee4b8aa5a7d79a1bf6c78b21356ddf5f79ab44f7e9873''"
definition bench_salt :: string where "bench_salt = ''HastaVaquetGlobal''"
definition payloadSz :: nat where "payloadSz = 1400"

record TestCfg =
  tc_Name :: string
  tc_Transport :: string
  tc_PadMax :: int
  tc_FEC :: int
  tc_DelayMs :: int
  tc_ObfuscLvl :: int

record BenchResult =
  rs_Name :: string
  rs_Transport :: string
  rs_UpMbps :: rat
  rs_PktPS :: rat
  rs_PadMax :: int
  rs_FEC :: int
  rs_ObfuscLvl :: int
  rs_Note :: string

definition variant :: "string \<Rightarrow> string \<Rightarrow> int \<Rightarrow> int \<Rightarrow> int \<Rightarrow> int \<Rightarrow> TestCfg" where
  "variant name transport pad fec obfusc delay =
     \<lparr>tc_Name = name, tc_Transport = transport, tc_PadMax = pad, tc_FEC = fec, tc_DelayMs = delay, tc_ObfuscLvl = obfusc\<rparr>"

definition bench_cfgs :: "TestCfg list" where
  "bench_cfgs =
     [variant ''UDP-baseline'' ''udp'' 0 1 0 0,
      variant ''UDP-Pad200'' ''udp'' 200 1 1 0,
      variant ''UDP-Pad512'' ''udp'' 512 1 1 0,
      variant ''UDP-FEC2'' ''udp'' 0 2 0 0,
      variant ''UDP-FEC3'' ''udp'' 0 3 0 0,
      variant ''UPD-P200-F2'' ''udp'' 200 2 2 0,
      variant ''UPD-P512-F2'' ''udp'' 512 2 2 0,
      variant ''QUIC-baseline'' ''quic'' 0 1 1 0,
      variant ''QUIC-Pad200'' ''quic'' 200 1 1 0,
      variant ''QUIC-Pad512'' ''quic'' 512 1 1 0,
      variant ''QUIC-FEC2'' ''quic'' 0 2 1 0,
      variant ''QUIC-FEC3'' ''quic'' 0 3 1 0,
      variant ''QUIC-P200-F2'' ''quic'' 200 2 2 0,
      variant ''QUIC-P512-F2'' ''quic'' 512 2 2 0,
      variant ''Q-Delay5ms'' ''quic'' 0 1 1 5,
      variant ''Q-Delay10ms'' ''quic'' 0 1 1 10,
      variant ''Q-P200-D5-F2'' ''quic'' 200 2 2 5,
      variant ''WS-baseline'' ''ws'' 0 1 0 0,
      variant ''WS-Pad200'' ''ws'' 200 1 1 0,
      variant ''WS-FEC2'' ''ws'' 0 2 0 0,
      variant ''XHTTP-baseline'' ''xhttp'' 0 1 1 0,
      variant ''XHTTP-Pad200'' ''xhttp'' 200 1 1 0,
      variant ''XHTTP-FEC2'' ''xhttp'' 0 2 1 0]"

definition bench_clamp :: "int \<Rightarrow> int \<Rightarrow> int \<Rightarrow> int" where
  "bench_clamp v lo hi = (if v < lo then lo else if v > hi then hi else v)"

definition fecMax :: "int \<Rightarrow> int" where
  "fecMax fec = bench_clamp fec 1 5"

text \<open>As in the engine, the XHTTP dialler only builds an object and cannot fail.\<close>

definition bench_dialTransport :: "net \<Rightarrow> nat \<Rightarrow> string \<Rightarrow> string + conn" where
  "bench_dialTransport net n t =
     (if t = ''quic'' then dial_net net n (DialQUICUDP bench_serverIP 4433 3 bench_secret)
      else if t = ''xhttp'' then Inr (n, DialXHTTP bench_serverIP 4435)
      else if t = ''ws'' then dial_net net n (DialWS bench_serverIP 4434)
      else dial_net net n (DialRawUDP bench_serverIP 4433))"

text \<open>\<open>wr k\<close>: the bytes the \<open>k\<close>-th write of a run reports, None when it fails. One round writes
  the copies of the packet; the rounds count bytes and packets.\<close>

fun bench_copies :: "(nat \<Rightarrow> nat option) \<Rightarrow> nat \<Rightarrow> nat \<Rightarrow> nat \<Rightarrow> nat" where
  "bench_copies wr k 0 sentBytes = sentBytes"
| "bench_copies wr k (Suc n) sentBytes =
     bench_copies wr (Suc k) n (case wr k of None \<Rightarrow> sentBytes | Some b \<Rightarrow> sentBytes + b)"

fun bench_rounds :: "(nat \<Rightarrow> nat option) \<Rightarrow> nat \<Rightarrow> nat \<Rightarrow> nat \<Rightarrow> nat \<times> nat \<Rightarrow> nat \<times> nat" where
  "bench_rounds wr fec k 0 st = st"
| "bench_rounds wr fec k (Suc r) (sentBytes, sentPkts) =
     bench_rounds wr fec (k + fec) r (bench_copies wr k fec sentBytes, sentPkts + 1)"

definition error_run :: "TestCfg \<Rightarrow> string \<Rightarrow> BenchResult" where
  "error_run cfg note =
     \<lparr>rs_Name = tc_Name cfg, rs_Transport = [], rs_UpMbps = 0, rs_PktPS = 0, rs_PadMax = 0, rs_FEC = 0, rs_ObfuscLvl = 0,
      rs_Note = note\<rparr>"

text \<open>The figures of a run: payload megabits and packets per second.\<close>

definition bench_figures :: "TestCfg \<Rightarrow> nat \<Rightarrow> rat \<Rightarrow> nat \<times> nat \<Rightarrow> BenchResult" where
  "bench_figures cfg pktLen dur sent =
     (let (sentBytes, sentPkts) = sent;
          wireMbps = of_nat (sentBytes * 8) / dur / 10 ^ 6;
          upMbps = wireMbps / of_nat pktLen * of_nat payloadSz / of_int (fecMax (tc_FEC cfg));
          pktps = of_nat sentPkts / dur
      in \<lparr>rs_Name = tc_Name cfg, rs_Transport = tc_Transport cfg, rs_UpMbps = upMbps, rs_PktPS = pktps,
          rs_PadMax = tc_PadMax cfg, rs_FEC = tc_FEC cfg, rs_ObfuscLvl = tc_ObfuscLvl cfg, rs_Note = []\<rparr>)"

text \<open>What one run meets: the random seed and padding, the network, the answers of the writes
  (which may depend on the packet), the number of rounds and the seconds they took.\<close>

record bench_env =
  be_seed :: "64 word"
  be_pad :: "nat \<Rightarrow> byte"
  be_net :: net
  be_write :: "bytes \<Rightarrow> nat \<Rightarrow> nat option"
  be_rounds :: nat
  be_dur :: rat

definition bench_packet :: "crypto \<Rightarrow> bench_env \<Rightarrow> TestCfg \<Rightarrow> CipherPack \<Rightarrow> bytes outcome" where
  "bench_packet C e cfg encCP =
     fst (Encrypt C (be_pad e) (encCP\<lparr>cp_PadMax := tc_PadMax cfg\<rparr>) qglobals_init (replicate payloadSz 0) 3 bench_salt)"

definition runSingle :: "crypto \<Rightarrow> bench_env \<Rightarrow> TestCfg \<Rightarrow> BenchResult outcome" where
  "runSingle C e cfg =
     (case NewCipherPack C (DeriveKey C bench_secret) (be_seed e) of
        Panic \<Rightarrow> Panic
      | Err _ \<Rightarrow> Ok (error_run cfg ''ERR:cp'')
      | Ok encCP \<Rightarrow>
          (case bench_dialTransport (be_net e) 0 (tc_Transport cfg) of
             Inl _ \<Rightarrow> Ok (error_run cfg ''ERR:dial'')
           | Inr _ \<Rightarrow>
               (case bench_packet C e cfg encCP of
                  Panic \<Rightarrow> Panic
                | Err _ \<Rightarrow> Ok (error_run cfg ''ERR:enc'')
                | Ok dataPkt \<Rightarrow>
                    Ok (bench_figures cfg (length dataPkt) (be_dur e)
                      (bench_rounds (be_write e dataPkt) (nat (bench_clamp (tc_FEC cfg) 1 5)) 0 (be_rounds e) (0, 0))))))"

fun run_all :: "crypto \<Rightarrow> (nat \<Rightarrow> bench_env) \<Rightarrow> TestCfg list \<Rightarrow> BenchResult list outcome" where
  "run_all C env [] = Ok []"
| "run_all C env (cfg # cfgs) =
     bindO (runSingle C (env (length cfgs)) cfg) (\<lambda>r. bindO (run_all C env cfgs) (\<lambda>rs. Ok (r # rs)))"

text \<open>The ranking: the five fastest, the three fastest obfuscated, the fastest WebSocket variant.
  \<^verbatim>\<open>all[:5]\<close> and \<^verbatim>\<open>obfusc[:3]\<close> panic on shorter lists.\<close>

definition bench_ranking ::
  "(BenchResult list \<Rightarrow> BenchResult list) \<Rightarrow> BenchResult list
     \<Rightarrow> (BenchResult list \<times> BenchResult list \<times> BenchResult option) outcome" where
  "bench_ranking srt rs =
     (let ranked = srt rs;
          obfusc = srt (filter (\<lambda>r. rs_ObfuscLvl r \<ge> 1) ranked)
      in if length ranked < 5 then Panic
         else if length obfusc < 3 then Panic
         else Ok (take 5 ranked, take 3 obfusc, find (\<lambda>r. rs_Transport r = ''ws'') ranked))"

definition bench_main ::
  "crypto \<Rightarrow> (nat \<Rightarrow> bench_env) \<Rightarrow> (BenchResult list \<Rightarrow> BenchResult list)
     \<Rightarrow> (BenchResult list \<times> BenchResult list \<times> BenchResult option) outcome" where
  "bench_main C env srt = bindO (run_all C env bench_cfgs) (bench_ranking srt)"

text \<open>\<^verbatim>\<open>sort.Slice\<close> by falling speed, the order among equals being open.\<close>

definition sorts_by_speed :: "(BenchResult list \<Rightarrow> BenchResult list) \<Rightarrow> bool" where
  "sorts_by_speed srt \<longleftrightarrow> (\<forall>xs. mset (srt xs) = mset xs \<and> sorted_wrt (\<lambda>a b. rs_UpMbps a \<ge> rs_UpMbps b) (srt xs))"

section \<open>The echo test\<close>

text \<open>What the test reports about one connection; a read gives data, times out or fails.\<close>

datatype echo_verdict =
    WriteFailed | NoEchoInTime | ReadFailed | TooShort | DecryptFailed string | EchoReceived | NotEcho bytes

datatype echo_read = EchoData bytes | EchoTimeout | EchoError

definition echoTest :: "crypto \<Rightarrow> CipherPack \<Rightarrow> bool \<Rightarrow> echo_read \<Rightarrow> echo_verdict outcome" where
  "echoTest C cp writeOK rd =
     (if \<not> writeOK then Ok WriteFailed
      else case rd of
        EchoTimeout \<Rightarrow> Ok NoEchoInTime
      | EchoError \<Rightarrow> Ok ReadFailed
      | EchoData buf \<Rightarrow>
          if length buf < 4 + 2 + 12 then Ok TooShort
          else (case snd (Decrypt C cp buf) of
                  Panic \<Rightarrow> Panic
                | Err err \<Rightarrow> Ok (DecryptFailed err)
                | Ok dec \<Rightarrow> if length dec = 1 \<and> dec ! 0 = 1 then Ok EchoReceived else Ok (NotEcho dec)))"

text \<open>The keep-alive each of the three tests sends.\<close>

definition test_keepalive :: "crypto \<Rightarrow> (nat \<Rightarrow> byte) \<Rightarrow> CipherPack \<Rightarrow> bytes outcome \<times> CipherPack" where
  "test_keepalive C padBuf cp = (let (r, cp', _) = Encrypt C padBuf cp qglobals_init [] 3 bench_salt in (r, cp'))"

text \<open>The probe without encryption sends one byte, which the server drops as garbage.\<close>

datatype udp_probe = ProbeDialFailed string | ProbeWriteFailed | ProbeTimeout | ProbeReadFailed | ProbeReceived bytes

definition testRawUDP :: "string option \<Rightarrow> bool \<Rightarrow> echo_read \<Rightarrow> udp_probe" where
  "testRawUDP dial writeOK rd =
     (case dial of
        Some err \<Rightarrow> ProbeDialFailed err
      | None \<Rightarrow>
          if \<not> writeOK then ProbeWriteFailed
          else (case rd of
                  EchoTimeout \<Rightarrow> ProbeTimeout
                | EchoError \<Rightarrow> ProbeReadFailed
                | EchoData d \<Rightarrow> ProbeReceived (take 64 d)))"

text \<open>
  One encrypted test over the connection of \<open>dialled\<close>. The errors of \<^verbatim>\<open>NewCipherPack\<close> and
  \<^verbatim>\<open>Encrypt\<close> are ignored: without a context \<^verbatim>\<open>Encrypt\<close> panics, without a packet looking at
  its first byte does. \<open>Inl\<close>: the dial failed.
\<close>

definition test_echo ::
  "crypto \<Rightarrow> (nat \<Rightarrow> byte) \<Rightarrow> 64 word \<Rightarrow> string + conn \<Rightarrow> bool \<Rightarrow> echo_read \<Rightarrow> (string + echo_verdict) outcome" where
  "test_echo C padBuf seed dialled writeOK rd =
     (case NewCipherPack C (DeriveKey C bench_secret) seed of
        Ok cp \<Rightarrow>
          (let (ka, cp') = test_keepalive C padBuf cp
           in case (ka, dialled) of
                (Panic, _) \<Rightarrow> Panic
              | (_, Inl err) \<Rightarrow> Ok (Inl err)
              | (Err _, Inr _) \<Rightarrow> Panic
              | (Ok _, Inr _) \<Rightarrow> bindO (echoTest C cp' writeOK rd) (\<lambda>verdict. Ok (Inr verdict)))
      | _ \<Rightarrow> Panic)"

text \<open>The surroundings of the four tests, by number.\<close>

record echo_env =
  ee_dialUDP :: "string option"
  ee_net :: net
  ee_pad :: "nat \<Rightarrow> nat \<Rightarrow> byte"
  ee_seed :: "nat \<Rightarrow> 64 word"
  ee_write :: "nat \<Rightarrow> bool"
  ee_read :: "nat \<Rightarrow> echo_read"

definition testEchoUDP :: "crypto \<Rightarrow> echo_env \<Rightarrow> (string + echo_verdict) outcome" where
  "testEchoUDP C e = test_echo C (ee_pad e 1) (ee_seed e 1) (dial_net (ee_net e) 1 (DialRawUDP bench_serverIP 4433)) (ee_write e 1) (ee_read e 1)"

definition testEchoQUIC :: "crypto \<Rightarrow> echo_env \<Rightarrow> (string + echo_verdict) outcome" where
  "testEchoQUIC C e = test_echo C (ee_pad e 2) (ee_seed e 2) (dial_net (ee_net e) 2 (DialQUICUDP bench_serverIP 4433 3 bench_secret)) (ee_write e 2) (ee_read e 2)"

definition testEchoWS :: "crypto \<Rightarrow> echo_env \<Rightarrow> (string + echo_verdict) outcome" where
  "testEchoWS C e = test_echo C (ee_pad e 3) (ee_seed e 3) (dial_net (ee_net e) 3 (DialWS bench_serverIP 4434)) (ee_write e 3) (ee_read e 3)"

definition echotest_main :: "crypto \<Rightarrow> echo_env \<Rightarrow> udp_probe \<times> (string + echo_verdict) list outcome" where
  "echotest_main C e =
     (testRawUDP (ee_dialUDP e) (ee_write e 0) (ee_read e 0),
      bindO (testEchoUDP C e) (\<lambda>a. bindO (testEchoQUIC C e) (\<lambda>b. bindO (testEchoWS C e) (\<lambda>c. Ok [a, b, c]))))"

section \<open>Facts\<close>

lemma fecMax_range: "1 \<le> fecMax fec \<and> fecMax fec \<le> 5"
  by (simp add: fecMax_def bench_clamp_def)

lemma fecMax_clamp_fec: "nat (fecMax fec) = clamp_fec fec"
  by (auto simp: fecMax_def bench_clamp_def clamp_fec_def Let_def)

lemma bench_copies_full: "\<forall>j. wr j = Some l \<Longrightarrow> bench_copies wr k n b = b + n * l"
  by (induction n arbitrary: k b) simp_all

lemma bench_rounds_full:
  "\<forall>j. wr j = Some l \<Longrightarrow> bench_rounds wr fec k r (b, p) = (b + r * (fec * l), p + r)"
  by (induction r arbitrary: k b p) (simp_all add: bench_copies_full)

text \<open>With any padding bound below 64000 a benchmark packet is encrypted.\<close>

lemma choose_pad_small:
  assumes "0 \<le> cp_PadMax cp" and "cp_PadMax cp < 64000"
  shows "\<exists>n < 64000. fst (choose_pad cp) = Ok n"
proof -
  define m :: "32 word" where "m = word_of_int (if cp_PadMax cp \<le> 0 then 41 else cp_PadMax cp)"
  have m: "0 < unat m" "unat m < 64000"
    using assms by (auto simp: m_def unsigned_of_int take_bit_int_eq_self)
  then have "unat (r mod m) < 64000" for r
    by (simp add: unat_mod) (meson less_trans mod_less_divisor)
  moreover have "m \<noteq> 0" using m by auto
  ultimately show ?thesis by (simp add: choose_pad_def prng_Uint32_def Let_def m_def [symmetric])
qed

lemma bench_packet_Ok:
  assumes "std_ctx cp key k" and "0 \<le> tc_PadMax cfg" and "tc_PadMax cfg < 64000"
  shows "\<exists>pkt. bench_packet go_crypto e cfg cp = Ok pkt \<and> 0 < length pkt"
proof -
  define cp0 where "cp0 = cp\<lparr>cp_PadMax := tc_PadMax cfg\<rparr>"
  define cp1 where "cp1 = cp0\<lparr>cp_nonce := cp_nonce cp0 + 1, cp_prng := prng_next (cp_prng cp0)\<rparr>"
  obtain n where n: "fst (choose_pad cp1) = Ok n" "n < 64000"
    using choose_pad_small [of cp1] assms(2,3) by (auto simp: cp1_def cp0_def)
  then obtain inner where inner: "build_inner (be_pad e) (replicate payloadSz 0) n = Ok inner"
    by (simp add: build_inner_def payloadSz_def)
  obtain pad cp2 where c: "choose_pad cp1 = (pad, cp2)" by fastforce
  have "be32 w \<noteq> []" for w by (simp flip: length_greater_0_conv)
  moreover have k: "cp_gcm cp0 = Some k" "\<not> cp_noEncrypt cp0" "cp_Mode cp0 = CipherModeStandard"
    using assms(1) by (simp_all add: cp0_def std_ctx_def)
  ultimately show ?thesis
    using n(1) c inner
    by (auto simp: bench_packet_def cp0_def [symmetric] Encrypt_def encryptStandard_def prng_Uint32_def Let_def
        cp1_def [symmetric])
qed

lemma bench_context:
  "\<exists>cp key k. NewCipherPack go_crypto (DeriveKey go_crypto s) seed = Ok cp \<and> std_ctx cp key k \<and> cp_PadMax cp \<le> 0"
  by (auto simp: NewCipherPack_def DeriveKey_def std.key32_ok std.length_sha Let_def std_ctx_def split: prod.split)

section \<open>Properties\<close>

text \<open>The runs of all variants.\<close>

lemma runSingle_cases:
  assumes "0 \<le> tc_PadMax cfg" and "tc_PadMax cfg < 64000"
  shows "\<exists>r. runSingle go_crypto e cfg = Ok r
    \<and> (rs_Note r = [] \<longleftrightarrow> (\<exists>c. bench_dialTransport (be_net e) 0 (tc_Transport cfg) = Inr c))
    \<and> (rs_Note r = [] \<longrightarrow> rs_ObfuscLvl r = tc_ObfuscLvl cfg)"
proof -
  obtain cp key k where cp: "NewCipherPack go_crypto (DeriveKey go_crypto bench_secret) (be_seed e) = Ok cp" "std_ctx cp key k"
    using bench_context by blast
  obtain pkt where "bench_packet go_crypto e cfg cp = Ok pkt" using bench_packet_Ok [OF cp(2) assms] by blast
  with cp(1) show ?thesis
    by (cases "bench_dialTransport (be_net e) 0 (tc_Transport cfg)")
      (simp_all add: runSingle_def error_run_def bench_figures_def Let_def case_prod_beta)
qed

lemma run_all_Ok:
  assumes "\<forall>cfg \<in> set cfgs. 0 \<le> tc_PadMax cfg \<and> tc_PadMax cfg < 64000"
  shows "\<exists>rs. run_all go_crypto env cfgs = Ok rs \<and> length rs = length cfgs
    \<and> length (filter (\<lambda>cfg. tc_Transport cfg = ''xhttp'' \<and> 1 \<le> tc_ObfuscLvl cfg) cfgs)
        \<le> length (filter (\<lambda>r. 1 \<le> rs_ObfuscLvl r) rs)"
  using assms
proof (induction cfgs)
  case (Cons cfg cfgs)
  then obtain rs where rs: "run_all go_crypto env cfgs = Ok rs" "length rs = length cfgs"
    "length (filter (\<lambda>cfg. tc_Transport cfg = ''xhttp'' \<and> 1 \<le> tc_ObfuscLvl cfg) cfgs)
        \<le> length (filter (\<lambda>r. 1 \<le> rs_ObfuscLvl r) rs)" by auto
  obtain r where r: "runSingle go_crypto (env (length cfgs)) cfg = Ok r"
    "rs_Note r = [] \<longleftrightarrow> (\<exists>c. bench_dialTransport (be_net (env (length cfgs))) 0 (tc_Transport cfg) = Inr c)"
    "rs_Note r = [] \<longrightarrow> rs_ObfuscLvl r = tc_ObfuscLvl cfg"
    using runSingle_cases [of cfg "env (length cfgs)"] Cons.prems by auto
  have "1 \<le> rs_ObfuscLvl r" if "tc_Transport cfg = ''xhttp'' \<and> 1 \<le> tc_ObfuscLvl cfg"
    using r(2,3) that by (simp add: bench_dialTransport_def)
  with rs r(1) show ?case by auto
qed simp

text \<open>
  The benchmark always ends with a ranking: whatever the network does, the two slices of
  the ranking do not panic, because the three XHTTP variants count as connected even without
  a server. The ranking lists five results, none slower than any left out, and three of
  the obfuscated ones, likewise.
\<close>

theorem bench_ranks:
  assumes "sorts_by_speed srt"
  shows "\<exists>rs best obf ws. run_all go_crypto env bench_cfgs = Ok rs \<and> bench_main go_crypto env srt = Ok (best, obf, ws)
    \<and> length best = 5 \<and> mset best \<subseteq># mset rs \<and> length obf = 3 \<and> (\<forall>r \<in> set obf. r \<in> set rs \<and> 1 \<le> rs_ObfuscLvl r)
    \<and> (\<forall>a \<in> set best. \<forall>b \<in># mset rs - mset best. rs_UpMbps b \<le> rs_UpMbps a)"
proof -
  have "\<forall>cfg \<in> set bench_cfgs. 0 \<le> tc_PadMax cfg \<and> tc_PadMax cfg < 64000"
    by (simp add: bench_cfgs_def variant_def)
  then obtain rs where rs: "run_all go_crypto env bench_cfgs = Ok rs" "length rs = length bench_cfgs"
    and ob: "length (filter (\<lambda>cfg. tc_Transport cfg = ''xhttp'' \<and> 1 \<le> tc_ObfuscLvl cfg) bench_cfgs)
        \<le> length (filter (\<lambda>r. 1 \<le> rs_ObfuscLvl r) rs)"
    using run_all_Ok by blast
  have n: "length rs = 23" "3 \<le> length (filter (\<lambda>r. 1 \<le> rs_ObfuscLvl r) rs)"
    using rs(2) ob by (simp_all add: bench_cfgs_def variant_def)
  have srt: "mset (srt xs) = mset xs" "sorted_wrt (\<lambda>a b. rs_UpMbps a \<ge> rs_UpMbps b) (srt xs)" for xs
    using assms by (simp_all add: sorts_by_speed_def)
  define obf where "obf = srt (filter (\<lambda>r. 1 \<le> rs_ObfuscLvl r) (srt rs))"
  have l: "length (srt xs) = length xs" "set (srt xs) = set xs" for xs
    using srt(1) [of xs] by (metis size_mset, metis set_mset_mset)
  have "mset (filter (\<lambda>r. 1 \<le> rs_ObfuscLvl r) (srt rs)) = mset (filter (\<lambda>r. 1 \<le> rs_ObfuscLvl r) rs)"
    by (simp add: srt(1))
  then have lo: "3 \<le> length obf" unfolding obf_def l(1) using n(2) by (metis size_mset)
  have "set obf = {r \<in> set rs. 1 \<le> rs_ObfuscLvl r}" by (simp add: obf_def l(2))
  then have so: "\<forall>r \<in> set (take 3 obf). r \<in> set rs \<and> 1 \<le> rs_ObfuscLvl r" by (auto dest: in_set_takeD)
  have split: "srt rs = take 5 (srt rs) @ drop 5 (srt rs)" by simp
  have m: "mset rs = mset (take 5 (srt rs)) + mset (drop 5 (srt rs))"
    using srt(1) [of rs] split by (metis mset_append)
  have "\<forall>a \<in> set (take 5 (srt rs)). \<forall>b \<in> set (drop 5 (srt rs)). rs_UpMbps b \<le> rs_UpMbps a"
    using srt(2) [of rs] sorted_wrt_append [of "\<lambda>a b. rs_UpMbps b \<le> rs_UpMbps a" "take 5 (srt rs)" "drop 5 (srt rs)"]
    by (simp only: append_take_drop_id) blast
  then have best: "\<forall>a \<in> set (take 5 (srt rs)). \<forall>b \<in># mset rs - mset (take 5 (srt rs)). rs_UpMbps b \<le> rs_UpMbps a"
    by (simp add: m)
  have "bench_main go_crypto env srt = Ok (take 5 (srt rs), take 3 obf, find (\<lambda>r. rs_Transport r = ''ws'') (srt rs))"
    using n(1) lo by (simp add: bench_main_def rs(1) bench_ranking_def Let_def obf_def [symmetric] l(1) del: take_all)
  with rs(1) so best lo n(1) show ?thesis by (auto simp: l(1) m)
qed

definition sort_by_speed :: "BenchResult list \<Rightarrow> BenchResult list" where
  "sort_by_speed = sort_key (\<lambda>r. - rs_UpMbps r)"

lemma sort_by_speed_sorts: "sorts_by_speed sort_by_speed"
proof -
  have "sorted (map (\<lambda>r. - rs_UpMbps r) (sort_by_speed xs))" for xs
    by (simp add: sort_by_speed_def)
  then show ?thesis by (simp add: sorts_by_speed_def sort_by_speed_def sorted_map)
qed

definition sample_bench :: bench_env where
  "sample_bench = \<lparr>be_seed = 1, be_pad = (\<lambda>_. 0), be_net = (\<lambda>_ _. Some ''no network''), be_write = (\<lambda>pkt _. Some (length pkt)),
     be_rounds = 100, be_dur = 15\<rparr>"

theorem bench_ranks_witness:
  "\<exists>best obf ws. bench_main go_crypto (\<lambda>_. sample_bench) sort_by_speed = Ok (best, obf, ws) \<and> length best = 5 \<and> length obf = 3"
  using bench_ranks [OF sort_by_speed_sorts, of "\<lambda>_. sample_bench"] by blast

text \<open>
  The speed the benchmark computes from the bytes on the wire is the payload rate: when
  every write takes the whole packet, it is the payload bits of all rounds by the time,
  whatever the padding made of the packet's length and however often it was duplicated.
\<close>

theorem bench_rate_is_payload_rate:
  assumes "runSingle go_crypto e cfg = Ok r" and "rs_Note r = []" and "0 \<le> tc_PadMax cfg" and "tc_PadMax cfg < 64000"
    and "\<forall>pkt k. be_write e pkt k = Some (length pkt)"
  shows "rs_UpMbps r = of_nat (be_rounds e * payloadSz * 8) / be_dur e / 10 ^ 6
    \<and> rs_PktPS r = of_nat (be_rounds e) / be_dur e"
proof -
  obtain cp key k where cp: "NewCipherPack go_crypto (DeriveKey go_crypto bench_secret) (be_seed e) = Ok cp" "std_ctx cp key k"
    using bench_context by blast
  obtain pkt where p: "bench_packet go_crypto e cfg cp = Ok pkt" "0 < length pkt"
    using bench_packet_Ok [OF cp(2) assms(3,4)] by blast
  define f where "f = nat (fecMax (tc_FEC cfg))"
  have f: "0 < f" "of_int (fecMax (tc_FEC cfg)) = (of_nat f :: rat)"
    using fecMax_range [of "tc_FEC cfg"] by (simp_all add: f_def)
  have "bench_rounds (be_write e pkt) f 0 (be_rounds e) (0, 0) = (be_rounds e * (f * length pkt), be_rounds e)"
    using assms(5) by (subst bench_rounds_full) auto
  then have "r = bench_figures cfg (length pkt) (be_dur e) (be_rounds e * (f * length pkt), be_rounds e)"
    using assms(1,2) cp(1) p(1)
    by (auto simp: runSingle_def error_run_def f_def fecMax_def split: sum.splits)
  then show ?thesis using f p(2) by (simp add: bench_figures_def field_simps)
qed

theorem bench_rate_is_payload_rate_witness:
  "\<exists>r. runSingle go_crypto sample_bench (variant ''X'' ''xhttp'' 200 2 1 0) = Ok r \<and> rs_UpMbps r = 28 / 375"
proof -
  obtain r where r: "runSingle go_crypto sample_bench (variant ''X'' ''xhttp'' 200 2 1 0) = Ok r" "rs_Note r = []"
    using runSingle_cases [of "variant ''X'' ''xhttp'' 200 2 1 0" sample_bench]
    by (auto simp: variant_def bench_dialTransport_def)
  from bench_rate_is_payload_rate [OF r] have "rs_UpMbps r = 28 / 375"
    by (simp add: variant_def sample_bench_def payloadSz_def)
  with r(1) show ?thesis by blast
qed

text \<open>A server that has a user with the given short id and keys.\<close>

definition hosts :: "server \<Rightarrow> 16 word \<Rightarrow> nat \<Rightarrow> bytes \<Rightarrow> bytes \<Rightarrow> bool" where
  "hosts s sid r key k \<longleftrightarrow>
     server_inv s \<and> map_of (s_peers s) sid = Some r \<and> \<not> p_cpLocked (s_store s r) \<and> \<not> cfg_NoEncrypt (s_cfg s)
     \<and> (\<exists>cp. p_CP (s_store s r) = Some cp \<and> std_ctx cp key k \<and> cp_PadMax cp \<le> 0)"

lemma hosts_genuine:
  assumes "hosts s sid r key k" and "std_ctx cl key k" and "fst (Encrypt go_crypto padBuf cl g pt sid (s_routingSalt s)) = Ok pkt"
  shows "genuine go_crypto s \<lparr>in_Data = pkt, in_Writer = w, in_ShortID = sid, in_IsQUIC = False\<rparr> pt r key k"
    and "replay_key \<lparr>in_Data = pkt, in_Writer = w, in_ShortID = sid, in_IsQUIC = False\<rparr> = bloomKey sid (std_nonce cl)"
  using assms std.std_packet_nonce [OF assms(2,3)]
  by (auto simp: hosts_def genuine_def replay_key_def)

text \<open>
  The benchmark measures replays: however many packets a run sends, they are one and the
  same encrypted packet, and the server that reads them hands its payload to its device once.
\<close>

theorem bench_measures_replays:
  assumes "hosts s 3 r key k" and "s_routingSalt s = bench_salt" and "std_ctx cp key k"
    and "bench_packet go_crypto e cfg cp = Ok pkt" and "bloomCheck (s_bloom s) (bloomKey 3 (std_nonce cp))"
    and "e_tunOK io (replicate payloadSz 0)"
  shows "\<exists>s' eff. main_loop_run go_crypto io
        (replicate (Suc n) \<lparr>in_Data = pkt, in_Writer = w, in_ShortID = 3, in_IsQUIC = False\<rparr>) s = (s', eff, Returned)
    \<and> tun_writes eff = [replicate payloadSz 0]"
proof -
  let ?cl = "cp\<lparr>cp_PadMax := tc_PadMax cfg\<rparr>"
  have cl: "std_ctx ?cl key k" "std_nonce ?cl = std_nonce cp" using assms(3) by (simp_all add: std_ctx_def std_nonce_def)
  have E: "fst (Encrypt go_crypto (be_pad e) ?cl qglobals_init (replicate payloadSz 0) 3 (s_routingSalt s)) = Ok pkt"
    using assms(2,4) by (simp add: bench_packet_def)
  note G = hosts_genuine [OF assms(1) cl(1) E, of w]
  show ?thesis
    using deliver_copies [OF G(1), of io n] G(2) assms(1,5,6) cl(2)
    by (auto simp: hosts_def payloadSz_def simp del: main_loop_run.simps)
qed

definition sample_host :: server where
  "sample_host = sample_server\<lparr>s_routingSalt := bench_salt\<rparr>"

lemma sample_host_hosts: "hosts sample_host 3 0 (replicate 32 9) (replicate 32 9)"
  using sample_server_inv sample_ctx
  by (simp add: hosts_def sample_host_def server_inv_def zero_Config_def sample_cp_def)

theorem bench_measures_replays_witness:
  "\<exists>pkt s' eff. bench_packet go_crypto sample_bench (variant ''X'' ''ws'' 200 2 1 0) sample_cp = Ok pkt
    \<and> main_loop_run go_crypto sample_io (replicate (Suc 9) \<lparr>in_Data = pkt, in_Writer = None, in_ShortID = 3, in_IsQUIC = False\<rparr>)
        sample_host = (s', eff, Returned) \<and> tun_writes eff = [replicate payloadSz 0]"
proof -
  obtain pkt where p: "bench_packet go_crypto sample_bench (variant ''X'' ''ws'' 200 2 1 0) sample_cp = Ok pkt"
    using bench_packet_Ok [OF sample_ctx, of "variant ''X'' ''ws'' 200 2 1 0"] by (auto simp: variant_def)
  have "s_bloom sample_host = bloom_zero" "s_routingSalt sample_host = bench_salt" "e_tunOK sample_io (replicate payloadSz 0)"
    by (simp_all add: sample_host_def sample_io_def)
  with bench_measures_replays [OF sample_host_hosts _ sample_ctx p, of sample_io 9 None] p show ?thesis
    by (simp add: bloom.fresh_empty del: main_loop_run.simps)
qed

text \<open>
  The echo test tells a live server: its keep-alive, made with the keys of a user of the
  server, is answered over the connection it came from, and the test that reads the answer
  reports the echo.
\<close>

theorem echo_test_finds_server:
  assumes "hosts s 3 r key k" and "s_routingSalt s = bench_salt" and "std_ctx c key k" and "cp_PadMax c \<le> 0"
    and "bloomCheck (s_bloom s) (bloomKey 3 (std_nonce c))"
  shows "\<exists>ka c' s' enc. test_keepalive go_crypto padBuf c = (Ok ka, c')
    \<and> processPacket go_crypto e \<lparr>in_Data = ka, in_Writer = Some w, in_ShortID = 3, in_IsQUIC = False\<rparr> s
        = (s', [WritePacket w enc (cfg_FEC (s_cfg s))], Returned)
    \<and> echoTest go_crypto c' True (EchoData enc) = Ok EchoReceived"
proof -
  obtain ka c' where E: "Encrypt go_crypto padBuf c qglobals_init [] 3 bench_salt = (Ok ka, c', qglobals_init)" "std_ctx c' key k"
    using std.std_round_trip [OF assms(3,3,4), of "[]" padBuf qglobals_init 3 bench_salt] std_ctx_step [OF assms(3)] by auto
  then have "fst (Encrypt go_crypto padBuf c qglobals_init [] 3 (s_routingSalt s)) = Ok ka" using assms(2) by simp
  note G = hosts_genuine [OF assms(1,3) this, of "Some w"]
  obtain cp where cp: "p_CP (s_store s r) = Some cp" "cp_PadMax cp \<le> 0" "\<not> p_cpLocked (s_store s r)" "server_inv s"
    using assms(1) by (auto simp: hosts_def)
  obtain s' enc where P: "processPacket go_crypto e \<lparr>in_Data = ka, in_Writer = Some w, in_ShortID = 3, in_IsQUIC = False\<rparr> s
        = (s', [WritePacket w enc (cfg_FEC (s_cfg s))], Returned)" and D: "snd (Decrypt go_crypto c' enc) = Ok [1]"
    using std.keep_alive_echoed [OF G(1) cp(3) _ _ cp(1,2) E(2) cp(4), of w e] G(2) assms(5) by auto
  have "decryptStandard go_crypto c' enc = Ok [1]" using D E(2) by (simp add: Decrypt_def std_ctx_def)
  then have "18 \<le> length enc" using std.decrypt_standard_Ok by blast
  with D have "echoTest go_crypto c' True (EchoData enc) = Ok EchoReceived" by (simp add: echoTest_def)
  with P E(1) show ?thesis by (auto simp: test_keepalive_def)
qed

theorem echo_test_finds_server_witness:
  "\<exists>ka c' s' enc. test_keepalive go_crypto (\<lambda>_. 0) sample_cp = (Ok ka, c')
    \<and> processPacket go_crypto sample_io \<lparr>in_Data = ka, in_Writer = Some (UDPWriter ''t:1''), in_ShortID = 3, in_IsQUIC = False\<rparr>
        sample_host = (s', [WritePacket (UDPWriter ''t:1'') enc (cfg_FEC (s_cfg sample_host))], Returned)
    \<and> echoTest go_crypto c' True (EchoData enc) = Ok EchoReceived"
proof -
  have "s_bloom sample_host = bloom_zero" "s_routingSalt sample_host = bench_salt" "cp_PadMax sample_cp \<le> 0"
    by (simp_all add: sample_host_def sample_cp_def)
  with echo_test_finds_server [OF sample_host_hosts _ sample_ctx, of "\<lambda>_. 0" sample_io "UDPWriter ''t:1''"] show ?thesis
    by (simp add: bloom.fresh_empty)
qed

text \<open>The echo test always runs to its end: its key is good, its keep-alive is short, and a read
  gives at most a buffer.\<close>

lemma test_echo_completes:
  assumes "\<And>d. rd = EchoData d \<Longrightarrow> length d \<le> 65535"
  shows "\<exists>x. test_echo go_crypto padBuf seed dialled writeOK rd = Ok x"
proof -
  obtain cp key k where cp: "NewCipherPack go_crypto (DeriveKey go_crypto bench_secret) seed = Ok cp" "std_ctx cp key k" "cp_PadMax cp \<le> 0"
    using bench_context by blast
  obtain ka c' where ka: "Encrypt go_crypto padBuf cp qglobals_init [] 3 bench_salt = (Ok ka, c', qglobals_init)" "std_ctx c' key k"
    using std.std_round_trip [OF cp(2,2,3), of "[]" padBuf qglobals_init 3 bench_salt] std_ctx_step [OF cp(2)] by auto
  have "snd (Decrypt go_crypto c' d) \<noteq> Panic" if "rd = EchoData d" for d
    by (rule std.decrypt_no_panic) (use ka(2) assms [OF that] in \<open>simp_all add: std_ctx_def\<close>)
  then have "echoTest go_crypto c' writeOK rd \<noteq> Panic" "\<And>err. echoTest go_crypto c' writeOK rd \<noteq> Err err"
    by (auto simp: echoTest_def split: outcome.splits echo_read.splits)
  then obtain x where "echoTest go_crypto c' writeOK rd = Ok x"
    by (cases "echoTest go_crypto c' writeOK rd") auto
  with cp(1) ka(1) show ?thesis
    by (cases dialled) (auto simp: test_echo_def test_keepalive_def)
qed

lemma echotest_completes:
  assumes "\<And>i d. ee_read e i = EchoData d \<Longrightarrow> length d \<le> 65535"
  shows "\<exists>rs. snd (echotest_main go_crypto e) = Ok rs \<and> length rs = 3"
proof -
  obtain a b c where "testEchoUDP go_crypto e = Ok a" "testEchoQUIC go_crypto e = Ok b" "testEchoWS go_crypto e = Ok c"
    unfolding testEchoUDP_def testEchoQUIC_def testEchoWS_def using test_echo_completes assms by metis
  then show ?thesis by (simp add: echotest_main_def)
qed

end
