(* ===== verification/Races.thy ===== *)
theory Races
  imports System
begin

text \<open>
  The server's goroutines, interleaved. The theories before this one run a handler as one
  step; here each is cut where another goroutine can come in between: a step is one critical
  section (of \<^verbatim>\<open>peersMu\<close>, \<^verbatim>\<open>bloomMu\<close>, \<^verbatim>\<open>udpMu\<close>), one operation on \<^verbatim>\<open>cpMu\<close>, or one
  action between. While a goroutine holds \<^verbatim>\<open>cpMu\<close> of a peer, \<open>p_cpLocked\<close> is set, and
  another that wants it waits. Run without interruption the steps make up exactly the handlers
  of \<open>Handlers\<close> and \<open>Downlink\<close>.
\<close>

section \<open>Goroutines as state machines\<close>

text \<open>
  Where a goroutine stands and what it holds in its variables: \<open>X\<close> the XHTTP handler with one
  packet, \<open>P\<close> the main loop with one packet, \<open>T\<close> the device reader with one packet, and the
  ticks of the filter. \<open>Done\<close> carries the response of an XHTTP handler, \<open>Died r\<close> is a panic
  with the lock of peer \<open>r\<close> held.
\<close>

datatype task =
    XLookup bytes
  | XCheck bytes nat bytes
  | XMark bytes nat bytes
  | XLock bytes nat
  | XDecrypt bytes nat
  | XEchoLock nat
  | XEcho nat
  | XWrite nat bytes
  | PLookup IncomingPacket
  | PNoPeer
  | PWriter IncomingPacket nat
  | PLock IncomingPacket nat
  | PCheck IncomingPacket nat
  | PReplay
  | PDecrypt IncomingPacket nat "bytes option"
  | PFailed string
  | PMark bool nat "bytes option" bytes
  | PEchoLock bool nat
  | PEcho bool nat
  | PReply nat bytes
  | PWrite nat bytes
  | TLookup bytes
  | TWriter bytes nat
  | TLock bytes nat PacketWriter
  | TEncrypt bytes nat PacketWriter
  | TSend nat nat PacketWriter bytes
  | Tick bloom_ticker
  | Done bytes
  | Died nat

definition unlock_peer :: "nat \<Rightarrow> server \<Rightarrow> server" where
  "unlock_peer r s = upd_peer r (\<lambda>p. p\<lparr>p_cpLocked := False\<rparr>) s"

text \<open>\<^verbatim>\<open>cpMu.Lock\<close>: not possible while the lock is held.\<close>

definition take_lock :: "nat \<Rightarrow> task \<Rightarrow> server \<Rightarrow> (task \<times> server \<times> effect list) option" where
  "take_lock r t s = (if p_cpLocked (s_store s r) then None else Some (t, lock_peer r s, []))"

fun xhttp_step :: "crypto \<Rightarrow> env \<Rightarrow> task \<Rightarrow> server \<Rightarrow> (task \<times> server \<times> effect list) option" where
  "xhttp_step C e (XLookup pkt) s =
     (if length pkt < 4 + 2 + 12 then Some (Done [], s, [])
      else let shortID = packet_shortID (s_routingSalt s) pkt
      in case map_of (s_peers s) shortID of
           None \<Rightarrow> Some (Done [], s, [])
         | Some r \<Rightarrow>
             Some (if cfg_NoEncrypt (s_cfg s) then XLock pkt r else XCheck pkt r (bloomKey shortID (slice_of pkt 6 18)), s, []))"
| "xhttp_step C e (XCheck pkt r bkey) s =
     Some (if \<not> bloomCheck (s_bloom s) bkey then Done [] else XMark pkt r bkey, s, [])"
| "xhttp_step C e (XMark pkt r bkey) s =
     Some (XLock pkt r, s\<lparr>s_bloom := bloomSet (s_bloom s) bkey, s_bloomCount := s_bloomCount s + 1\<rparr>, [])"
| "xhttp_step C e (XLock pkt r) s = take_lock r (XDecrypt pkt r) s"
| "xhttp_step C e (XDecrypt pkt r) s =
     (case peer_decrypt C False (s_store s r) pkt of
        Panic \<Rightarrow> Some (Died r, s, [])
      | Err msg \<Rightarrow> Some (Done [], unlock_peer r s, [])
      | Ok decrypted \<Rightarrow> Some (if decrypted = [] then XEchoLock r else XWrite r decrypted, unlock_peer r s, []))"
| "xhttp_step C e (XEchoLock r) s = take_lock r (XEcho r) s"
| "xhttp_step C e (XEcho r) s =
     (case peer_encrypt C e False r [1] s of
        (Panic, s') \<Rightarrow> Some (Died r, s', [])
      | (Err m, s') \<Rightarrow> Some (Done [], unlock_peer r s', [])
      | (Ok enc, s') \<Rightarrow> Some (Done enc, unlock_peer r s', []))"
| "xhttp_step C e (XWrite r decrypted) s =
     Some (Done [], upd_peer r (count_in (length decrypted)) s, if e_tunOK e decrypted then [TunWrite decrypted] else [])"
| "xhttp_step C e _ s = None"

fun main_step :: "crypto \<Rightarrow> env \<Rightarrow> task \<Rightarrow> server \<Rightarrow> (task \<times> server \<times> effect list) option" where
  "main_step C e (PLookup pkt) s =
     Some (case map_of (s_peers s) (in_ShortID pkt) of None \<Rightarrow> PNoPeer | Some r \<Rightarrow> PWriter pkt r, s, [])"
| "main_step C e PNoPeer s = (let (s', eff) = drop_noPeer e s in Some (Done [], s', eff))"
| "main_step C e (PWriter pkt r) s = Some (PLock pkt r, upd_peer r (set_writer (in_Writer pkt)) s, [])"
| "main_step C e (PLock pkt r) s = take_lock r (PCheck pkt r) s"
| "main_step C e (PCheck pkt r) s =
     (let packet = in_Data pkt;
          bkey = (if \<not> in_IsQUIC pkt \<and> 4 + 2 + 12 \<le> length packet \<and> \<not> cfg_NoEncrypt (s_cfg s)
                  then Some (bloomKey (in_ShortID pkt) (slice_of packet 6 18)) else None)
      in if (case bkey of None \<Rightarrow> False | Some k \<Rightarrow> \<not> bloomCheck (s_bloom s) k)
         then Some (PReplay, unlock_peer r s, []) else Some (PDecrypt pkt r bkey, s, []))"
| "main_step C e PReplay s = (let (s', eff) = drop_replay e s in Some (Done [], s', eff))"
| "main_step C e (PDecrypt pkt r bkey) s =
     (case peer_decrypt C (in_IsQUIC pkt) (s_store s r) (in_Data pkt) of
        Panic \<Rightarrow> Some (Died r, upd_peer r (\<lambda>p. p\<lparr>p_CP := map_option (with_mode (in_IsQUIC pkt)) (p_CP p)\<rparr>) s, [])
      | Err msg \<Rightarrow> Some (PFailed msg, unlock_peer r s, [])
      | Ok decrypted \<Rightarrow> Some (PMark (in_IsQUIC pkt) r bkey decrypted, s, []))"
| "main_step C e (PFailed msg) s = (let (s', eff) = drop_failed e msg s in Some (Done [], s', eff))"
| "main_step C e (PMark isQUIC r mark decrypted) s =
     (let s1 = (case mark of
                  None \<Rightarrow> s
                | Some k \<Rightarrow> s\<lparr>s_bloom := bloomSet (s_bloom s) k, s_bloomCount := s_bloomCount s + 1\<rparr>)
      in Some (if decrypted = [] then PEchoLock isQUIC r else PWrite r decrypted,
           unlock_peer r (upd_peer r (\<lambda>p. p\<lparr>p_LastSeen := e_unix e\<rparr>) s1), []))"
| "main_step C e (PEchoLock isQUIC r) s = take_lock r (PEcho isQUIC r) s"
| "main_step C e (PEcho isQUIC r) s =
     (case peer_encrypt C e isQUIC r [1] s of
        (Panic, s') \<Rightarrow> Some (Died r, s', [])
      | (Err m, s') \<Rightarrow> Some (Done [], unlock_peer r s', [])
      | (Ok enc, s') \<Rightarrow> Some (PReply r enc, unlock_peer r s', []))"
| "main_step C e (PReply r enc) s =
     Some (Done [], s, case p_Writer (s_store s r) of None \<Rightarrow> [] | Some w \<Rightarrow> [WritePacket w enc (cfg_FEC (s_cfg s))])"
| "main_step C e (PWrite r decrypted) s =
     (if \<not> e_tunOK e decrypted then Some (Done [], s, [])
      else Some (Done [], upd_peer r (count_in (length decrypted)) s, [TunWrite decrypted]))"
| "main_step C e _ s = None"

fun tun_step :: "crypto \<Rightarrow> env \<Rightarrow> task \<Rightarrow> server \<Rightarrow> (task \<times> server \<times> effect list) option" where
  "tun_step C e (TLookup packet) s =
     (if length packet < 20 \<or> drop_bit 4 (packet ! 0) \<noteq> 4 then Some (Done [], s, [])
      else let dstIP = ipv4_string (slice_of packet 16 20)
      in if dstIP = ''10.0.0.2'' then Some (Done [], s, [])
         else Some (case map_of (s_ipToPeer s) dstIP of None \<Rightarrow> Done [] | Some r \<Rightarrow> TWriter packet r, s, []))"
| "tun_step C e (TWriter packet r) s =
     Some (case p_Writer (s_store s r) of None \<Rightarrow> Done [] | Some writer \<Rightarrow> TLock packet r writer, s, [])"
| "tun_step C e (TLock packet r writer) s = take_lock r (TEncrypt packet r writer) s"
| "tun_step C e (TEncrypt packet r writer) s =
     (case peer_encrypt C e False r packet s of
        (Panic, s') \<Rightarrow> Some (Died r, s', [])
      | (Err m, s') \<Rightarrow> Some (Done [], unlock_peer r s', [])
      | (Ok enc, s') \<Rightarrow> Some (TSend r (length packet) writer enc, unlock_peer r s', []))"
| "tun_step C e (TSend r n writer enc) s =
     (let fec = clamp_fec (cfg_FEC (s_cfg s))
      in Some (Done [], upd_peer r (count_out n fec) s, [WritePacket writer enc (int fec)]))"
| "tun_step C e (Tick t) s = Some (Done [], bloom_tick t s, [])"
| "tun_step C e _ s = None"

text \<open>A step of any goroutine; None when it waits for a lock or has ended.\<close>

definition task_step :: "crypto \<Rightarrow> env \<Rightarrow> task \<Rightarrow> server \<Rightarrow> (task \<times> server \<times> effect list) option" where
  "task_step C e t s =
     (case xhttp_step C e t s of
        Some x \<Rightarrow> Some x
      | None \<Rightarrow> (case main_step C e t s of Some x \<Rightarrow> Some x | None \<Rightarrow> tun_step C e t s))"

text \<open>One goroutine without interruption, at most \<open>n\<close> steps.\<close>

fun solo :: "crypto \<Rightarrow> env \<Rightarrow> nat \<Rightarrow> task \<Rightarrow> server \<Rightarrow> task \<times> server \<times> effect list" where
  "solo C e 0 t s = (t, s, [])"
| "solo C e (Suc n) t s =
     (case task_step C e t s of
        None \<Rightarrow> (t, s, [])
      | Some (t', s', eff) \<Rightarrow> (let (t'', s'', eff') = solo C e n t' s' in (t'', s'', eff @ eff')))"

text \<open>A schedule: who steps next, and in which surroundings. None when the chosen goroutine cannot
  step. The effects carry the number of the goroutine.\<close>

fun run_sched ::
  "crypto \<Rightarrow> (env \<times> nat) list \<Rightarrow> server \<times> task list
     \<Rightarrow> ((server \<times> task list) \<times> (nat \<times> effect) list) option" where
  "run_sched C [] st = Some (st, [])"
| "run_sched C ((e, i) # sch) (s, ts) =
     (if i < length ts
      then (case task_step C e (ts ! i) s of
              None \<Rightarrow> None
            | Some (t', s', eff) \<Rightarrow>
                map_option (\<lambda>(st, effs). (st, map (Pair i) eff @ effs)) (run_sched C sch (s', ts[i := t'])))
      else None)"

section \<open>Locks\<close>

text \<open>The peer whose lock a goroutine holds.\<close>

fun holds :: "task \<Rightarrow> nat option" where
  "holds (XDecrypt _ r) = Some r"
| "holds (XEcho r) = Some r"
| "holds (PCheck _ r) = Some r"
| "holds (PDecrypt _ r _) = Some r"
| "holds (PMark _ r _ _) = Some r"
| "holds (PEcho _ r) = Some r"
| "holds (TEncrypt _ r _) = Some r"
| "holds (Died r) = Some r"
| "holds _ = None"

definition locked :: "server \<Rightarrow> nat \<Rightarrow> bool" where
  "locked s r \<longleftrightarrow> p_cpLocked (s_store s r)"

lemma locked_simps [simp]:
  "locked (lock_peer r s) q \<longleftrightarrow> q = r \<or> locked s q"
  "locked (unlock_peer r s) q \<longleftrightarrow> q \<noteq> r \<and> locked s q"
  "locked (upd_peer r (set_writer w) s) q = locked s q"
  "locked (upd_peer r (count_in n) s) q = locked s q"
  "locked (upd_peer r (count_out n m) s) q = locked s q"
  "locked (upd_peer r (\<lambda>p. p\<lparr>p_LastSeen := x\<rparr>) s) q = locked s q"
  "locked (upd_peer r (\<lambda>p. p\<lparr>p_CP := f p\<rparr>) s) q = locked s q"
  "locked (s\<lparr>s_bloom := b, s_bloomCount := c\<rparr>) q = locked s q"
  "locked (s\<lparr>s_quic := g\<rparr>) q = locked s q"
  "locked (bloom_tick t s) q = locked s q"
  by (simp_all add: locked_def lock_peer_def unlock_peer_def count_in_def count_out_def bloom_tick_def Let_def)

lemma locked_drops [simp]:
  "drop_noPeer e s = (s', eff) \<Longrightarrow> locked s' q = locked s q" "drop_replay e s = (s', eff) \<Longrightarrow> locked s' q = locked s q"
  "drop_failed e m s = (s', eff) \<Longrightarrow> locked s' q = locked s q"
  by (auto simp: drop_noPeer_def drop_replay_def drop_failed_def locked_def logDrops_def Let_def split: if_splits)

lemma locked_peer_encrypt [simp]: "peer_encrypt C e b r d s = (res, s') \<Longrightarrow> locked s' q = locked s q"
  by (auto simp: peer_encrypt_def split: option.splits prod.splits)

text \<open>What a step does to the locks: it takes one that is free, or gives back the one it holds.\<close>

lemma take_lock_Some:
  "take_lock r t s = Some (t', s', eff) \<longleftrightarrow> \<not> locked s r \<and> t' = t \<and> s' = lock_peer r s \<and> eff = []"
  by (auto simp: take_lock_def locked_def)

lemma step_locks:
  assumes "task_step C e t s = Some (t', s', eff)" and "\<And>q. holds t = Some q \<Longrightarrow> locked s q"
  shows "locked s' q \<longleftrightarrow> holds t' = Some q \<or> locked s q \<and> holds t \<noteq> Some q"
    and "holds t' = Some q \<Longrightarrow> holds t = Some q \<or> \<not> locked s q"
  using assms
  by (cases t; force simp: task_step_def take_lock_Some Let_def split: if_splits option.splits outcome.splits prod.splits)+

lemma task_step_simps [simp]:
  "task_step C e (XLookup p) s = xhttp_step C e (XLookup p) s" "task_step C e (XCheck p r k) s = xhttp_step C e (XCheck p r k) s"
  "task_step C e (XMark p r k) s = xhttp_step C e (XMark p r k) s" "task_step C e (XLock p r) s = xhttp_step C e (XLock p r) s"
  "task_step C e (XDecrypt p r) s = xhttp_step C e (XDecrypt p r) s" "task_step C e (XEchoLock r) s = xhttp_step C e (XEchoLock r) s"
  "task_step C e (XEcho r) s = xhttp_step C e (XEcho r) s" "task_step C e (XWrite r d) s = xhttp_step C e (XWrite r d) s"
  "task_step C e (PLookup i) s = main_step C e (PLookup i) s" "task_step C e PNoPeer s = main_step C e PNoPeer s"
  "task_step C e (PWriter i r) s = main_step C e (PWriter i r) s" "task_step C e (PLock i r) s = main_step C e (PLock i r) s"
  "task_step C e (PCheck i r) s = main_step C e (PCheck i r) s" "task_step C e PReplay s = main_step C e PReplay s"
  "task_step C e (PDecrypt i r m) s = main_step C e (PDecrypt i r m) s" "task_step C e (PFailed x) s = main_step C e (PFailed x) s"
  "task_step C e (PMark b r m d) s = main_step C e (PMark b r m d) s" "task_step C e (PEchoLock b r) s = main_step C e (PEchoLock b r) s"
  "task_step C e (PEcho b r) s = main_step C e (PEcho b r) s" "task_step C e (PReply r d) s = main_step C e (PReply r d) s"
  "task_step C e (PWrite r d) s = main_step C e (PWrite r d) s"
  "task_step C e (TLookup p) s = tun_step C e (TLookup p) s" "task_step C e (TWriter p r) s = tun_step C e (TWriter p r) s"
  "task_step C e (TLock p r w) s = tun_step C e (TLock p r w) s" "task_step C e (TEncrypt p r w) s = tun_step C e (TEncrypt p r w) s"
  "task_step C e (TSend r n w d) s = tun_step C e (TSend r n w d) s" "task_step C e (Tick t) s = tun_step C e (Tick t) s"
  "task_step C e (Done resp) s = None" "task_step C e (Died r) s = None"
  by (simp_all add: task_step_def split: option.split)

section \<open>Without interruption: the handlers\<close>

text \<open>Taking and giving back a lock that was free changes nothing in between.\<close>

lemma unlock_lock [simp]: "\<not> locked s r \<Longrightarrow> unlock_peer r (lock_peer r s) = s"
  by (simp add: unlock_peer_def lock_peer_def upd_peer_def locked_def fun_upd_idem)

lemma lock_peer_select [simp]:
  "s_peers (lock_peer r s) = s_peers s" "s_ipToPeer (lock_peer r s) = s_ipToPeer s" "s_bloom (lock_peer r s) = s_bloom s"
  "s_bloomCount (lock_peer r s) = s_bloomCount s" "s_cfg (lock_peer r s) = s_cfg s" "s_routingSalt (lock_peer r s) = s_routingSalt s"
  "s_nextRef (lock_peer r s) = s_nextRef s" "s_quic (lock_peer r s) = s_quic s"
  "s_store (lock_peer r s) q = (if q = r then (s_store s r)\<lparr>p_cpLocked := True\<rparr> else s_store s q)"
  by (simp_all add: lock_peer_def)

lemma unlock_peer_select [simp]:
  "s_peers (unlock_peer r s) = s_peers s" "s_ipToPeer (unlock_peer r s) = s_ipToPeer s" "s_bloom (unlock_peer r s) = s_bloom s"
  "s_bloomCount (unlock_peer r s) = s_bloomCount s" "s_cfg (unlock_peer r s) = s_cfg s"
  "s_routingSalt (unlock_peer r s) = s_routingSalt s" "s_nextRef (unlock_peer r s) = s_nextRef s" "s_quic (unlock_peer r s) = s_quic s"
  "s_store (unlock_peer r s) q = (if q = r then (s_store s r)\<lparr>p_cpLocked := False\<rparr> else s_store s q)"
  by (simp_all add: unlock_peer_def)

lemma peer_decrypt_lock [simp]: "peer_decrypt C q (p\<lparr>p_cpLocked := b\<rparr>) d = peer_decrypt C q p d"
  by (simp add: peer_decrypt_def)

lemma peer_encrypt_lock:
  "peer_encrypt C e q r d (lock_peer r s) = (let (res, s') = peer_encrypt C e q r d s in (res, lock_peer r s'))"
proof -
  have "(upd_peer r f (lock_peer r s))\<lparr>s_quic := g\<rparr> = lock_peer r ((upd_peer r f s)\<lparr>s_quic := g\<rparr>)"
    if "\<And>p. f (p\<lparr>p_cpLocked := True\<rparr>) = (f p)\<lparr>p_cpLocked := True\<rparr>" for f g
    by (simp add: lock_peer_def upd_peer_def that)
  then show ?thesis
    by (simp add: peer_encrypt_def case_prod_beta split: option.split)
qed

text \<open>
  How an uninterrupted goroutine ends, against the ending of the handler that runs as one
  step: done, dead, or waiting for a lock.
\<close>

definition ends_like :: "crypto \<Rightarrow> env \<Rightarrow> task \<Rightarrow> server \<Rightarrow> bytes \<Rightarrow> ending \<Rightarrow> bool" where
  "ends_like C e t s resp en \<longleftrightarrow>
     (case en of
        Returned \<Rightarrow> t = Done resp
      | Panicked \<Rightarrow> \<exists>r. t = Died r
      | Blocked \<Rightarrow> task_step C e t s = None \<and> holds t = None \<and> (\<forall>x. t \<noteq> Done x))"

lemma solo_step:
  "task_step C e t s = Some (t1, s1, []) \<Longrightarrow> m = Suc n \<Longrightarrow> solo C e m t s = solo C e n t1 s1"
  by simp

lemma solo_deliver:
  assumes "xhttp_deliver C e r pkt s = (s', eff, resp, en)"
  shows "\<exists>t. solo C e (5 + n) (XLock pkt r) s = (t, s', eff) \<and> ends_like C e t s' resp en"
proof (cases "locked s r")
  case True
  with assms show ?thesis
    by (auto simp: xhttp_deliver_def ends_like_def take_lock_def locked_def numeral_eq_Suc)
next
  case False
  show ?thesis
  proof (cases "peer_decrypt C False (s_store s r) pkt")
    case (Ok d)
    show ?thesis
    proof (cases "d = []")
      case True
      obtain res s1 where E: "peer_encrypt C e False r [1] s = (res, s1)" by fastforce
      then have "\<not> locked s1 r" using False by simp
      with E True Ok False assms show ?thesis
        by (cases res) (auto simp: xhttp_deliver_def ends_like_def take_lock_def locked_def numeral_eq_Suc peer_encrypt_lock
            split: nat.split)
    next
      case d: False
      with Ok False assms show ?thesis
        by (auto simp: xhttp_deliver_def ends_like_def take_lock_def locked_def numeral_eq_Suc split: nat.split)
    qed
  qed (use False assms in \<open>auto simp: xhttp_deliver_def ends_like_def take_lock_def locked_def numeral_eq_Suc\<close>)
qed

lemma solo_xhttp:
  assumes "xhttpProcessPacket C e pkt s = (s', eff, resp, en)"
  shows "\<exists>t. solo C e 10 (XLookup pkt) s = (t, s', eff) \<and> ends_like C e t s' resp en"
proof (cases "length pkt < 4 + 2 + 12")
  case True
  with assms show ?thesis by (auto simp: xhttpProcessPacket_def ends_like_def numeral_eq_Suc)
next
  case long: False
  define sid where "sid = packet_shortID (s_routingSalt s) pkt"
  define k where "k = bloomKey sid (slice_of pkt 6 18)"
  show ?thesis
  proof (cases "map_of (s_peers s) sid")
    case None
    with long assms show ?thesis by (auto simp: xhttpProcessPacket_def ends_like_def numeral_eq_Suc sid_def)
  next
    case r: (Some r)
    consider "cfg_NoEncrypt (s_cfg s)" | "\<not> cfg_NoEncrypt (s_cfg s)" "\<not> bloomCheck (s_bloom s) k"
      | "\<not> cfg_NoEncrypt (s_cfg s)" "bloomCheck (s_bloom s) k" by blast
    then show ?thesis
    proof cases
      case 1
      with assms r long have "xhttp_deliver C e r pkt s = (s', eff, resp, en)"
        by (simp add: xhttpProcessPacket_def sid_def Let_def del: map_of_eq_Some_iff)
      moreover have "solo C e 10 (XLookup pkt) s = solo C e 9 (XLock pkt r) s"
        using 1 r long by (intro solo_step) (simp_all add: sid_def Let_def del: map_of_eq_Some_iff)
      ultimately show ?thesis using solo_deliver [of C e r pkt s s' eff resp en 4] by simp
    next
      case 2
      with assms r long show ?thesis
        by (auto simp: xhttpProcessPacket_def sid_def k_def Let_def ends_like_def numeral_eq_Suc simp del: map_of_eq_Some_iff)
    next
      case 3
      let ?s = "s\<lparr>s_bloom := bloomSet (s_bloom s) k, s_bloomCount := s_bloomCount s + 1\<rparr>"
      from 3 assms r long have "xhttp_deliver C e r pkt ?s = (s', eff, resp, en)"
        by (simp add: xhttpProcessPacket_def sid_def k_def Let_def del: map_of_eq_Some_iff)
      moreover have "solo C e 10 (XLookup pkt) s = solo C e 9 (XCheck pkt r k) s"
        using 3 r long by (intro solo_step) (simp_all add: sid_def k_def Let_def del: map_of_eq_Some_iff)
      moreover have "\<dots> = solo C e 8 (XMark pkt r k) s" using 3 by (intro solo_step) simp_all
      moreover have "\<dots> = solo C e 7 (XLock pkt r) ?s" by (intro solo_step) simp_all
      ultimately show ?thesis using solo_deliver [of C e r pkt ?s s' eff resp en 2] by simp
    qed
  qed
qed

lemma solo_accept:
  assumes "accept_packet C e q r mark d s = (s', eff, en)" and "\<not> locked s r"
  shows "\<exists>t. solo C e (5 + n) (PMark q r mark d) (lock_peer r s) = (t, s', eff) \<and> ends_like C e t s' [] en"
proof -
  define s1 where "s1 = (case mark of None \<Rightarrow> s
    | Some k \<Rightarrow> s\<lparr>s_bloom := bloomSet (s_bloom s) k, s_bloomCount := s_bloomCount s + 1\<rparr>)"
  define s2 where "s2 = upd_peer r (\<lambda>p. p\<lparr>p_LastSeen := e_unix e\<rparr>) s1"
  have free: "\<not> locked s2 r" using assms(2) by (simp add: s2_def s1_def split: option.split)
  have "(case mark of None \<Rightarrow> lock_peer r s
    | Some k \<Rightarrow> (lock_peer r s)\<lparr>s_bloom := bloomSet (s_bloom (lock_peer r s)) k, s_bloomCount := s_bloomCount (lock_peer r s) + 1\<rparr>)
      = lock_peer r s1"
    by (simp add: s1_def lock_peer_def upd_peer_def split: option.split)
  moreover have "upd_peer r (\<lambda>p. p\<lparr>p_LastSeen := e_unix e\<rparr>) (lock_peer r s1) = lock_peer r s2"
    by (cases "s_store s1 r") (simp add: s2_def lock_peer_def upd_peer_def)
  ultimately have M: "task_step C e (PMark q r mark d) (lock_peer r s) = Some (if d = [] then PEchoLock q r else PWrite r d, s2, [])"
    using free by (simp add: Let_def)
  have A: "(if d = [] then keep_alive_echo C e q r s2 else if \<not> e_tunOK e d then (s2, [], Returned)
      else (upd_peer r (count_in (length d)) s2, [TunWrite d], Returned)) = (s', eff, en)"
    using assms(1) unfolding accept_packet_def Let_def s2_def s1_def .
  show ?thesis
  proof (cases "d = []")
    case True
    obtain res s3 where E: "peer_encrypt C e q r [1] s2 = (res, s3)" by fastforce
    then have "\<not> locked s3 r" using free by simp
    moreover have "keep_alive_echo C e q r s2 = (s', eff, en)"
      using A True by simp
    ultimately show ?thesis using E M True free
      by (cases res) (auto simp: keep_alive_echo_def ends_like_def take_lock_def locked_def numeral_eq_Suc peer_encrypt_lock
          split: nat.split)
  next
    case False
    with A M show ?thesis
      by (cases "e_tunOK e d") (auto simp: ends_like_def numeral_eq_Suc split: nat.split)
  qed
qed

lemma solo_main:
  assumes "processPacket C e pkt s = (s', eff, en)"
  shows "\<exists>t. solo C e 10 (PLookup pkt) s = (t, s', eff) \<and> ends_like C e t s' [] en"
proof (cases "map_of (s_peers s) (in_ShortID pkt)")
  case None
  with assms show ?thesis by (auto simp: processPacket_def ends_like_def numeral_eq_Suc split: prod.splits)
next
  case r: (Some r)
  define s1 where "s1 = upd_peer r (set_writer (in_Writer pkt)) s"
  define bkey where "bkey = (if \<not> in_IsQUIC pkt \<and> 4 + 2 + 12 \<le> length (in_Data pkt) \<and> \<not> cfg_NoEncrypt (s_cfg s)
    then Some (bloomKey (in_ShortID pkt) (slice_of (in_Data pkt) 6 18)) else None)"
  have cfg: "s_cfg s1 = s_cfg s" by (simp add: s1_def)
  have A: "solo C e 10 (PLookup pkt) s = solo C e 9 (PWriter pkt r) s" "solo C e 9 (PWriter pkt r) s = solo C e 8 (PLock pkt r) s1"
    using r by (intro solo_step; simp add: s1_def del: map_of_eq_Some_iff)+
  have P: "processPacket C e pkt s = (if locked s1 r then (s1, [], Blocked)
      else if (case bkey of None \<Rightarrow> False | Some k \<Rightarrow> \<not> bloomCheck (s_bloom s1) k)
      then let (s', eff) = drop_replay e s1 in (s', eff, Returned)
      else (case peer_decrypt C (in_IsQUIC pkt) (s_store s1 r) (in_Data pkt) of
              Panic \<Rightarrow> (lock_peer r (upd_peer r (\<lambda>p. p\<lparr>p_CP := map_option (with_mode (in_IsQUIC pkt)) (p_CP p)\<rparr>) s1), [], Panicked)
            | Err msg \<Rightarrow> let (s', eff) = drop_failed e msg s1 in (s', eff, Returned)
            | Ok decrypted \<Rightarrow> accept_packet C e (in_IsQUIC pkt) r bkey decrypted s1))"
    unfolding processPacket_def r option.case Let_def s1_def bkey_def locked_def by (rule refl)
  show ?thesis
  proof (cases "locked s1 r")
    case True
    with assms P show ?thesis unfolding A
      by (auto simp: ends_like_def take_lock_def locked_def numeral_eq_Suc)
  next
    case free: False
    have B: "solo C e 8 (PLock pkt r) s1 = solo C e 7 (PCheck pkt r) (lock_peer r s1)"
      using free by (intro solo_step) (simp_all add: take_lock_def locked_def)
    show ?thesis
    proof (cases "case bkey of None \<Rightarrow> False | Some k \<Rightarrow> \<not> bloomCheck (s_bloom s1) k")
      case True
      then have "solo C e 7 (PCheck pkt r) (lock_peer r s1) = solo C e 6 PReplay s1"
        using free by (intro solo_step) (simp_all add: bkey_def cfg Let_def split: if_splits)
      with assms P free True show ?thesis unfolding A B
        by (auto simp: ends_like_def numeral_eq_Suc split: prod.splits)
    next
      case False
      then have D: "solo C e 7 (PCheck pkt r) (lock_peer r s1) = solo C e 6 (PDecrypt pkt r bkey) (lock_peer r s1)"
        by (intro solo_step) (auto simp: bkey_def cfg Let_def split: if_splits)
      show ?thesis
      proof (cases "peer_decrypt C (in_IsQUIC pkt) (s_store s1 r) (in_Data pkt)")
        case (Ok d)
        then have "solo C e 6 (PDecrypt pkt r bkey) (lock_peer r s1) = solo C e 5 (PMark (in_IsQUIC pkt) r bkey d) (lock_peer r s1)"
          by (intro solo_step) simp_all
        moreover have "accept_packet C e (in_IsQUIC pkt) r bkey d s1 = (s', eff, en)"
          using assms P free False Ok by simp
        ultimately show ?thesis unfolding A B D using solo_accept [of C e "in_IsQUIC pkt" r bkey d s1 s' eff en 0] free by simp
      next
        case (Err msg)
        then have "solo C e 6 (PDecrypt pkt r bkey) (lock_peer r s1) = solo C e 5 (PFailed msg) s1"
          using free by (intro solo_step) simp_all
        with assms P free False Err show ?thesis unfolding A B D
          by (auto simp: ends_like_def numeral_eq_Suc split: prod.splits)
      next
        case Panic
        have "upd_peer r (\<lambda>p. p\<lparr>p_CP := map_option (with_mode q) (p_CP p)\<rparr>) (lock_peer r s1)
          = lock_peer r (upd_peer r (\<lambda>p. p\<lparr>p_CP := map_option (with_mode q) (p_CP p)\<rparr>) s1)" for q
          by (cases "s_store s1 r") (simp add: lock_peer_def upd_peer_def)
        with Panic have "solo C e 6 (PDecrypt pkt r bkey) (lock_peer r s1)
            = (Died r, lock_peer r (upd_peer r (\<lambda>p. p\<lparr>p_CP := map_option (with_mode (in_IsQUIC pkt)) (p_CP p)\<rparr>) s1), [])"
          by (simp add: numeral_eq_Suc)
        with assms P free False Panic show ?thesis unfolding A B D by (auto simp: ends_like_def)
      qed
    qed
  qed
qed

lemma solo_tun:
  assumes "tun_reader_step C e packet s = (s', eff, en)"
  shows "\<exists>t. solo C e 10 (TLookup packet) s = (t, s', eff) \<and> ends_like C e t s' [] en"
proof (cases "length packet < 20 \<or> drop_bit 4 (packet ! 0) \<noteq> 4 \<or> ipv4_string (slice_of packet 16 20) = ''10.0.0.2''
    \<or> map_of (s_ipToPeer s) (ipv4_string (slice_of packet 16 20)) = None")
  case True
  with assms show ?thesis
    by (auto simp: tun_reader_step_def ends_like_def numeral_eq_Suc Let_def simp del: map_of_eq_Some_iff map_of_eq_None_iff
        split: if_splits)
next
  case False
  then obtain r where r: "map_of (s_ipToPeer s) (ipv4_string (slice_of packet 16 20)) = Some r" by auto
  have A: "solo C e 10 (TLookup packet) s = solo C e 9 (TWriter packet r) s"
    using False r by (intro solo_step) (simp_all add: Let_def del: map_of_eq_Some_iff)
  show ?thesis
  proof (cases "p_Writer (s_store s r)")
    case None
    with False r assms show ?thesis unfolding A
      by (auto simp: tun_reader_step_def ends_like_def numeral_eq_Suc Let_def simp del: map_of_eq_Some_iff)
  next
    case (Some w)
    then have B: "solo C e 9 (TWriter packet r) s = solo C e 8 (TLock packet r w) s" by (intro solo_step) simp_all
    obtain res s1 where E: "peer_encrypt C e False r packet s = (res, s1)" by fastforce
    from False r Some assms E have T: "(if locked s r then (s, [], Blocked)
        else case res of Panic \<Rightarrow> (lock_peer r s1, [], Panicked) | Err m \<Rightarrow> (s1, [], Returned)
          | Ok enc \<Rightarrow> (upd_peer r (count_out (length packet) (clamp_fec (cfg_FEC (s_cfg s1)))) s1,
              [WritePacket w enc (int (clamp_fec (cfg_FEC (s_cfg s1))))], Returned)) = (s', eff, en)"
      by (simp add: tun_reader_step_def Let_def locked_def del: map_of_eq_Some_iff split: if_splits outcome.splits)
    show ?thesis
    proof (cases "locked s r")
      case True
      with T show ?thesis unfolding A B by (auto simp: ends_like_def take_lock_def locked_def numeral_eq_Suc)
    next
      case free: False
      then have D: "solo C e 8 (TLock packet r w) s = solo C e 7 (TEncrypt packet r w) (lock_peer r s)"
        by (intro solo_step) (simp_all add: take_lock_def locked_def)
      have "\<not> locked s1 r" using E free by simp
      with T E free show ?thesis unfolding A B D
        by (cases res) (auto simp: ends_like_def numeral_eq_Suc peer_encrypt_lock Let_def)
    qed
  qed
qed

section \<open>Frames, locks and the way to the end\<close>

text \<open>What no step but a tick of the filter changes, and the filter only grows.\<close>

definition frame :: "server \<Rightarrow> server \<Rightarrow> bool" where
  "frame s s' \<longleftrightarrow>
     s_nextRef s' = s_nextRef s \<and> s_peers s' = s_peers s \<and> s_ipToPeer s' = s_ipToPeer s
     \<and> s_cfg s' = s_cfg s \<and> s_routingSalt s' = s_routingSalt s
     \<and> (length (s_bloom s) = 8192 \<longrightarrow>
          length (s_bloom s') = 8192 \<and> (\<forall>k. \<not> bloomCheck (s_bloom s) k \<longrightarrow> \<not> bloomCheck (s_bloom s') k))"

lemma frame_simps [simp]:
  "frame s s" "frame s (upd_peer r f u) = frame s u" "frame s (lock_peer r u) = frame s u" "frame s (unlock_peer r u) = frame s u"
  "frame s (s\<lparr>s_bloom := bloomSet (s_bloom s) k, s_bloomCount := n\<rparr>)"
  by (simp_all add: frame_def bloom.add_keeps)

lemma keeps_frame: "keeps s s' \<Longrightarrow> frame s s'"
  by (simp add: keeps_def frame_def)

lemmas frames = keeps_frame [OF keeps_peer_encrypt] keeps_dropped [THEN keeps_frame]

fun is_tick :: "task \<Rightarrow> bool" where
  "is_tick (Tick _) = True"
| "is_tick _ = False"

lemma step_frame:
  "task_step C e t s = Some (t', s', eff) \<Longrightarrow> \<not> is_tick t \<Longrightarrow> frame s s' \<and> \<not> is_tick t'"
  by (cases t) (auto simp: take_lock_Some Let_def split: if_splits option.splits outcome.splits prod.splits dest: frames)

lemma frame_seen:
  "frame s s' \<Longrightarrow> length (s_bloom s) = 8192 \<Longrightarrow> \<not> bloomCheck (s_bloom s) k \<Longrightarrow>
     length (s_bloom s') = 8192 \<and> \<not> bloomCheck (s_bloom s') k"
  by (simp add: frame_def)

text \<open>A lock is held exactly when one goroutine holds it, and by one only.\<close>

definition lock_inv :: "server \<times> task list \<Rightarrow> bool" where
  "lock_inv st \<longleftrightarrow>
     (\<forall>r. locked (fst st) r \<longleftrightarrow> (\<exists>i < length (snd st). holds (snd st ! i) = Some r))
     \<and> (\<forall>i < length (snd st). \<forall>j < length (snd st). \<forall>r.
          holds (snd st ! i) = Some r \<and> holds (snd st ! j) = Some r \<longrightarrow> i = j)"

lemma lock_inv_step:
  assumes "lock_inv (s, ts)" and "i < length ts" and "task_step C e (ts ! i) s = Some (t', s', eff)"
  shows "lock_inv (s', ts[i := t'])"
proof -
  have own: "\<And>q. holds (ts ! i) = Some q \<Longrightarrow> locked s q" using assms(1,2) by (auto simp: lock_inv_def)
  have L: "locked s' q \<longleftrightarrow> holds t' = Some q \<or> locked s q \<and> holds (ts ! i) \<noteq> Some q"
      "holds t' = Some q \<Longrightarrow> holds (ts ! i) = Some q \<or> \<not> locked s q" for q
    using step_locks [OF assms(3), of q] own by blast+
  have uniq: "\<And>a b r. a < length ts \<Longrightarrow> b < length ts \<Longrightarrow> holds (ts ! a) = Some r \<Longrightarrow> holds (ts ! b) = Some r \<Longrightarrow> a = b"
    and held: "\<And>r. locked s r \<longleftrightarrow> (\<exists>a < length ts. holds (ts ! a) = Some r)"
    using assms(1) by (auto simp: lock_inv_def)
  have "(\<exists>a < length ts. holds (ts[i := t'] ! a) = Some r)
      \<longleftrightarrow> holds t' = Some r \<or> (\<exists>a < length ts. a \<noteq> i \<and> holds (ts ! a) = Some r)" for r
    using assms(2) by (auto simp: nth_list_update)
  moreover have "(\<exists>a < length ts. a \<noteq> i \<and> holds (ts ! a) = Some r) \<longleftrightarrow> locked s r \<and> holds (ts ! i) \<noteq> Some r" for r
    unfolding held using assms(2) uniq by blast
  ultimately have "locked s' r \<longleftrightarrow> (\<exists>a < length ts. holds (ts[i := t'] ! a) = Some r)" for r
    by (simp add: L(1))
  moreover have "a = b" if "a < length ts" "b < length ts" "holds (ts[i := t'] ! a) = Some r" "holds (ts[i := t'] ! b) = Some r"
    for a b r
  proof -
    have o: "holds t' = Some r \<Longrightarrow> holds (ts ! c) = Some r \<Longrightarrow> c < length ts \<Longrightarrow> c = i" for c
      using L(2) [of r] uniq [of c i r] held assms(2) by blast
    have "a = i \<and> holds t' = Some r \<or> a \<noteq> i \<and> holds (ts ! a) = Some r" "b = i \<and> holds t' = Some r \<or> b \<noteq> i \<and> holds (ts ! b) = Some r"
      using that assms(2) by (auto simp: nth_list_update split: if_splits)
    with o [of a] o [of b] uniq [of a b r] that(1,2) show ?thesis by blast
  qed
  ultimately show ?thesis unfolding lock_inv_def fst_conv snd_conv length_list_update by blast
qed

text \<open>How many steps a goroutine has left.\<close>

fun rank :: "task \<Rightarrow> nat" where
  "rank (XLookup _) = 8" | "rank (XCheck _ _ _) = 7" | "rank (XMark _ _ _) = 6" | "rank (XLock _ _) = 5"
| "rank (XDecrypt _ _) = 4" | "rank (XEchoLock _) = 2" | "rank (XEcho _) = 1" | "rank (XWrite _ _) = 1"
| "rank (PLookup _) = 9" | "rank PNoPeer = 1" | "rank (PWriter _ _) = 8" | "rank (PLock _ _) = 7"
| "rank (PCheck _ _) = 6" | "rank PReplay = 1" | "rank (PDecrypt _ _ _) = 5" | "rank (PFailed _) = 1"
| "rank (PMark _ _ _ _) = 4" | "rank (PEchoLock _ _) = 3" | "rank (PEcho _ _) = 2" | "rank (PReply _ _) = 1"
| "rank (PWrite _ _) = 1"
| "rank (TLookup _) = 5" | "rank (TWriter _ _) = 4" | "rank (TLock _ _ _) = 3" | "rank (TEncrypt _ _ _) = 2"
| "rank (TSend _ _ _ _) = 1" | "rank (Tick _) = 1"
| "rank (Done _) = 0" | "rank (Died _) = 0"

lemma step_rank: "task_step C e t s = Some (t', s', eff) \<Longrightarrow> rank t' < rank t"
  by (cases t) (auto simp: take_lock_Some Let_def split: if_splits option.splits outcome.splits prod.splits)

lemma stuck_waits:
  assumes "task_step C e t s = None"
  obtains (ended) x where "t = Done x" | (died) r where "t = Died r" | (waits) r where "locked s r" "holds t = None"
  using assms
  by (cases t) (auto simp: take_lock_def locked_def Let_def split: if_splits option.splits outcome.splits prod.splits)

lemma holder_moves: "holds t = Some r \<Longrightarrow> (\<And>q. t \<noteq> Died q) \<Longrightarrow> task_step C e t s \<noteq> None"
  by (cases t) (auto simp: Let_def split: outcome.splits prod.splits)

end
