(* ===== verification/Interleave.thy ===== *)
theory Interleave
  imports Main
begin

text \<open>
  Goroutines that take turns on a shared state: the contract that the schedules of the
  server's handlers (\<open>Schedules\<close>), of a shared cipher context (\<open>Shared\<close>) and of the batching
  connection (\<open>Flusher\<close>) have in common, and what follows from it.
\<close>

text \<open>
  \<open>step l t s\<close> is one step of goroutine \<open>t\<close> in state \<open>s\<close>, \<open>l\<close> being what the surroundings
  answer; None when it cannot step. A schedule says who steps, \<open>tag\<close> how the number of a
  goroutine is put on its effects.
\<close>

locale interleaving =
  fixes step :: "'l \<Rightarrow> 't \<Rightarrow> 's \<Rightarrow> ('t \<times> 's \<times> 'e list) option"
    and run :: "('l \<times> nat) list \<Rightarrow> 's \<times> 't list \<Rightarrow> (('s \<times> 't list) \<times> 'f list) option"
    and tag :: "nat \<Rightarrow> 'e \<Rightarrow> 'f"
  assumes run_Nil: "run [] st = Some (st, [])"
    and run_Cons: "run ((l, i) # sch) (s, ts) = Some (st, fs) \<Longrightarrow>
      \<exists>t' s1 es fs'. i < length ts \<and> step l (ts ! i) s = Some (t', s1, es)
        \<and> run sch (s1, ts[i := t']) = Some (st, fs') \<and> fs = map (tag i) es @ fs'"
begin

text \<open>An invariant of the state, the goroutines and the effects so far.\<close>

lemma run_invariant:
  assumes "run sch (s, ts) = Some ((s', ts'), fs)" and "I tr s ts"
    and step_inv: "\<And>l i tr s ts t' s1 es. I tr s ts \<Longrightarrow> i < length ts \<Longrightarrow> step l (ts ! i) s = Some (t', s1, es) \<Longrightarrow>
      I (tr @ map (tag i) es) s1 (ts[i := t'])"
  shows "I (tr @ fs) s' ts'"
  using assms(1,2)
proof (induction sch arbitrary: s ts tr fs)
  case Nil
  then show ?case by (simp add: run_Nil)
next
  case (Cons a sch)
  obtain l i where a: "a = (l, i)" by fastforce
  from run_Cons [OF Cons.prems(1) [unfolded a]] obtain t' s1 es fs' where 1: "i < length ts"
    "step l (ts ! i) s = Some (t', s1, es)" "run sch (s1, ts[i := t']) = Some ((s', ts'), fs')" "fs = map (tag i) es @ fs'"
    by blast
  from Cons.IH [OF 1(3) step_inv [OF Cons.prems(2) 1(1,2)]] 1(4) show ?case by simp
qed

end

text \<open>Goroutines that come nearer to their end with every step: schedules are bounded.\<close>

locale ranked_interleaving = interleaving step run tag
  for step :: "'l \<Rightarrow> 't \<Rightarrow> 's \<Rightarrow> ('t \<times> 's \<times> 'e list) option"
    and run :: "('l \<times> nat) list \<Rightarrow> 's \<times> 't list \<Rightarrow> (('s \<times> 't list) \<times> 'f list) option"
    and tag :: "nat \<Rightarrow> 'e \<Rightarrow> 'f" +
  fixes rk :: "'t \<Rightarrow> nat"
  assumes step_rk: "step l t s = Some (t', s', es) \<Longrightarrow> rk t' < rk t"
begin

lemma rk_update: "i < length ts \<Longrightarrow> rk t' < rk (ts ! i) \<Longrightarrow> sum_list (map rk (ts[i := t'])) < sum_list (map rk ts)"
  by (induction ts arbitrary: i) (auto split: nat.split)

lemma run_bounded:
  "run sch (s, ts) = Some ((s', ts'), fs) \<Longrightarrow> length sch + sum_list (map rk ts') \<le> sum_list (map rk ts)"
proof (induction sch arbitrary: s ts fs)
  case Nil
  then show ?case by (simp add: run_Nil)
next
  case (Cons a sch)
  obtain l i where a: "a = (l, i)" by fastforce
  from run_Cons [OF Cons.prems [unfolded a]] obtain t' s1 es fs' where 1: "i < length ts"
    "step l (ts ! i) s = Some (t', s1, es)" "run sch (s1, ts[i := t']) = Some ((s', ts'), fs')" by blast
  from Cons.IH [OF 1(3)] rk_update [OF 1(1) step_rk [OF 1(2)]] show ?case by simp
qed

end

end
