(* ===== verification/Schedules.thy ===== *)
theory Schedules
  imports Races Interleave
begin

text \<open>
  What holds along every schedule of the server's goroutines (the steps of \<open>Races\<close>): who
  holds a lock, that schedules end, and what the replay filter is worth when handlers run at
  the same time. The main loop checks and marks a key while it holds the lock of the peer; the
  XHTTP handler does both without it.
\<close>

section \<open>Induction over schedules\<close>

lemma run_sched_Cons:
  "run_sched C ((e, i) # sch) (s, ts) = Some (st, effs) \<longleftrightarrow>
     (\<exists>t' s1 eff effs'. i < length ts \<and> task_step C e (ts ! i) s = Some (t', s1, eff)
        \<and> run_sched C sch (s1, ts[i := t']) = Some (st, effs') \<and> effs = map (Pair i) eff @ effs')"
  by (cases st) (auto split: option.split)

interpretation sched: ranked_interleaving "task_step C" "run_sched C" Pair rank for C
proof
  show "run_sched C [] st = Some (st, [])" for st by simp
  show "\<exists>t' s1 es fs'. i < length ts \<and> task_step C l (ts ! i) s = Some (t', s1, es)
      \<and> run_sched C sch (s1, ts[i := t']) = Some (st, fs') \<and> fs = map (Pair i) es @ fs'"
    if "run_sched C ((l, i) # sch) (s, ts) = Some (st, fs)" for l i sch s ts st fs
    using that unfolding run_sched_Cons by blast
  show "rank t' < rank t" if "task_step C l t s = Some (t', s', es)" for l t s t' s' es
    using that by (rule step_rank)
qed

lemma sched_rule:
  assumes "run_sched C sch (s, ts) = Some ((s', ts'), effs)" and "I s ts"
    and "\<And>e i s ts t' s1 eff. I s ts \<Longrightarrow> i < length ts \<Longrightarrow> task_step C e (ts ! i) s = Some (t', s1, eff) \<Longrightarrow>
      I s1 (ts[i := t']) \<and> list_all (Q i) eff"
  shows "I s' ts' \<and> list_all (\<lambda>(i, x). Q i x) effs"
proof -
  let ?I = "\<lambda>tr s ts. I s ts \<and> list_all (\<lambda>(i, x). Q i x) tr"
  have step: "?I (tr @ map (Pair i) eff) s1 (ts[i := t'])"
    if "?I tr s ts" "i < length ts" "task_step C e (ts ! i) s = Some (t', s1, eff)" for e i tr s ts t' s1 eff
    using assms(3) [OF _ that(2,3)] that(1) by (auto simp: list.pred_map comp_def)
  have "?I ([] @ effs) s' ts'"
    by (rule sched.run_invariant [where I = ?I, OF assms(1) _ step]) (use assms(2) in simp_all)
  then show ?thesis by simp
qed

lemma sched_locks: "run_sched C sch (s, ts) = Some ((s', ts'), effs) \<Longrightarrow> lock_inv (s, ts) \<Longrightarrow> lock_inv (s', ts')"
  using sched.run_invariant [where I = "\<lambda>_ s ts. lock_inv (s, ts)" and tr = "[]"] lock_inv_step by metis

text \<open>Nothing is stuck but behind a goroutine that died with a lock.\<close>

lemma all_stuck:
  assumes "lock_inv (s, ts)" and "\<forall>i < length ts. task_step C e (ts ! i) s = None"
  shows "(\<forall>t \<in> set ts. \<exists>x. t = Done x) \<or> (\<exists>r. Died r \<in> set ts)"
proof (rule disjCI)
  assume alive: "\<not> (\<exists>r. Died r \<in> set ts)"
  have free: "\<not> locked s r" for r
  proof
    assume "locked s r"
    then obtain i where i: "i < length ts" "holds (ts ! i) = Some r" using assms(1) by (auto simp: lock_inv_def)
    then have "ts ! i \<noteq> Died q" for q using alive by (metis nth_mem)
    with holder_moves [OF i(2)] assms(2) i(1) show False by blast
  qed
  show "\<forall>t \<in> set ts. \<exists>x. t = Done x"
  proof
    fix t assume t: "t \<in> set ts"
    then have "task_step C e t s = None" using assms(2) by (metis in_set_conv_nth)
    then show "\<exists>x. t = Done x"
      by (rule stuck_waits) (use alive free t in auto)
  qed
qed

section \<open>Tasks that still have the filter before them\<close>

definition standard_key :: "bytes \<Rightarrow> IncomingPacket \<Rightarrow> bool" where
  "standard_key k pkt \<longleftrightarrow> \<not> in_IsQUIC pkt \<and> 18 \<le> length (in_Data pkt) \<and> replay_key pkt = k"

text \<open>A goroutine with a packet of key \<open>k\<close> that has not passed the filter, or has ended
  without effect.\<close>

fun late :: "string \<Rightarrow> bytes \<Rightarrow> task \<Rightarrow> bool" where
  "late salt k (XLookup pkt) \<longleftrightarrow> length pkt < 18 \<or> bloomKey (packet_shortID salt pkt) (slice_of pkt 6 18) = k"
| "late salt k (XCheck _ _ k') \<longleftrightarrow> k' = k"
| "late salt k (PLookup pkt) \<longleftrightarrow> standard_key k pkt"
| "late salt k (PWriter pkt _) \<longleftrightarrow> standard_key k pkt"
| "late salt k (PLock pkt _) \<longleftrightarrow> standard_key k pkt"
| "late salt k (PCheck pkt _) \<longleftrightarrow> standard_key k pkt"
| "late salt k PNoPeer \<longleftrightarrow> True"
| "late salt k PReplay \<longleftrightarrow> True"
| "late salt k (PFailed _) \<longleftrightarrow> True"
| "late salt k (Died _) \<longleftrightarrow> True"
| "late salt k (Done resp) \<longleftrightarrow> resp = []"
| "late salt k _ \<longleftrightarrow> False"

lemma late_step:
  assumes "task_step C e t s = Some (t', s', eff)" and "late (s_routingSalt s) k t"
    and "\<not> bloomCheck (s_bloom s) k" and "\<not> cfg_NoEncrypt (s_cfg s)"
  shows "late (s_routingSalt s) k t' \<and> silent eff"
  using assms
  by (cases t) (auto simp: take_lock_Some Let_def standard_key_def replay_key_def
      split: if_splits option.splits outcome.splits prod.splits dest: silent_dropped)

text \<open>What the filter needs of a state: its size, encryption on, no reset under way.\<close>

definition filter_on :: "server \<Rightarrow> task list \<Rightarrow> bool" where
  "filter_on s ts \<longleftrightarrow> length (s_bloom s) = 8192 \<and> \<not> cfg_NoEncrypt (s_cfg s) \<and> (\<forall>t \<in> set ts. \<not> is_tick t)"

lemma filter_on_step:
  assumes "filter_on s ts" and "i < length ts" and "task_step C e (ts ! i) s = Some (t', s', eff)"
  shows "filter_on s' (ts[i := t'])" and "frame s s'"
proof -
  have "\<not> is_tick (ts ! i)" using assms(1,2) by (simp add: filter_on_def)
  from step_frame [OF assms(3) this] assms(1) set_update_subset_insert [of ts i t']
  show "filter_on s' (ts[i := t'])" "frame s s'" by (auto simp: filter_on_def frame_def)
qed

lemma late_run:
  assumes "run_sched C sch (s, ts) = Some ((s', ts'), effs)" and "filter_on s ts"
    and "\<not> bloomCheck (s_bloom s) k" and "\<forall>i \<in> J. i < length ts \<and> late (s_routingSalt s) k (ts ! i)"
  shows "(\<forall>i \<in> J. late (s_routingSalt s) k (ts' ! i)) \<and> list_all (\<lambda>(i, x). i \<in> J \<longrightarrow> silent [x]) effs"
proof -
  let ?I = "\<lambda>u us. filter_on u us \<and> \<not> bloomCheck (s_bloom u) k \<and> s_routingSalt u = s_routingSalt s
    \<and> (\<forall>i \<in> J. i < length us \<and> late (s_routingSalt s) k (us ! i))"
  have step: "?I u1 (us[i := t']) \<and> list_all (\<lambda>x. i \<in> J \<longrightarrow> silent [x]) eff"
    if "?I u us" "i < length us" "task_step C e (us ! i) u = Some (t', u1, eff)" for e i u us t' u1 eff
  proof -
    have on: "filter_on u us" and seen: "\<not> bloomCheck (s_bloom u) k" and salt: "s_routingSalt u = s_routingSalt s"
      and J: "\<And>j. j \<in> J \<Longrightarrow> j < length us \<and> late (s_routingSalt s) k (us ! j)" using that(1) by blast+
    note F = filter_on_step [OF on that(2,3)]
    have own: "late (s_routingSalt s) k t' \<and> silent eff" if "i \<in> J"
      using late_step [OF \<open>task_step C e (us ! i) u = Some (t', u1, eff)\<close>, of k] on seen J [OF that]
      by (simp add: salt filter_on_def)
    have "j < length us \<and> late (s_routingSalt s) k (us[i := t'] ! j)" if "j \<in> J" for j
      using J [OF that] own that by (cases "j = i") simp_all
    moreover have "\<not> bloomCheck (s_bloom u1) k" "s_routingSalt u1 = s_routingSalt s"
      using frame_seen [OF F(2) _ seen] F(2) on salt by (simp_all add: filter_on_def frame_def)
    moreover have "list_all (\<lambda>x. i \<in> J \<longrightarrow> silent [x]) eff" using own by (auto simp: silent_def list.pred_set)
    ultimately show ?thesis using F(1) by simp
  qed
  have "?I s' ts' \<and> list_all (\<lambda>(i, x). i \<in> J \<longrightarrow> silent [x]) effs"
    by (rule sched_rule [where Q = "\<lambda>i x. i \<in> J \<longrightarrow> silent [x]", OF assms(1) _ step]) (use assms(2-4) in blast)+
  then show ?thesis by blast
qed

section \<open>The main path: check and mark under the lock\<close>

text \<open>A goroutine of the main path with a standard packet of key \<open>k\<close>, for peer \<open>r\<close>, that has
  not marked the key yet, or has ended without effect.\<close>

fun pending :: "bytes \<Rightarrow> nat \<Rightarrow> task \<Rightarrow> bool" where
  "pending k r (PLookup pkt) \<longleftrightarrow> standard_key k pkt"
| "pending k r (PWriter pkt q) \<longleftrightarrow> standard_key k pkt \<and> q = r"
| "pending k r (PLock pkt q) \<longleftrightarrow> standard_key k pkt \<and> q = r"
| "pending k r (PCheck pkt q) \<longleftrightarrow> standard_key k pkt \<and> q = r"
| "pending k r (PDecrypt pkt q mk) \<longleftrightarrow> mk = Some k \<and> q = r"
| "pending k r (PMark _ q mk _) \<longleftrightarrow> mk = Some k \<and> q = r"
| "pending k r PNoPeer \<longleftrightarrow> True"
| "pending k r PReplay \<longleftrightarrow> True"
| "pending k r (PFailed _) \<longleftrightarrow> True"
| "pending k r (Died _) \<longleftrightarrow> True"
| "pending k r (Done resp) \<longleftrightarrow> resp = []"
| "pending k r _ \<longleftrightarrow> False"

lemma pending_late: "pending k r t \<Longrightarrow> holds t \<noteq> Some r \<Longrightarrow> late salt k t"
  by (cases t) auto

fun is_mark :: "task \<Rightarrow> bool" where
  "is_mark (PMark _ _ _ _) = True"
| "is_mark _ = False"

text \<open>Packets with one key address one peer, or nobody.\<close>

definition key_peer :: "server \<Rightarrow> bytes \<Rightarrow> nat \<Rightarrow> bool" where
  "key_peer s k r \<longleftrightarrow> (\<forall>pkt q. replay_key pkt = k \<and> map_of (s_peers s) (in_ShortID pkt) = Some q \<longrightarrow> q = r)"

lemma key_peer_exists: "\<exists>r. key_peer s k r"
proof (cases "\<exists>pkt q. replay_key pkt = k \<and> map_of (s_peers s) (in_ShortID pkt) = Some q")
  case True
  then obtain pkt q where p: "replay_key pkt = k" "map_of (s_peers s) (in_ShortID pkt) = Some q" by blast
  have "key_peer s k q"
    unfolding key_peer_def
  proof (intro allI impI)
    fix pkt' q' assume a: "replay_key pkt' = k \<and> map_of (s_peers s) (in_ShortID pkt') = Some q'"
    then have "replay_key pkt' = replay_key pkt" using p(1) by simp
    then have "in_ShortID pkt' = in_ShortID pkt" by (simp add: replay_key_def bloomKey_inject)
    with a p(2) show "q' = q" by simp
  qed
  then show ?thesis ..
qed (auto simp: key_peer_def)

lemma pending_step:
  assumes "task_step C e t s = Some (t', s', eff)" and "pending k r t" and "key_peer s k r"
    and "\<not> cfg_NoEncrypt (s_cfg s)" and "\<not> is_mark t"
  shows "pending k r t' \<and> silent eff"
  using assms
  by (cases t) (auto simp: take_lock_Some Let_def standard_key_def replay_key_def [symmetric] key_peer_def
      simp del: map_of_eq_Some_iff split: if_splits option.splits outcome.splits prod.splits dest: silent_dropped)

lemma mark_step:
  assumes "task_step C e t s = Some (t', s', eff)" and "pending k r t" and "is_mark t" and "length (s_bloom s) = 8192"
  shows "holds t = Some r \<and> \<not> bloomCheck (s_bloom s') k \<and> eff = []"
  using assms bloom.add_seen [of "s_bloom s" k] by (cases t) (auto simp: Let_def)

lemma frame_key_peer: "frame s s' \<Longrightarrow> key_peer s k r \<Longrightarrow> key_peer s' k r"
  by (simp add: frame_def key_peer_def)

lemma pending_run:
  assumes "run_sched C sch (s, ts) = Some ((s', ts'), effs)" and "filter_on s ts" and "lock_inv (s, ts)"
    and "key_peer s k r" and "\<forall>i \<in> K. i < length ts \<and> pending k r (ts ! i)"
  shows "\<exists>i0. list_all (\<lambda>(i, x). i \<in> K \<and> i \<noteq> i0 \<longrightarrow> silent [x]) effs"
  using assms
proof (induction sch arbitrary: s ts effs)
  case (Cons a sch)
  obtain e j where a: "a = (e, j)" by fastforce
  from Cons.prems(1) obtain t' s1 eff effs' where 1: "j < length ts" "task_step C e (ts ! j) s = Some (t', s1, eff)"
    "run_sched C sch (s1, ts[j := t']) = Some ((s', ts'), effs')" "effs = map (Pair j) eff @ effs'"
    unfolding a run_sched_Cons by blast
  note F = filter_on_step [OF Cons.prems(2) 1(1,2)]
  note L = lock_inv_step [OF Cons.prems(3) 1(1,2)]
  have on: "length (s_bloom s) = 8192" "\<not> cfg_NoEncrypt (s_cfg s)" using Cons.prems(2) by (simp_all add: filter_on_def)
  show ?case
  proof (cases "j \<in> K \<and> is_mark (ts ! j)")
    case True
    then have M: "holds (ts ! j) = Some r" "\<not> bloomCheck (s_bloom s1) k" "eff = []"
      using mark_step [OF 1(2) _ _ on(1)] Cons.prems(5) by blast+
    have "i < length (ts[j := t']) \<and> late (s_routingSalt s1) k (ts[j := t'] ! i)" if "i \<in> K - {j}" for i
    proof -
      have i: "i < length ts" "pending k r (ts ! i)" "i \<noteq> j" using that Cons.prems(5) by auto
      then have "holds (ts ! i) \<noteq> Some r" using M(1) 1(1) Cons.prems(3) by (auto simp: lock_inv_def)
      with pending_late [OF i(2)] i show ?thesis by simp
    qed
    then have "list_all (\<lambda>(i, x). i \<in> K - {j} \<longrightarrow> silent [x]) effs'"
      using late_run [OF 1(3) F(1) M(2), of "K - {j}"] by blast
    with 1(4) M(3) show ?thesis by (auto simp: list.pred_set)
  next
    case False
    then have own: "pending k r t' \<and> silent eff" if "j \<in> K"
      using pending_step [OF 1(2) _ Cons.prems(4) on(2)] Cons.prems(5) that by blast
    have "i < length (ts[j := t']) \<and> pending k r (ts[j := t'] ! i)" if "i \<in> K" for i
      using Cons.prems(5) own that by (cases "i = j") simp_all
    then have "\<forall>i \<in> K. i < length (ts[j := t']) \<and> pending k r (ts[j := t'] ! i)" by blast
    from Cons.IH [OF 1(3) F(1) L frame_key_peer [OF F(2) Cons.prems(4)] this] obtain i0 where
      "list_all (\<lambda>(i, x). i \<in> K \<and> i \<noteq> i0 \<longrightarrow> silent [x]) effs'" ..
    with 1(4) own show ?thesis by (auto simp: list.pred_set silent_def)
  qed
qed simp

section \<open>The XHTTP path: check and mark apart\<close>

text \<open>The steps of an XHTTP handler with a genuine packet.\<close>

lemma xhttp_lookup:
  assumes "genuine go_crypto s pkt pt r key k"
  shows "task_step go_crypto e (XLookup (in_Data pkt)) s = Some (XCheck (in_Data pkt) r (replay_key pkt), s, [])"
proof -
  have "map_of (s_peers s) (in_ShortID pkt) = Some r" using assms by (simp add: genuine_def)
  with std.genuine_facts [OF assms] show ?thesis
    by (simp add: filtered_def replay_key_def Let_def del: map_of_eq_Some_iff)
qed

lemma genuine_cong:
  "s_peers s' = s_peers s \<Longrightarrow> s_cfg s' = s_cfg s \<Longrightarrow> s_routingSalt s' = s_routingSalt s \<Longrightarrow>
    p_CP (s_store s' r) = p_CP (s_store s r) \<Longrightarrow> genuine C s' pkt pt r key k = genuine C s pkt pt r key k"
  by (simp add: genuine_def)

lemma xhttp_finish:
  assumes "genuine go_crypto s pkt pt r key k" and "\<not> locked s r" and "pt \<noteq> []" and "e_tunOK e pt"
  shows "\<exists>s'. solo go_crypto e 3 (XLock (in_Data pkt) r) s = (Done [], s', [TunWrite pt])
    \<and> genuine go_crypto s' pkt pt r key k \<and> \<not> locked s' r"
proof -
  let ?s' = "upd_peer r (count_in (length pt)) (unlock_peer r (lock_peer r s))"
  have "solo go_crypto e 3 (XLock (in_Data pkt) r) s = (Done [], ?s', [TunWrite pt])"
    using assms(2-4) std.genuine_facts(2) [OF assms(1)] by (simp add: numeral_eq_Suc take_lock_def locked_def)
  moreover have "genuine go_crypto ?s' pkt pt r key k \<longleftrightarrow> genuine go_crypto s pkt pt r key k"
    by (rule genuine_cong) (simp_all add: count_in_def)
  moreover have "\<not> locked ?s' r" by simp
  ultimately show ?thesis using assms(1) by blast
qed

text \<open>A goroutine that runs for a while is a stretch of a schedule.\<close>

lemma solo_sched:
  assumes "solo C e n t s = (t', s', eff)" and "t' = Done x" and "i < length ts" and "ts ! i = t"
  shows "\<exists>m \<le> n. \<forall>sch. run_sched C (replicate m (e, i) @ sch) (s, ts)
    = map_option (\<lambda>(st, effs). (st, map (Pair i) eff @ effs)) (run_sched C sch (s', ts[i := t']))"
  using assms
proof (induction n arbitrary: t s ts eff)
  case 0
  then have "ts[i := t'] = ts" using list_update_id [of ts i] by auto
  with 0 show ?case by (intro exI [of _ 0]) (auto simp: case_prod_beta option.map_ident)
next
  case (Suc n)
  show ?case
  proof (cases "task_step C e t s")
    case None
    with Suc.prems have "t' = t" "s' = s" "eff = []" "ts[i := t'] = ts" using list_update_id [of ts i] by auto
    then show ?thesis by (intro exI [of _ 0]) (auto simp: case_prod_beta option.map_ident)
  next
    case (Some y)
    obtain t1 s1 eff1 where y: "y = (t1, s1, eff1)" by (cases y)
    obtain eff2 where 2: "solo C e n t1 s1 = (t', s', eff2)" "eff = eff1 @ eff2"
      using Suc.prems(1) Some y by (auto split: prod.splits)
    from Suc.IH [OF 2(1) Suc.prems(2), of "ts[i := t1]"] Suc.prems(3) obtain m where m: "m \<le> n"
      "\<And>sch. run_sched C (replicate m (e, i) @ sch) (s1, ts[i := t1])
        = map_option (\<lambda>(st, effs). (st, map (Pair i) eff2 @ effs)) (run_sched C sch (s', ts[i := t1, i := t']))" by auto
    have "run_sched C (replicate (Suc m) (e, i) @ sch) (s, ts)
        = map_option (\<lambda>(st, effs). (st, map (Pair i) eff @ effs)) (run_sched C sch (s', ts[i := t']))" for sch
      using Some y Suc.prems(3,4) m(2) 2(2) by (cases "run_sched C sch (s', ts[i := t'])") auto
    with m(1) show ?thesis by (intro exI [of _ "Suc m"]) simp
  qed
qed

text \<open>Two handlers that both check before either marks.\<close>

lemma xhttp_race_run:
  fixes e :: env
  assumes "genuine go_crypto s pkt pt r key k" and "\<not> locked s r" and "bloomCheck (s_bloom s) (replay_key pkt)"
    and "pt \<noteq> []" and "e_tunOK e pt"
  shows "\<exists>sch s'. run_sched go_crypto sch (s, [XLookup (in_Data pkt), XLookup (in_Data pkt)])
    = Some ((s', [Done [], Done []]), [(0, TunWrite pt), (1, TunWrite pt)])"
proof -
  let ?d = "in_Data pkt"
  let ?m = "\<lambda>s. s\<lparr>s_bloom := bloomSet (s_bloom s) (replay_key pkt), s_bloomCount := s_bloomCount s + 1\<rparr>"
  let ?s2 = "?m (?m s)"
  have G: "genuine go_crypto ?s2 pkt pt r key k"
    using genuine_cong [of ?s2 s r go_crypto pkt pt key k] assms(1) by simp
  have "\<not> locked ?s2 r" using assms(2) by (simp add: locked_def)
  from xhttp_finish [OF G this assms(4,5)] obtain s3 where
    3: "solo go_crypto e 3 (XLock ?d r) ?s2 = (Done [], s3, [TunWrite pt])" "genuine go_crypto s3 pkt pt r key k" "\<not> locked s3 r"
    by blast
  from xhttp_finish [OF 3(2,3) assms(4,5)] obtain s4 where
    4: "solo go_crypto e 3 (XLock ?d r) s3 = (Done [], s4, [TunWrite pt])" by blast
  from solo_sched [OF 3(1) refl, of 0 "[XLock ?d r, XLock ?d r]"] obtain m where
    m: "\<And>sch. run_sched go_crypto (replicate m (e, 0) @ sch) (?s2, [XLock ?d r, XLock ?d r])
      = map_option (\<lambda>(st, effs). (st, (0, TunWrite pt) # effs)) (run_sched go_crypto sch (s3, [Done [], XLock ?d r]))" by auto
  from solo_sched [OF 4 refl, of 1 "[Done [], XLock ?d r]"] obtain n where
    n: "\<And>sch. run_sched go_crypto (replicate n (e, 1) @ sch) (s3, [Done [], XLock ?d r])
      = map_option (\<lambda>(st, effs). (st, (1, TunWrite pt) # effs)) (run_sched go_crypto sch (s4, [Done [], Done []]))" by auto
  let ?sch = "[(e, 0), (e, 1), (e, 0), (e, 1), (e, 0), (e, 1)] @ replicate m (e, 0) @ replicate n (e, 1)"
  have "run_sched go_crypto ?sch (s, [XLookup ?d, XLookup ?d]) = Some ((s4, [Done [], Done []]), [(0, TunWrite pt), (1, TunWrite pt)])"
    using assms(3) m [of "replicate n (e, 1)"] n [of "[]"] by (simp add: xhttp_lookup [OF assms(1)] del: task_step_simps(1))
  then show ?thesis by blast
qed

text \<open>A main loop that gets one packet twice, one after the other.\<close>

lemma main_twice_run:
  fixes e :: env
  assumes "genuine go_crypto s pkt pt r key k" and "\<not> locked s r" and "bloomCheck (s_bloom s) (replay_key pkt)"
    and "length (s_bloom s) = 8192" and "pt \<noteq> []" and "e_tunOK e pt"
  shows "\<exists>sch s' eff. run_sched go_crypto sch (s, [PLookup pkt, PLookup pkt])
      = Some ((s', [Done [], Done []]), (0, TunWrite pt) # map (Pair 1) eff) \<and> silent eff"
proof -
  define s1 where "s1 = fst (accept_packet go_crypto e False r (Some (replay_key pkt)) pt (upd_peer r (set_writer (in_Writer pkt)) s))"
  have p1: "processPacket go_crypto e pkt s = (s1, [TunWrite pt], Returned)"
    using assms(2,3,5,6) std.deliver_genuine [OF assms(1)] by (simp add: s1_def accept_packet_def Let_def locked_def)
  have q: "\<not> in_IsQUIC pkt" "filtered s pkt" "map_of (s_peers s) (in_ShortID pkt) = Some r"
    using assms(1) std.genuine_facts(1) [OF assms(1)] by (auto simp: genuine_def)
  have K: "keeps s s1" using keeps_processPacket [OF q(1), of s go_crypto e] p1 by simp
  have seen: "\<not> bloomCheck (s_bloom s1) (replay_key pkt)" "\<not> p_cpLocked (s_store s1 r)"
    using accept_marks [of "upd_peer r (set_writer (in_Writer pkt)) s"] assms(2,4-6)
    by (simp_all add: s1_def) (simp add: accept_packet_def Let_def count_in_def locked_def)
  have "filtered s1 pkt" "map_of (s_peers s1) (in_ShortID pkt) = Some r" using K q by (auto simp: filtered_def keeps_def)
  from replayed_copy [OF this seen(2,1), of go_crypto e] obtain s2 eff where
    p2: "processPacket go_crypto e pkt s1 = (s2, eff, Returned)" "silent eff" by (auto simp: main_loop_def)
  have "solo go_crypto e 10 (PLookup pkt) s = (Done [], s1, [TunWrite pt])" "solo go_crypto e 10 (PLookup pkt) s1 = (Done [], s2, eff)"
    using solo_main [OF p1] solo_main [OF p2(1)] by (auto simp: ends_like_def)
  note S = this [THEN solo_sched, OF refl]
  from S(1) [of 0 "[PLookup pkt, PLookup pkt]"] obtain m where
    m: "\<And>sch. run_sched go_crypto (replicate m (e, 0) @ sch) (s, [PLookup pkt, PLookup pkt])
      = map_option (\<lambda>(st, effs). (st, (0, TunWrite pt) # effs)) (run_sched go_crypto sch (s1, [Done [], PLookup pkt]))" by auto
  from S(2) [of 1 "[Done [], PLookup pkt]"] obtain n where
    n: "\<And>sch. run_sched go_crypto (replicate n (e, 1) @ sch) (s1, [Done [], PLookup pkt])
      = map_option (\<lambda>(st, effs). (st, map (Pair 1) eff @ effs)) (run_sched go_crypto sch (s2, [Done [], Done []]))" by auto
  from m [of "replicate n (e, 1)"] n [of "[]"] p2(2) show ?thesis by auto
qed

lemma lock_inv_start:
  "(\<And>r. \<not> locked s r) \<Longrightarrow> list_all (\<lambda>t. holds t = None) ts \<Longrightarrow> lock_inv (s, ts)"
  by (auto simp: lock_inv_def list_all_length)

lemma sample_server_free: "\<not> locked sample_server r"
  by (simp add: locked_def sample_server_def add_peer_def new_peer_def init_server_def Let_def)

lemma sample_filter_on: "list_all (\<lambda>t. \<not> is_tick t) ts \<Longrightarrow> filter_on sample_server ts"
  by (simp add: filter_on_def bloom.invar_empty zero_Config_def list.pred_set)

section \<open>Properties\<close>

text \<open>
  The handlers are their steps. Without interruption the steps of a goroutine end in the
  state, with the effects and the response of the handler that runs as one step; it has
  returned, died with a lock, or waits for one, exactly as the handler says.
\<close>

theorem handlers_are_steps:
  "(let (s', eff, resp, en) = xhttpProcessPacket C e pkt s
    in \<exists>t. solo C e 10 (XLookup pkt) s = (t, s', eff) \<and> ends_like C e t s' resp en)
   \<and> (let (s', eff, en) = processPacket C e inc s
      in \<exists>t. solo C e 10 (PLookup inc) s = (t, s', eff) \<and> ends_like C e t s' [] en)
   \<and> (let (s', eff, en) = tun_reader_step C e packet s
      in \<exists>t. solo C e 10 (TLookup packet) s = (t, s', eff) \<and> ends_like C e t s' [] en)"
  by (simp add: solo_xhttp solo_main solo_tun split: prod.split)

text \<open>
  C13: along every schedule a peer's lock is held exactly while one goroutine is between
  taking and releasing it, and never by two; the goroutines can only take as many steps as
  they have ranks together; and when nobody can step any more, all have returned or one
  died with a lock held.
\<close>

theorem schedules_end:
  assumes "lock_inv (s, ts)" and "run_sched C sch (s, ts) = Some ((s', ts'), effs)"
  shows "lock_inv (s', ts') \<and> length sch + sum_list (map rank ts') \<le> sum_list (map rank ts)
    \<and> ((\<forall>i < length ts'. task_step C e (ts' ! i) s' = None) \<longrightarrow>
         (\<forall>t \<in> set ts'. \<exists>x. t = Done x) \<or> (\<exists>r. Died r \<in> set ts'))"
  using sched_locks [OF assms(2,1)] sched.run_bounded [OF assms(2)] all_stuck by blast

theorem schedules_end_witness:
  "\<exists>d sch s' effs. run_sched go_crypto sch (sample_server, [XLookup d, XLookup d]) = Some ((s', [Done [], Done []]), effs)
    \<and> lock_inv (s', [Done [], Done []]) \<and> length sch \<le> 16"
proof -
  obtain d where g: "genuine go_crypto sample_server \<lparr>in_Data = d, in_Writer = None, in_ShortID = 3, in_IsQUIC = False\<rparr>
      [72, 105] 0 (replicate 32 9) (replicate 32 9)" (is "genuine _ _ ?pkt _ _ _ _")
    using sample_genuine [of "[72, 105]" None] by auto
  note sample = sample_server_free [of 0]
  from xhttp_race_run [OF g sample, of sample_io] obtain sch s' effs where
    r: "run_sched go_crypto sch (sample_server, [XLookup d, XLookup d]) = Some ((s', [Done [], Done []]), effs)"
    by (auto simp: bloom.fresh_empty sample_io_def)
  have "lock_inv (sample_server, [XLookup d, XLookup d])" by (rule lock_inv_start) (simp_all add: sample_server_free)
  from schedules_end [OF this r, of sample_io] r show ?thesis by auto
qed

text \<open>
  C7: however the goroutines are interleaved, the main path lets a packet through once. Of
  all goroutines of the main path that start with a standard packet of one short id and
  nonce, at most one has an effect, whatever the others, XHTTP handlers included, do
  meanwhile, as long as no tick resets the filter.
\<close>

theorem main_path_delivers_once:
  assumes "filter_on s ts" and "lock_inv (s, ts)" and "run_sched C sch (s, ts) = Some (st, effs)"
    and "\<forall>i \<in> K. i < length ts \<and> (\<exists>pkt. ts ! i = PLookup pkt \<and> standard_key k pkt)"
  shows "\<exists>i0. \<forall>(i, x) \<in> set effs. i \<in> K \<and> i \<noteq> i0 \<longrightarrow> silent [x]"
proof -
  obtain r where r: "key_peer s k r" using key_peer_exists by blast
  obtain s' ts' where st: "st = (s', ts')" by fastforce
  have "\<forall>i \<in> K. i < length ts \<and> pending k r (ts ! i)" using assms(4) by auto
  from pending_run [OF _ assms(1,2) r this] assms(3) st show ?thesis by (auto simp: list.pred_set)
qed

theorem main_path_delivers_once_witness:
  "\<exists>d sch st effs. let pkt = \<lparr>in_Data = d, in_Writer = None, in_ShortID = 3, in_IsQUIC = False\<rparr>
    in run_sched go_crypto sch (sample_server, [PLookup pkt, PLookup pkt]) = Some (st, effs) \<and> (0, TunWrite [72, 105]) \<in> set effs
      \<and> (\<forall>(i, x) \<in> set effs. i \<noteq> 0 \<longrightarrow> silent [x])"
proof -
  obtain d where g: "genuine go_crypto sample_server \<lparr>in_Data = d, in_Writer = None, in_ShortID = 3, in_IsQUIC = False\<rparr>
      [72, 105] 0 (replicate 32 9) (replicate 32 9)" (is "genuine _ _ ?pkt _ _ _ _")
    using sample_genuine [of "[72, 105]" None] by auto
  note sample = sample_server_free [of 0]
  from main_twice_run [OF g sample, of sample_io] obtain sch s' eff where
    r: "run_sched go_crypto sch (sample_server, [PLookup ?pkt, PLookup ?pkt])
      = Some ((s', [Done [], Done []]), (0 :: nat, TunWrite [72, 105]) # map (Pair 1) eff)" "silent eff"
    by (auto simp: bloom.fresh_empty bloom.invar_empty sample_io_def)
  have l: "lock_inv (sample_server, [PLookup ?pkt, PLookup ?pkt])" by (rule lock_inv_start) (simp_all add: sample_server_free)
  have k: "standard_key (replay_key ?pkt) ?pkt"
    using std.genuine_facts(1) [OF g] by (simp add: standard_key_def filtered_def)
  have "\<forall>i \<in> {0, 1}. i < length [PLookup ?pkt, PLookup ?pkt]
      \<and> (\<exists>pkt. [PLookup ?pkt, PLookup ?pkt] ! i = PLookup pkt \<and> standard_key (replay_key ?pkt) pkt)" using k by auto
  from main_path_delivers_once [OF sample_filter_on l r(1) this] obtain i0 where
    i0: "\<forall>(i, x) \<in> set ((0 :: nat, TunWrite [72, 105]) # map (Pair 1) eff). i \<in> {0, 1} \<and> i \<noteq> i0 \<longrightarrow> silent [x]" by auto
  have "i0 = 0" using i0 by (auto simp: silent_def)
  with i0 r(1) have "let pkt = ?pkt in run_sched go_crypto sch (sample_server, [PLookup pkt, PLookup pkt])
        = Some ((s', [Done [], Done []]), (0 :: nat, TunWrite [72, 105]) # map (Pair 1) eff)
      \<and> (0 :: nat, TunWrite [72, 105]) \<in> set ((0 :: nat, TunWrite [72, 105]) # map (Pair 1) eff)
      \<and> (\<forall>(i, x) \<in> set ((0 :: nat, TunWrite [72, 105]) # map (Pair 1) eff). i \<noteq> 0 \<longrightarrow> silent [x])" by auto
  then show ?thesis by blast
qed

text \<open>
  C14: a packet whose key the filter has seen has no effect on any path and in any
  interleaving: a goroutine that still has the check before it ends without writing to the
  device, to a transport or into the response.
\<close>

theorem seen_packets_have_no_effect:
  assumes "filter_on s ts" and "\<not> bloomCheck (s_bloom s) k" and "run_sched C sch (s, ts) = Some ((s', ts'), effs)"
    and "i < length ts" and "late (s_routingSalt s) k (ts ! i)"
  shows "(\<forall>x. (i, x) \<in> set effs \<longrightarrow> silent [x]) \<and> late (s_routingSalt s) k (ts' ! i)"
  using late_run [OF assms(3,1,2), of "{i}"] assms(4,5) by (auto simp: list.pred_set)

theorem seen_packets_have_no_effect_witness:
  "\<exists>d sch st effs. let pkt = \<lparr>in_Data = d, in_Writer = None, in_ShortID = 3, in_IsQUIC = False\<rparr>
    in run_sched go_crypto sch (sample_server\<lparr>s_bloom := bloomSet bloom_zero (replay_key pkt)\<rparr>, [XLookup d]) = Some (st, effs)
      \<and> sch \<noteq> [] \<and> (\<forall>x. (0, x) \<in> set effs \<longrightarrow> silent [x])"
proof -
  obtain d where g: "genuine go_crypto sample_server \<lparr>in_Data = d, in_Writer = None, in_ShortID = 3, in_IsQUIC = False\<rparr>
      [72, 105] 0 (replicate 32 9) (replicate 32 9)" (is "genuine _ _ ?pkt _ _ _ _")
    using sample_genuine [of "[72, 105]" None] by auto
  note sample = sample_server_free [of 0]
  let ?s = "sample_server\<lparr>s_bloom := bloomSet bloom_zero (replay_key ?pkt)\<rparr>"
  have seen: "\<not> bloomCheck (s_bloom ?s) (replay_key ?pkt)" using bloom.add_seen [OF bloom.invar_empty] by simp
  have on: "filter_on ?s [XLookup d]" by (simp add: filter_on_def bloom.invar_empty zero_Config_def)
  have "genuine go_crypto ?s ?pkt [72, 105] 0 (replicate 32 9) (replicate 32 9)"
    using genuine_cong [of ?s sample_server 0] g by simp
  from xhttp_lookup [OF this, of sample_io] seen
  have r: "run_sched go_crypto [(sample_io, 0), (sample_io, 0)] (?s, [XLookup d]) = Some ((?s, [Done []]), [])"
    by (simp del: task_step_simps(1))
  have "late (s_routingSalt ?s) (replay_key ?pkt) ([XLookup d] ! 0)"
    using bloom_key_xhttp [OF std.genuine_facts(3) [OF g]] by simp
  from seen_packets_have_no_effect [OF on seen r _ this] r show ?thesis unfolding Let_def by blast
qed

text \<open>
  C8: the XHTTP path lets a packet through twice. Two handlers that get the same genuine
  packet both pass the check when neither has marked it yet: both hand its content to the
  device. One after the other the second does nothing.
\<close>

theorem xhttp_race_delivers_twice:
  assumes "genuine go_crypto s pkt pt r key k" and "\<not> locked s r" and "bloomCheck (s_bloom s) (replay_key pkt)"
    and "length (s_bloom s) = 8192" and "pt \<noteq> []" and "e_tunOK e pt"
  shows "(\<exists>sch s'. run_sched go_crypto sch (s, [XLookup (in_Data pkt), XLookup (in_Data pkt)])
        = Some ((s', [Done [], Done []]), [(0, TunWrite pt), (1, TunWrite pt)]))
    \<and> (\<exists>s1. xhttpProcessPacket go_crypto e (in_Data pkt) s = (s1, [TunWrite pt], [], Returned)
         \<and> xhttpProcessPacket go_crypto e (in_Data pkt) s1 = (s1, [], [], Returned))"
proof
  show "\<exists>sch s'. run_sched go_crypto sch (s, [XLookup (in_Data pkt), XLookup (in_Data pkt)])
    = Some ((s', [Done [], Done []]), [(0, TunWrite pt), (1, TunWrite pt)])"
    by (rule xhttp_race_run [OF assms(1-3,5,6)])
next
  let ?d = "in_Data pkt"
  let ?s1 = "s\<lparr>s_bloom := bloomSet (s_bloom s) (replay_key pkt), s_bloomCount := s_bloomCount s + 1\<rparr>"
  note f = std.genuine_facts [OF assms(1)]
  have r: "map_of (s_peers s) (in_ShortID pkt) = Some r" using assms(1) by (simp add: genuine_def)
  have "xhttpProcessPacket go_crypto e ?d s = (upd_peer r (count_in (length pt)) ?s1, [TunWrite pt], [], Returned)"
    using r f assms(2,3,5,6)
    by (simp add: xhttpProcessPacket_def filtered_def replay_key_def Let_def xhttp_deliver_def locked_def del: map_of_eq_Some_iff)
  moreover have "xhttpProcessPacket go_crypto e ?d (upd_peer r (count_in (length pt)) ?s1)
      = (upd_peer r (count_in (length pt)) ?s1, [], [], Returned)"
    by (rule xhttp_replay) (use f(1,3) bloom.add_seen [OF assms(4)] in \<open>simp_all add: filtered_def\<close>)
  ultimately show "\<exists>s1. xhttpProcessPacket go_crypto e ?d s = (s1, [TunWrite pt], [], Returned)
    \<and> xhttpProcessPacket go_crypto e ?d s1 = (s1, [], [], Returned)" by blast
qed

theorem xhttp_race_delivers_twice_witness:
  "\<exists>d sch s'. run_sched go_crypto sch (sample_server, [XLookup d, XLookup d])
    = Some ((s', [Done [], Done []]), [(0, TunWrite [72, 105]), (1, TunWrite [72, 105])])"
proof -
  obtain d where g: "genuine go_crypto sample_server \<lparr>in_Data = d, in_Writer = None, in_ShortID = 3, in_IsQUIC = False\<rparr>
      [72, 105] 0 (replicate 32 9) (replicate 32 9)" (is "genuine _ _ ?pkt _ _ _ _")
    using sample_genuine [of "[72, 105]" None] by auto
  note sample = sample_server_free [of 0]
  from xhttp_race_delivers_twice [OF g sample, of sample_io] show ?thesis
    by (auto simp: bloom.fresh_empty bloom.invar_empty sample_io_def)
qed

end
