(* ===== verification/Shared.thy ===== *)
theory Shared
  imports Wire Interleave
begin

text \<open>
  One cipher context used by several goroutines. The engine gives each goroutine a context of
  its own, but in the command line client (\<^verbatim>\<open>main_cli.go\<close>) the keep-alive goroutine and the
  main loop encrypt with the same one and no lock. \<^verbatim>\<open>Encrypt\<close> is cut here at its accesses to
  the shared context: the counter, which is an atomic, and the two uses of the generator,
  which is not. A use of the generator that others may disturb yields any value and leaves any
  state.
\<close>

section \<open>Encrypt in steps\<close>

text \<open>Before the counter, before the nonce is complete, before the padding, and the result.\<close>

datatype enc_task =
    EStart bytes "16 word"
  | ECount bytes "16 word" "64 word"
  | ENonce bytes "16 word" bytes
  | EDone "bytes outcome"

text \<open>What a disturbed call of the generator returns, and the state it leaves.\<close>

type_synonym draw = "32 word \<times> 64 word"

definition pad_length :: "int \<Rightarrow> 32 word \<Rightarrow> nat outcome" where
  "pad_length padMax v =
     (let m = word_of_int (if padMax \<le> 0 then 41 else padMax) :: 32 word
      in if m = 0 then Panic else Ok (unat (v mod m)))"

definition finish_packet ::
  "crypto \<Rightarrow> (nat \<Rightarrow> byte) \<Rightarrow> CipherPack \<Rightarrow> string \<Rightarrow> bytes \<Rightarrow> 16 word \<Rightarrow> bytes \<Rightarrow> 32 word \<Rightarrow> bytes outcome" where
  "finish_packet C padBuf cp routingSalt plaintext shortID nonce v =
     bindO (pad_length (cp_PadMax cp) v) (\<lambda>padLen.
       bindO (build_inner padBuf plaintext padLen) (\<lambda>inner.
         let dynamicID = shortID XOR route_mask routingSalt nonce;
             authData = be16 dynamicID @ nonce;
             marker = set_marker_bit (take 4 (c_mac C (cp_key cp) authData))
         in case cp_gcm cp of
              None \<Rightarrow> Panic
            | Some k \<Rightarrow> Ok (marker @ be16 dynamicID @ nonce @ c_seal C k nonce inner)))"

fun encrypt_step ::
  "crypto \<Rightarrow> (nat \<Rightarrow> byte) \<Rightarrow> string \<Rightarrow> draw \<Rightarrow> enc_task \<Rightarrow> CipherPack \<Rightarrow> (enc_task \<times> CipherPack) option" where
  "encrypt_step C padBuf salt u (EStart pt sid) cp =
     Some (ECount pt sid (cp_nonce cp + 1), cp\<lparr>cp_nonce := cp_nonce cp + 1\<rparr>)"
| "encrypt_step C padBuf salt u (ECount pt sid n) cp =
     Some (ENonce pt sid (be64 n @ be32 (fst u)), cp\<lparr>cp_prng := snd u\<rparr>)"
| "encrypt_step C padBuf salt u (ENonce pt sid nonce) cp =
     Some (EDone (finish_packet C padBuf cp salt pt sid nonce (fst u)), cp\<lparr>cp_prng := snd u\<rparr>)"
| "encrypt_step C padBuf salt u (EDone r) cp = None"

text \<open>A schedule says who steps and what its use of the generator gives.\<close>

fun shared_run ::
  "crypto \<Rightarrow> (nat \<Rightarrow> byte) \<Rightarrow> string \<Rightarrow> (draw \<times> nat) list \<Rightarrow> CipherPack \<times> enc_task list
     \<Rightarrow> (CipherPack \<times> enc_task list) option" where
  "shared_run C padBuf salt [] st = Some st"
| "shared_run C padBuf salt ((u, i) # sch) (cp, ts) =
     (if i < length ts
      then (case encrypt_step C padBuf salt u (ts ! i) cp of
              None \<Rightarrow> None
            | Some (t', cp') \<Rightarrow> shared_run C padBuf salt sch (cp', ts[i := t']))
      else None)"

text \<open>Nobody disturbs: every use of the generator is \<^verbatim>\<open>Uint32\<close> on the state it finds.\<close>

definition alone :: "CipherPack \<Rightarrow> draw" where
  "alone cp = prng_Uint32 (cp_prng cp)"

definition encrypt_alone ::
  "crypto \<Rightarrow> (nat \<Rightarrow> byte) \<Rightarrow> string \<Rightarrow> enc_task \<Rightarrow> CipherPack \<Rightarrow> enc_task \<times> CipherPack" where
  "encrypt_alone C padBuf salt t cp =
     (case encrypt_step C padBuf salt (alone cp) t cp of None \<Rightarrow> (t, cp) | Some r \<Rightarrow> r)"

lemma encrypt_steps_alone:
  "(let (t1, cp1) = encrypt_alone C padBuf salt (EStart pt sid) cp;
        (t2, cp2) = encrypt_alone C padBuf salt t1 cp1
    in encrypt_alone C padBuf salt t2 cp2)
   = (let (r, cp') = encryptStandard C padBuf cp pt sid salt in (EDone r, cp'))"
  by (cases "cp_gcm cp") (simp_all add: encrypt_alone_def alone_def encryptStandard_def finish_packet_def pad_length_def
      choose_pad_def prng_Uint32_def Let_def)

section \<open>What every interleaving keeps\<close>

text \<open>A goroutine that drew the counter \<open>n\<close> for its message.\<close>

fun counted :: "crypto \<Rightarrow> (nat \<Rightarrow> byte) \<Rightarrow> bytes \<Rightarrow> bytes \<Rightarrow> string \<Rightarrow> bytes \<times> 16 word \<Rightarrow> 64 word \<Rightarrow> enc_task \<Rightarrow> bool" where
  "counted C padBuf key k salt m n (EStart _ _) \<longleftrightarrow> False"
| "counted C padBuf key k salt m n (ECount pt sid n') \<longleftrightarrow> (pt, sid) = m \<and> n' = n"
| "counted C padBuf key k salt m n (ENonce pt sid nonce) \<longleftrightarrow> (pt, sid) = m \<and> (\<exists>v. nonce = be64 n @ be32 v)"
| "counted C padBuf key k salt m n (EDone r) \<longleftrightarrow>
     (\<exists>v l inner. build_inner padBuf (fst m) l = Ok inner \<and> r = Ok (std_frame C key k (be64 n @ be32 v) inner (snd m) salt))"

definition started :: "enc_task \<Rightarrow> bool" where
  "started t \<longleftrightarrow> (\<forall>pt sid. t \<noteq> EStart pt sid)"

text \<open>After \<open>c\<close> counters have been drawn: goroutine \<open>i\<close> has not started, or drew one of them,
  each a different one.\<close>

definition counters_inv ::
  "crypto \<Rightarrow> (nat \<Rightarrow> byte) \<Rightarrow> bytes \<Rightarrow> bytes \<Rightarrow> string \<Rightarrow> (bytes \<times> 16 word) list \<Rightarrow> 64 word
     \<Rightarrow> CipherPack \<times> enc_task list \<Rightarrow> bool" where
  "counters_inv C padBuf key k salt ms n0 st \<longleftrightarrow>
     (\<exists>f. length (snd st) = length ms \<and> std_ctx (fst st) key k \<and> cp_PadMax (fst st) \<le> 0
        \<and> cp_nonce (fst st) = n0 + of_nat (card {i. i < length ms \<and> started (snd st ! i)})
        \<and> inj_on f {i. i < length ms \<and> started (snd st ! i)}
        \<and> (\<forall>i < length ms. if started (snd st ! i)
             then f i < card {i. i < length ms \<and> started (snd st ! i)}
                  \<and> counted C padBuf key k salt (ms ! i) (n0 + of_nat (Suc (f i))) (snd st ! i)
             else snd st ! i = EStart (fst (ms ! i)) (snd (ms ! i))))"

lemma finish_packet_Ok:
  assumes "std_ctx cp key k" and "cp_PadMax cp \<le> 0" and "length pt \<le> 65493"
  shows "\<exists>l inner. build_inner padBuf pt l = Ok inner
    \<and> finish_packet C padBuf cp salt pt sid nonce v = Ok (std_frame C key k nonce inner sid salt)"
proof -
  have "unat (v mod 41) < 41" by (simp add: unat_mod)
  then have le: "unat (v mod 41) \<le> 40" by linarith
  then obtain inner where "build_inner padBuf pt (unat (v mod 41)) = Ok inner"
    using assms(3) by (simp add: build_inner_def)
  with assms(1,2) show ?thesis
    by (auto simp: finish_packet_def pad_length_def std_ctx_def std_frame_def Let_def)
qed

lemma counted_step:
  assumes "encrypt_step C padBuf salt u t cp = Some (t', cp')" and "started t"
    and "counted C padBuf key k salt m n t" and "std_ctx cp key k" and "cp_PadMax cp \<le> 0" and "length (fst m) \<le> 65493"
  shows "counted C padBuf key k salt m n t' \<and> started t' \<and> cp_nonce cp' = cp_nonce cp \<and> std_ctx cp' key k \<and> cp_PadMax cp' \<le> 0"
proof (cases t)
  case (ENonce pt sid nonce)
  obtain l inner where "build_inner padBuf pt l = Ok inner"
    "finish_packet C padBuf cp salt pt sid nonce (fst u) = Ok (std_frame C key k nonce inner sid salt)"
    using finish_packet_Ok [OF assms(4,5), of pt padBuf C salt sid nonce "fst u"] assms(3,6) ENonce by auto
  moreover obtain v where "m = (pt, sid)" "nonce = be64 n @ be32 v" using assms(3) ENonce by auto
  ultimately have "counted C padBuf key k salt m n (EDone (finish_packet C padBuf cp salt pt sid nonce (fst u)))" by auto
  with assms ENonce show ?thesis by (auto simp: started_def std_ctx_def simp del: counted.simps(4))
qed (use assms in \<open>auto simp: started_def std_ctx_def\<close>)

lemma inj_on_new: "inj_on f A \<Longrightarrow> \<forall>j \<in> A. f j < (c :: nat) \<Longrightarrow> i \<notin> A \<Longrightarrow> inj_on (f(i := c)) (insert i A)"
  by (simp add: inj_on_def) (metis less_irrefl)

lemma counters_step:
  assumes "counters_inv C padBuf key k salt ms n0 (cp, ts)" and "i < length ts"
    and "encrypt_step C padBuf salt u (ts ! i) cp = Some (t', cp')" and "\<forall>m \<in> set ms. length (fst m) \<le> 65493"
  shows "counters_inv C padBuf key k salt ms n0 (cp', ts[i := t'])"
proof -
  let ?S = "{j. j < length ms \<and> started (ts ! j)}"
  obtain f where len: "length ts = length ms" and ctx: "std_ctx cp key k" "cp_PadMax cp \<le> 0"
    and cnt: "cp_nonce cp = n0 + of_nat (card ?S)" and inj: "inj_on f ?S"
    and own: "\<And>j. j < length ms \<Longrightarrow> started (ts ! j) \<Longrightarrow> f j < card ?S \<and> counted C padBuf key k salt (ms ! j) (n0 + of_nat (Suc (f j))) (ts ! j)"
    and new: "\<And>j. j < length ms \<Longrightarrow> \<not> started (ts ! j) \<Longrightarrow> ts ! j = EStart (fst (ms ! j)) (snd (ms ! j))"
    using assms(1) by (auto simp: counters_inv_def split: if_splits)
  have i: "i < length ms" using assms(2) len by simp
  show ?thesis
  proof (cases "started (ts ! i)")
    case True
    have "length (fst (ms ! i)) \<le> 65493" using assms(4) i by simp
    from counted_step [OF assms(3) True _ ctx this] own [OF i True]
    have t': "counted C padBuf key k salt (ms ! i) (n0 + of_nat (Suc (f i))) t'" "started t'" "cp_nonce cp' = cp_nonce cp"
      "std_ctx cp' key k" "cp_PadMax cp' \<le> 0" by blast+
    have st: "started (ts[i := t'] ! j) \<longleftrightarrow> started (ts ! j)" if "j < length ms" for j
      using True t'(2) len that by (cases "j = i") simp_all
    then have S: "{j. j < length ms \<and> started (ts[i := t'] ! j)} = ?S" by blast
    have "if started (ts[i := t'] ! j) then f j < card ?S
        \<and> counted C padBuf key k salt (ms ! j) (n0 + of_nat (Suc (f j))) (ts[i := t'] ! j)
      else ts[i := t'] ! j = EStart (fst (ms ! j)) (snd (ms ! j))" if "j < length ms" for j
      using own [OF that] new [OF that] own [OF i True] t'(1,2) len that True by (cases "j = i") simp_all
    note own' = this
    show ?thesis
      unfolding counters_inv_def fst_conv snd_conv S
      by (intro exI [of _ f] conjI allI impI own') (use len inj t'(3-5) cnt in simp_all)
  next
    case False
    let ?f = "f(i := card ?S)"
    from new [OF i False] assms(3) have t': "t' = ECount (fst (ms ! i)) (snd (ms ! i)) (cp_nonce cp + 1)"
      "cp' = cp\<lparr>cp_nonce := cp_nonce cp + 1\<rparr>" by simp_all
    have st: "started (ts[i := t'] ! j) \<longleftrightarrow> j = i \<or> started (ts ! j)" if "j < length ms" for j
      using len that by (cases "j = i") (simp_all add: t' started_def)
    have S: "{j. j < length ms \<and> started (ts[i := t'] ! j)} = insert i ?S" using st i by blast
    have card: "card (insert i ?S) = Suc (card ?S)" using False by simp
    have inj': "inj_on ?f (insert i ?S)"
      by (rule inj_on_new [OF inj]) (use own False in blast)+
    have own': "if started (ts[i := t'] ! j) then ?f j < card (insert i ?S)
        \<and> counted C padBuf key k salt (ms ! j) (n0 + of_nat (Suc (?f j))) (ts[i := t'] ! j)
      else ts[i := t'] ! j = EStart (fst (ms ! j)) (snd (ms ! j))" if "j < length ms" for j
    proof (cases "j = i")
      case True
      then show ?thesis using len i cnt card by (simp add: t' started_def add.commute add.left_commute)
    next
      case False
      then show ?thesis using own [OF that] new [OF that] card by auto
    qed
    have "std_ctx cp' key k" "cp_PadMax cp' \<le> 0" "cp_nonce cp' = n0 + of_nat (card (insert i ?S))"
      using ctx cnt card by (simp_all add: t' std_ctx_def add.commute add.left_commute)
    note ctx' = this
    show ?thesis
      unfolding counters_inv_def fst_conv snd_conv S
      by (intro exI [of _ ?f] conjI allI impI own' inj' ctx') (use len in simp_all)
  qed
qed

text \<open>Schedules of a shared context have no effects beside it; every goroutine takes three steps.\<close>

fun enc_rank :: "enc_task \<Rightarrow> nat" where
  "enc_rank (EStart _ _) = 3" | "enc_rank (ECount _ _ _) = 2" | "enc_rank (ENonce _ _ _) = 1" | "enc_rank (EDone _) = 0"

interpretation shared: ranked_interleaving
  "\<lambda>u t cp. map_option (\<lambda>(t', cp'). (t', cp', [])) (encrypt_step C padBuf salt u t cp)"
  "\<lambda>sch st. map_option (\<lambda>st'. (st', [])) (shared_run C padBuf salt sch st)" "\<lambda>i e. e" enc_rank for C padBuf salt
proof
  show "enc_rank t' < enc_rank t"
    if "map_option (\<lambda>(t', cp'). (t', cp', [])) (encrypt_step C padBuf salt l t s) = Some (t', s', es)" for l t s t' s' es
    using that by (cases t) auto
qed (auto split: if_splits option.splits)

lemma counters_run:
  assumes "shared_run C padBuf salt sch (cp, ts) = Some (cp', ts')" and "counters_inv C padBuf key k salt ms n0 (cp, ts)"
    and "\<forall>m \<in> set ms. length (fst m) \<le> 65493"
  shows "counters_inv C padBuf key k salt ms n0 (cp', ts')"
  by (rule shared.run_invariant [where I = "\<lambda>_ cp ts. counters_inv C padBuf key k salt ms n0 (cp, ts)" and tr = "[]", OF _ assms(2)])
    (use assms(1,3) counters_step in auto)

context crypto_laws
begin

lemma frame_opens:
  assumes "build_inner padBuf pt l = Ok inner" and "length nonce = 12"
    and "p = std_frame C key k nonce inner sid salt" and "std_ctx rcv key k"
  shows "Decrypt C rcv p = (p, Ok pt)" and "packet_shortID salt p = sid" and "slice_of p 6 18 = nonce"
proof -
  have k: "cp_gcm rcv = Some k" "cp_key rcv = key" using assms(4) by (simp_all add: std_ctx_def)
  show "Decrypt C rcv p = (p, Ok pt)"
    using decrypt_std_frame [OF k(1) assms(2)] open_build_inner [OF assms(1)] assms(3,4)
    by (simp add: Decrypt_def std_ctx_def k(2))
  note parts = std_frame_parts [OF length_mac assms(2,3)]
  show "packet_shortID salt p = sid" by (simp add: packet_shortID_def parts route_mask_def)
  show "slice_of p 6 18 = nonce" by (rule parts(3))
qed

end

section \<open>Properties\<close>

text \<open>
  C10: a context shared without a lock still gives good packets. However the goroutines that
  encrypt with it interleave, and whatever the races on its generator yield, every packet
  that comes out opens to its plaintext at any holder of the keys and addresses its short id,
  and no two of up to \<open>2^64\<close> packets carry the same nonce.
\<close>

theorem shared_context_keeps_nonces_apart:
  assumes "std_ctx cp key k" and "cp_PadMax cp \<le> 0" and "length ms \<le> 2 ^ 64" and "\<forall>m \<in> set ms. length (fst m) \<le> 65493"
    and "shared_run go_crypto padBuf salt sch (cp, map (\<lambda>(pt, sid). EStart pt sid) ms) = Some (cp', ts)"
    and "std_ctx rcv key k"
  shows "(\<forall>i < length ms. \<forall>r. ts ! i = EDone r \<longrightarrow>
      (\<exists>p. r = Ok p \<and> Decrypt go_crypto rcv p = (p, Ok (fst (ms ! i))) \<and> packet_shortID salt p = snd (ms ! i)))
    \<and> (\<forall>i < length ms. \<forall>j < length ms. \<forall>p q. i \<noteq> j \<and> ts ! i = EDone (Ok p) \<and> ts ! j = EDone (Ok q) \<longrightarrow>
        slice_of p 6 18 \<noteq> slice_of q 6 18)"
proof -
  let ?S = "{i. i < length ms \<and> started (ts ! i)}"
  let ?ts = "map (\<lambda>(pt, sid). EStart pt sid) ms"
  have fresh: "?ts ! i = EStart (fst (ms ! i)) (snd (ms ! i))" "\<not> started (?ts ! i)" if "i < length ms" for i
    using that by (simp_all add: case_prod_beta started_def)
  then have none: "{i. i < length ms \<and> started (?ts ! i)} = {}" by blast
  have "counters_inv go_crypto padBuf key k salt ms (cp_nonce cp) (cp, ?ts)"
    unfolding counters_inv_def fst_conv snd_conv none using assms(1,2) fresh by simp
  from counters_run [OF assms(5) this assms(4)] obtain f where inj: "inj_on f ?S"
    and each: "\<forall>i < length ms. if started (ts ! i)
        then f i < card ?S \<and> counted go_crypto padBuf key k salt (ms ! i) (cp_nonce cp + of_nat (Suc (f i))) (ts ! i)
        else ts ! i = EStart (fst (ms ! i)) (snd (ms ! i))"
    unfolding counters_inv_def fst_conv snd_conv by blast
  have own: "f i < card ?S \<and> counted go_crypto padBuf key k salt (ms ! i) (cp_nonce cp + of_nat (Suc (f i))) (ts ! i)"
    if "i < length ms" "started (ts ! i)" for i
    using each that by metis
  have packet: "\<exists>p v l inner. r = Ok p \<and> build_inner padBuf (fst (ms ! i)) l = Ok inner
      \<and> p = std_frame go_crypto key k (be64 (cp_nonce cp + of_nat (Suc (f i))) @ be32 v) inner (snd (ms ! i)) salt"
    if "i < length ms" "ts ! i = EDone r" for i r
    using own [OF that(1)] that(2) by (auto simp: started_def)
  have nonce: "\<exists>v. slice_of p 6 18 = be64 (cp_nonce cp + of_nat (Suc (f i))) @ be32 v"
    if "i < length ms" "ts ! i = EDone (Ok p)" for i p
    using packet [OF that] std.frame_opens(3) [OF _ _ _ assms(6)] by fastforce
  have small: "f i < 2 ^ 64" if "i < length ms" "started (ts ! i)" for i
  proof -
    have "card ?S \<le> card {..<length ms}" by (rule card_mono) auto
    with own [OF that] assms(3) show ?thesis by simp
  qed
  have "slice_of p 6 18 \<noteq> slice_of q 6 18"
    if "i < length ms" "j < length ms" "i \<noteq> j" "ts ! i = EDone (Ok p)" "ts ! j = EDone (Ok q)" for i j p q
  proof
    assume eq: "slice_of p 6 18 = slice_of q 6 18"
    note ni = nonce [OF that(1,4)] and nj = nonce [OF that(2,5)]
    have st: "started (ts ! i)" "started (ts ! j)" using that by (simp_all add: started_def)
    obtain v w where "be64 (cp_nonce cp + of_nat (Suc (f i))) @ be32 v = be64 (cp_nonce cp + of_nat (Suc (f j))) @ be32 w"
      using ni nj eq by auto
    then have "(of_nat (f i) :: 64 word) = of_nat (f j)" by simp
    then have "unat (of_nat (f i) :: 64 word) = unat (of_nat (f j) :: 64 word)" by (rule arg_cong)
    then have "f i = f j" using small [OF that(1) st(1)] small [OF that(2) st(2)]
      by (simp add: unat_of_nat take_bit_nat_eq_self)
    with inj that(1-3) st show False by (auto simp: inj_on_def)
  qed
  moreover have "\<exists>p. r = Ok p \<and> Decrypt go_crypto rcv p = (p, Ok (fst (ms ! i))) \<and> packet_shortID salt p = snd (ms ! i)"
    if "i < length ms" "ts ! i = EDone r" for i r
    using packet [OF that] std.frame_opens(1,2) [OF _ _ _ assms(6)] by fastforce
  ultimately show ?thesis by blast
qed

theorem shared_context_keeps_nonces_apart_witness:
  "\<exists>cp' p q. shared_run go_crypto (\<lambda>_. 0) ''s'' [((1, 1), 0), ((1, 1), 1), ((5, 1), 1), ((5, 1), 0), ((9, 1), 0), ((9, 1), 1)]
      (sample_cp, [EStart [] 3, EStart [72, 105] 3]) = Some (cp', [EDone (Ok p), EDone (Ok q)])
    \<and> slice_of p 6 18 \<noteq> slice_of q 6 18 \<and> snd (Decrypt go_crypto sample_cp q) = Ok [72, 105]"
proof -
  let ?ms = "[([], 3), ([72, 105], 3)] :: (bytes \<times> 16 word) list"
  let ?sch = "[((1, 1), 0), ((1, 1), 1), ((5, 1), 1), ((5, 1), 0), ((9, 1), 0), ((9, 1), 1)] :: (draw \<times> nat) list"
  have pad: "cp_PadMax sample_cp \<le> 0" by (simp add: sample_cp_def)
  obtain cp' r r' where run: "shared_run go_crypto (\<lambda>_. 0) ''s'' ?sch (sample_cp, map (\<lambda>(pt, sid). EStart pt sid) ?ms)
      = Some (cp', [EDone r, EDone r'])" by simp
  note safe = shared_context_keeps_nonces_apart [OF sample_ctx pad _ _ run sample_ctx, simplified]
  then obtain p q where "r = Ok p" "r' = Ok q" "Decrypt go_crypto sample_cp q = (q, Ok [72, 105])"
    by (auto simp: All_less_Suc2)
  with safe run show ?thesis by (auto simp: All_less_Suc2)
qed

end
