(* ===== verification/Reader.thy ===== *)
theory Reader
  imports System
begin

text \<open>
  The Windows client's reader loop (\<^verbatim>\<open>readerLoop\<close> in \<^verbatim>\<open>core/vpn_windows.go\<close>) with the
  goroutines it starts. Every round of the loop takes a buffer out of \<^verbatim>\<open>tunBufPool\<close>, starts a
  goroutine that reads into it, and waits for the result of a read, the stop channel or ten
  seconds. A round that times out leaves its read pending. \<open>Client\<close> models what the loop does
  with the result of one read; here the buffers are explicit, and the question is which buffer
  the loop looks at.
\<close>

section \<open>Buffers and pending reads\<close>

text \<open>
  Buffers are numbered; \<open>rd_new\<close> is the next that the pool makes. \<open>rd_pending\<close> are the buffers
  of the reads under way, the oldest first, \<open>rd_buf\<close> is \<^verbatim>\<open>buf\<close> of the current round.
\<close>

record reads =
  rd_data :: "nat \<Rightarrow> bytes"
  rd_new :: nat
  rd_pool :: "nat list"
  rd_pending :: "nat list"
  rd_buf :: nat

definition buf_size :: nat where
  "buf_size = 65535"

text \<open>\<^verbatim>\<open>tunBufPool.Get\<close>: \<open>sync.Pool\<close> promises to return some element of the pool or a new one;
  \<open>g\<close> says which.\<close>

definition pool_get :: "nat option \<Rightarrow> reads \<Rightarrow> nat \<times> reads" where
  "pool_get g r =
     (case g of
        Some j \<Rightarrow>
          if j < length (rd_pool r)
          then (rd_pool r ! j, r\<lparr>rd_pool := take j (rd_pool r) @ drop (Suc j) (rd_pool r)\<rparr>)
          else (rd_new r, r\<lparr>rd_new := rd_new r + 1, rd_data := (rd_data r)(rd_new r := replicate buf_size 0)\<rparr>)
      | None \<Rightarrow> (rd_new r, r\<lparr>rd_new := rd_new r + 1, rd_data := (rd_data r)(rd_new r := replicate buf_size 0)\<rparr>))"

text \<open>The head of the loop: a buffer and a goroutine that reads into it.\<close>

definition start_round :: "nat option \<Rightarrow> reads \<Rightarrow> reads" where
  "start_round g r = (let (b, r') = pool_get g r in r'\<lparr>rd_buf := b, rd_pending := rd_pending r' @ [b]\<rparr>)"

definition reader_start :: reads where
  "reader_start = start_round None \<lparr>rd_data = (\<lambda>_. []), rd_new = 0, rd_pool = [], rd_pending = [], rd_buf = 0\<rparr>"

text \<open>What ends the wait: pending read \<open>i\<close> is done (with at most a buffer of data, or an
  error), ten seconds are over, or the client is stopped.\<close>

datatype wake = ReadDone nat "bytes option" | TimedOut | StopClosed

definition put_data :: "bytes \<Rightarrow> bytes \<Rightarrow> bytes" where
  "put_data d old = d @ drop (length d) old"

text \<open>\<^verbatim>\<open>Decrypt(buf[:r.n])\<close> may rewrite what it is given.\<close>

definition after_decrypt :: "crypto \<Rightarrow> VPN \<Rightarrow> bytes \<Rightarrow> bytes \<Rightarrow> bytes" where
  "after_decrypt C v h old =
     (case v_decCP v of
        None \<Rightarrow> old
      | Some cp \<Rightarrow> if length h < 4 + 2 + 12 then old else put_data (fst (Decrypt C cp h)) old)"

text \<open>The memory after pending read \<open>i\<close>; what the loop takes out of the current buffer; and the
  state at the end of the round, when the current buffer has gone back to the pool.\<close>

definition read_into :: "nat \<Rightarrow> bytes option \<Rightarrow> reads \<Rightarrow> nat \<Rightarrow> bytes" where
  "read_into i res r =
     (case res of
        None \<Rightarrow> rd_data r
      | Some d \<Rightarrow> (rd_data r)(rd_pending r ! i := put_data d (rd_data r (rd_pending r ! i))))"

definition handed :: "nat \<Rightarrow> bytes option \<Rightarrow> reads \<Rightarrow> bytes option" where
  "handed i res r = map_option (\<lambda>d. take (length d) (read_into i res r (rd_buf r))) res"

definition end_round :: "crypto \<Rightarrow> VPN \<Rightarrow> nat \<Rightarrow> bytes option \<Rightarrow> reads \<Rightarrow> reads" where
  "end_round C v i res r =
     r\<lparr>rd_data := (case handed i res r of
                    None \<Rightarrow> read_into i res r
                  | Some h \<Rightarrow> (read_into i res r)(rd_buf r := after_decrypt C v h (read_into i res r (rd_buf r)))),
       rd_pending := take i (rd_pending r) @ drop (Suc i) (rd_pending r),
       rd_pool := rd_buf r # rd_pool r\<rparr>"

fun reader_round ::
  "crypto \<Rightarrow> int \<Rightarrow> bool \<Rightarrow> bool \<Rightarrow> nat option \<Rightarrow> wake \<Rightarrow> reads \<times> VPN
     \<Rightarrow> (reads \<times> VPN) \<times> client_effect list \<times> step_end" where
  "reader_round C nowMs session alloc g StopClosed (r, v) = ((r, v), [], LoopReturn)"
| "reader_round C nowMs session alloc g TimedOut (r, v) = ((start_round g r, v), [], Continue)"
| "reader_round C nowMs session alloc g (ReadDone i res) (r, v) =
     (if length (rd_pending r) \<le> i then ((r, v), [], Continue)
      else let d = map_option (take buf_size) res;
               (v', effs, en) = win_reader_step C nowMs session alloc (handed i d r) v;
               r1 = end_round C v i d r
           in ((if en = Continue then start_round g r1 else r1, v'), effs, en))"

fun reader_rounds ::
  "crypto \<Rightarrow> int \<Rightarrow> bool \<Rightarrow> bool \<Rightarrow> (nat option \<times> wake) list \<Rightarrow> reads \<times> VPN
     \<Rightarrow> (reads \<times> VPN) \<times> client_effect list \<times> step_end" where
  "reader_rounds C nowMs session alloc [] st = (st, [], Continue)"
| "reader_rounds C nowMs session alloc ((g, w) # ws) st =
     (let (st1, effs, en) = reader_round C nowMs session alloc g w st
      in if en \<noteq> Continue then (st1, effs, en)
         else let (st2, effs', en') = reader_rounds C nowMs session alloc ws st1 in (st2, effs @ effs', en'))"

text \<open>The reference: the loop body on the results of the reads, one after the other.\<close>

fun win_reader_run ::
  "crypto \<Rightarrow> int \<Rightarrow> bool \<Rightarrow> bool \<Rightarrow> bytes option list \<Rightarrow> VPN \<Rightarrow> VPN \<times> client_effect list \<times> step_end" where
  "win_reader_run C nowMs session alloc [] v = (v, [], Continue)"
| "win_reader_run C nowMs session alloc (res # rs) v =
     (let (v1, effs, en) = win_reader_step C nowMs session alloc res v
      in if en \<noteq> Continue then (v1, effs, en)
         else let (v2, effs', en') = win_reader_run C nowMs session alloc rs v1 in (v2, effs @ effs', en'))"

section \<open>In step and out of step\<close>

text \<open>No read but those into the current buffer is pending.\<close>

definition in_step :: "reads \<Rightarrow> bool" where
  "in_step r \<longleftrightarrow> rd_pending r \<noteq> [] \<and> set (rd_pending r) = {rd_buf r}"

text \<open>The pool does not hold a buffer twice, nor one of a pending read.\<close>

definition pool_ok :: "reads \<Rightarrow> bool" where
  "pool_ok r \<longleftrightarrow> distinct (rd_pool r) \<and> (\<forall>b \<in> set (rd_pool r) \<union> set (rd_pending r) \<union> {rd_buf r}. b < rd_new r)
     \<and> set (rd_pool r) \<inter> (set (rd_pending r) \<union> {rd_buf r}) = {}"

lemma start_round_pending: "rd_pending (start_round g r) = rd_pending r @ [rd_buf (start_round g r)]"
  by (auto simp: start_round_def pool_get_def split: option.split)

lemma reader_start_ok: "in_step reader_start" "pool_ok reader_start" "rd_pending reader_start = [0]"
  by (simp_all add: reader_start_def start_round_def pool_get_def in_step_def pool_ok_def)

lemma take_put_data [simp]: "take (length d) (put_data d old) = d"
  by (simp add: put_data_def)

lemma end_round_select [simp]:
  "rd_pending (end_round C v i d r) = take i (rd_pending r) @ drop (Suc i) (rd_pending r)"
  "rd_pool (end_round C v i d r) = rd_buf r # rd_pool r" "rd_buf (end_round C v i d r) = rd_buf r"
  by (simp_all add: end_round_def)

text \<open>In step, the loop sees what was read.\<close>

lemma handed_in_step: "in_step r \<Longrightarrow> i < length (rd_pending r) \<Longrightarrow> handed i d r = d"
  using nth_mem [of i "rd_pending r"] by (cases d) (auto simp: handed_def read_into_def in_step_def)

text \<open>Out of step, it sees what was in the buffer before.\<close>

lemma handed_out_of_step:
  "rd_pending r ! i \<noteq> rd_buf r \<Longrightarrow> handed i (Some d) r = Some (take (length d) (rd_data r (rd_buf r)))"
  by (simp add: handed_def read_into_def)

lemma round_done:
  assumes "i < length (rd_pending r)"
    and "win_reader_step C nowMs session alloc (handed i (map_option (take buf_size) res) r) v = (v', effs, en)"
  shows "reader_round C nowMs session alloc g (ReadDone i res) (r, v)
      = ((if en = Continue then start_round g (end_round C v i (map_option (take buf_size) res) r)
          else end_round C v i (map_option (take buf_size) res) r, v'), effs, en)"
  using assms by simp

lemma alone_next: "rd_pending r1 = [] \<Longrightarrow> in_step (start_round g r1) \<and> length (rd_pending (start_round g r1)) = 1"
  by (simp add: start_round_pending in_step_def)

lemma lifo_next:
  "set (rd_pending r1) \<subseteq> {b} \<Longrightarrow> rd_pool r1 = b # bs \<Longrightarrow> in_step (start_round (Some 0) r1)"
  by (auto simp: in_step_def start_round_def pool_get_def)

text \<open>Rounds without a timeout, from a single pending read or with a pool that gives back the
  buffer it got last.\<close>

lemma rounds_in_step:
  assumes "in_step r" and "length (rd_pending r) = 1 \<or> (\<forall>g \<in> set gs. g = Some 0)" and "length gs = length rs"
  shows "\<exists>r'. reader_rounds C nowMs session alloc (map2 (\<lambda>g res. (g, ReadDone 0 res)) gs rs) (r, v)
    = (let (v', effs, en) = win_reader_run C nowMs session alloc (map (map_option (take buf_size)) rs) v in ((r', v'), effs, en))
    \<and> (snd (snd (win_reader_run C nowMs session alloc (map (map_option (take buf_size)) rs) v)) = Continue \<longrightarrow> in_step r')"
  using assms(3,1,2)
proof (induction gs rs arbitrary: r v rule: list_induct2)
  case (Cons g gs res rs)
  obtain v1 effs en where W: "win_reader_step C nowMs session alloc (map_option (take buf_size) res) v = (v1, effs, en)"
    by (metis prod_cases3)
  have "0 < length (rd_pending r)" using Cons.prems(1) by (simp add: in_step_def)
  let ?r1 = "end_round C v 0 (map_option (take buf_size) res) r"
  have R: "reader_round C nowMs session alloc g (ReadDone 0 res) (r, v) = ((if en = Continue then start_round g ?r1 else ?r1, v1), effs, en)"
    by (rule round_done) (use W \<open>0 < _\<close> handed_in_step [OF Cons.prems(1)] in simp_all)
  show ?case
  proof (cases "en = Continue")
    case False
    with W R show ?thesis by (simp del: reader_round.simps)
  next
    case True
    have "set (rd_pending ?r1) \<subseteq> {rd_buf r}" using Cons.prems(1) set_drop_subset [of 1 "rd_pending r"] by (auto simp: in_step_def)
    with Cons.prems(1,2) alone_next [of ?r1 g] lifo_next [of ?r1 "rd_buf r" "rd_pool r"]
    have "in_step (start_round g ?r1)" "length (rd_pending (start_round g ?r1)) = 1 \<or> (\<forall>g \<in> set gs. g = Some 0)"
      by (auto simp: in_step_def)
    moreover obtain v2 effs2 en2 where W2: "win_reader_run C nowMs session alloc (map (map_option (take buf_size)) rs) v1 = (v2, effs2, en2)"
      by (metis prod_cases3)
    ultimately obtain r' where
      "reader_rounds C nowMs session alloc (map2 (\<lambda>g res. (g, ReadDone 0 res)) gs rs) (start_round g ?r1, v1) = ((r', v2), effs2, en2)"
      "en2 = Continue \<longrightarrow> in_step r'" using Cons.IH [of "start_round g ?r1" v1] by auto
    with True W W2 R show ?thesis
      by (intro exI [of _ r']) (simp del: reader_round.simps)
  qed
qed simp

text \<open>Out of step: the oldest read and the current round have different buffers.\<close>

definition contents :: "reads \<Rightarrow> nat \<Rightarrow> bytes" where
  "contents r b = (if b < rd_new r then rd_data r b else replicate buf_size 0)"

lemma pool_get_fresh:
  assumes "pool_ok r" and "pool_get g r = (b, r')"
  shows "b \<notin> set (rd_pending r) \<union> {rd_buf r}" and "rd_data r' b = contents r b" and "rd_pending r' = rd_pending r"
proof -
  consider "b = rd_new r" "rd_data r' b = replicate buf_size 0" "rd_pending r' = rd_pending r"
    | "b \<in> set (rd_pool r)" "rd_data r' = rd_data r" "rd_pending r' = rd_pending r"
    using assms(2) by (fastforce simp: pool_get_def split: option.splits if_splits)
  then show "b \<notin> set (rd_pending r) \<union> {rd_buf r}" "rd_data r' b = contents r b" "rd_pending r' = rd_pending r"
    by (cases; use assms(1) in \<open>auto simp: pool_ok_def contents_def\<close>)+
qed

lemma round_after_timeout:
  assumes "pool_ok r" and "rd_pending r = [rd_buf r]" and "pool_get g r = (b, r0)"
    and "win_reader_step C nowMs session alloc (Some (take (length (take buf_size pkt)) (contents r b))) v = (v', effs, en)"
  shows "\<exists>r1. reader_rounds C nowMs session alloc [(g, TimedOut), (g', ReadDone 0 (Some pkt))] (r, v)
      = ((if en = Continue then start_round g' r1 else r1, v'), effs, en)
    \<and> rd_pending r1 = [b] \<and> rd_buf r1 = b \<and> rd_pool r1 = b # rd_pool r0"
proof -
  note f = pool_get_fresh [OF assms(1,3)]
  define r2 where "r2 = start_round g r"
  have r2: "rd_pending r2 = [rd_buf r, b]" "rd_buf r2 = b" "rd_pool r2 = rd_pool r0" "rd_data r2 b = contents r b"
    using assms(2,3) f(2,3) by (simp_all add: r2_def start_round_def)
  have H: "handed 0 (Some (take buf_size pkt)) r2 = Some (take (length (take buf_size pkt)) (contents r b))"
    using handed_out_of_step [of r2 0] f(1) r2 by simp
  let ?r1 = "end_round C v 0 (Some (take buf_size pkt)) r2"
  have "reader_round C nowMs session alloc g' (ReadDone 0 (Some pkt)) (r2, v)
      = ((if en = Continue then start_round g' ?r1 else ?r1, v'), effs, en)"
    using round_done [of 0 r2 C nowMs session alloc "Some pkt" v v' effs en g'] assms(4) H r2(1) by simp
  then have "reader_rounds C nowMs session alloc [(g, TimedOut), (g', ReadDone 0 (Some pkt))] (r, v)
      = ((if en = Continue then start_round g' ?r1 else ?r1, v'), effs, en)"
    by (simp add: r2_def [symmetric] del: reader_round.simps(3))
  then show ?thesis using r2 by (intro exI [of _ ?r1]) simp
qed

lemma map2_replicate: "map2 f (replicate (length ys) x) ys = map (f x) ys"
  by (induction ys) simp_all

lemma sample_not_stopping: "\<not> v_stopping (New C seeds cfg l)"
  by (cases seeds) (simp add: New_def Let_def)

section \<open>Properties\<close>

text \<open>
  As long as no round times out the loop does with every result of a read what the loop
  body does with it, in the order of the reads, whatever buffers the pool gives out.
\<close>

theorem reader_without_timeout_reads_in_order:
  assumes "pool_ok r" and "rd_pending r = [rd_buf r]" and "length gs = length rs"
  shows "\<exists>r'. reader_rounds C nowMs session alloc (map2 (\<lambda>g res. (g, ReadDone 0 res)) gs rs) (r, v)
    = (let (v', effs, en) = win_reader_run C nowMs session alloc (map (map_option (take buf_size)) rs) v
       in ((r', v'), effs, en))"
  using rounds_in_step [of r gs rs C nowMs session alloc v] assms(2,3) by (auto simp: in_step_def)

theorem reader_without_timeout_reads_in_order_witness:
  "\<exists>r' v'. reader_rounds go_crypto 7 True True [(None, ReadDone 0 (Some [1, 2, 3])), (Some 0, ReadDone 0 None)]
      (reader_start, New go_crypto (1, 2, 3) sample_client_cfg True) = ((r', v'), [], Continue) \<and> v_lastPacketRx v' = 7"
proof -
  have "rd_pending reader_start = [rd_buf reader_start]" by (simp add: reader_start_def start_round_def pool_get_def)
  note R = reader_without_timeout_reads_in_order [OF reader_start_ok(2) this, of "[None, Some 0]" "[Some [1, 2, 3], None]"
    go_crypto 7 True True]
  define v where "v = New go_crypto (1, 2, 3) sample_client_cfg True"
  have "\<not> v_stopping v" by (simp add: v_def sample_not_stopping)
  with R [of v] obtain r' where "reader_rounds go_crypto 7 True True [(None, ReadDone 0 (Some [1, 2, 3])), (Some 0, ReadDone 0 None)]
      (reader_start, v) = ((r', v\<lparr>v_lastPacketRx := 7\<rparr>), [], Continue)"
    by (auto simp: win_reader_step_def buf_size_def Let_def simp del: reader_rounds.simps)
  moreover have "v_lastPacketRx (v\<lparr>v_lastPacketRx := 7\<rparr>) = 7" by simp
  ultimately show ?thesis unfolding v_def by blast
qed

text \<open>
  C26: after a round that timed out the next packet is lost. It goes into the buffer of the read
  that was left pending, and the loop decrypts as many bytes of the buffer of its new round:
  what that buffer held before, so nothing the loop does depends on the packet. If the pool
  gives back the buffer it got last, the packets after it are read in order again.
\<close>

theorem reader_timeout_loses_a_packet:
  assumes "pool_ok r" and "rd_pending r = [rd_buf r]" and "pool_get g r = (b, r0)"
    and "win_reader_step C nowMs session alloc (Some (take (length (take buf_size pkt)) (contents r b))) v = (v1, effs, Continue)"
  shows "\<exists>r'. reader_rounds C nowMs session alloc
        ((g, TimedOut) # (Some 0, ReadDone 0 (Some pkt)) # map (\<lambda>res. (Some 0, ReadDone 0 res)) rs) (r, v)
    = (let (v', effs', en) = win_reader_run C nowMs session alloc (map (map_option (take buf_size)) rs) v1
       in ((r', v'), effs @ effs', en))"
proof -
  from round_after_timeout [OF assms, of "Some 0"] obtain r1 where
    R: "reader_rounds C nowMs session alloc [(g, TimedOut), (Some 0, ReadDone 0 (Some pkt))] (r, v) = ((start_round (Some 0) r1, v1), effs, Continue)"
    and r1: "rd_pending r1 = [b]" "rd_pool r1 = b # rd_pool r0" by auto
  have "in_step (start_round (Some 0) r1)" using lifo_next [of r1 b] r1 by simp
  from rounds_in_step [OF this, of "replicate (length rs) (Some 0)" rs C nowMs session alloc v1] obtain r' where
    "reader_rounds C nowMs session alloc (map (\<lambda>res. (Some 0, ReadDone 0 res)) rs) (start_round (Some 0) r1, v1)
      = (let (v', effs, en) = win_reader_run C nowMs session alloc (map (map_option (take buf_size)) rs) v1 in ((r', v'), effs, en))"
    by (auto simp: map2_replicate)
  with R show ?thesis
    by (intro exI [of _ r']) (auto simp: case_prod_beta Let_def split: if_splits)
qed

theorem reader_timeout_loses_a_packet_witness:
  "\<exists>r' v'. reader_rounds go_crypto 7 True True [(None, TimedOut), (Some 0, ReadDone 0 (Some [1, 2, 3])), (Some 0, ReadDone 0 None)]
      (reader_start, New go_crypto (1, 2, 3) sample_client_cfg True) = ((r', v'), [], Continue)"
proof -
  have p: "rd_pending reader_start = [rd_buf reader_start]" by (simp add: reader_start_def start_round_def pool_get_def)
  obtain b r0 where g: "pool_get None reader_start = (b, r0)" by fastforce
  define v where "v = New go_crypto (1, 2, 3) sample_client_cfg True"
  have run: "\<not> v_stopping v" by (simp add: v_def sample_not_stopping)
  have "length (take (length (take buf_size [1, 2, 3 :: byte])) (contents reader_start b)) \<le> 3" by (simp add: buf_size_def)
  then have W: "win_reader_step go_crypto 7 True True (Some (take (length (take buf_size [1, 2, 3])) (contents reader_start b))) v
      = (v\<lparr>v_lastPacketRx := 7\<rparr>, [], Continue)" by (simp add: win_reader_step_def Let_def)
  from reader_timeout_loses_a_packet [OF reader_start_ok(2) p g W, of "[None]"] run obtain r' where
    "reader_rounds go_crypto 7 True True [(None, TimedOut), (Some 0, ReadDone 0 (Some [1, 2, 3])), (Some 0, ReadDone 0 None)]
      (reader_start, v) = ((r', v\<lparr>v_lastPacketRx := 7\<rparr>), [], Continue)"
    by (auto simp: win_reader_step_def Let_def simp del: reader_rounds.simps)
  then show ?thesis unfolding v_def by blast
qed

end
