(* ===== verification/Flusher.thy ===== *)
theory Flusher
  imports Wire Interleave "HOL-Library.Multiset"
begin

text \<open>
  The client's batching connection (\<^verbatim>\<open>xhttpConn\<close> in \<^verbatim>\<open>core/transport.go\<close>) with the goroutines
  that use it: writers, a reader, the background flusher that \<^verbatim>\<open>DialXHTTP\<close> starts, and
  whoever closes it. \<open>Wire\<close> has its operations as single steps; here each is cut at its locks
  (\<^verbatim>\<open>batchMu\<close>, \<^verbatim>\<open>readMu\<close>), at the look at \<^verbatim>\<open>closeCh\<close> and at the HTTP exchange.
\<close>

section \<open>The goroutines\<close>

text \<open>What follows a flush: the return of a write, the flusher's loop or its end, the second
  half of a read.\<close>

datatype after = ToWrite nat | ToLoop | ToStop | ToRead nat

datatype conn_task =
    WStart bytes
  | WAppend bytes
  | WDone "string + nat"
  | FTake after
  | FPost bytes after
  | FStore bytes after
  | FLoop
  | RStart nat
  | RTake nat
  | RDone "string + bytes"
  | Closing
  | Ended

fun resume :: "after \<Rightarrow> conn_task" where
  "resume (ToWrite n) = WDone (Inr n)"
| "resume ToLoop = FLoop"
| "resume ToStop = Ended"
| "resume (ToRead n) = RTake n"

text \<open>A packet entered the batch; a body was handed to POST, which may fail.\<close>

datatype conn_event = Accepted bytes | Posted bytes

definition read_out :: "nat \<Rightarrow> xhttpConn \<Rightarrow> conn_task \<times> xhttpConn" where
  "read_out n c =
     (if length (xc_readBuf c) \<le> xc_readIdx c then (RDone (Inl ''no data''), c)
      else let got = take n (drop (xc_readIdx c) (xc_readBuf c))
           in (RDone (Inr got), c\<lparr>xc_readIdx := xc_readIdx c + length got\<rparr>))"

text \<open>
  One step. \<open>resp\<close> is the answer if the step posts (None: an error), \<open>stop\<close> the branch the
  flusher's \<^verbatim>\<open>select\<close> takes: the closed channel, or a tick.
\<close>

fun conn_step ::
  "bytes option \<Rightarrow> bool \<Rightarrow> conn_task \<Rightarrow> xhttpConn \<Rightarrow> (conn_task \<times> xhttpConn \<times> conn_event list) option" where
  "conn_step resp stop (WStart b) c = Some (if xc_closed c then WDone (Inl ''closed'') else WAppend b, c, [])"
| "conn_step resp stop (WAppend b) c =
     (let c1 = c\<lparr>xc_batch := xc_batch c @ be32 (of_nat (length b)) @ b, xc_batchN := xc_batchN c + 1\<rparr>
      in Some (if xc_batchN c1 \<ge> 500 then FTake (ToWrite (length b)) else WDone (Inr (length b)), c1, [Accepted b]))"
| "conn_step resp stop (FTake k) c =
     (if xc_batchN c = 0 then Some (resume k, c, [])
      else Some (FPost (be32 (of_nat (xc_batchN c)) @ xc_batch c) k, c\<lparr>xc_batch := [], xc_batchN := 0\<rparr>, []))"
| "conn_step resp stop (FPost body k) c =
     Some (case resp of None \<Rightarrow> resume k | Some r \<Rightarrow> if length r > 0 then FStore r k else resume k, c, [Posted body])"
| "conn_step resp stop (FStore r k) c = Some (resume k, c\<lparr>xc_readBuf := r, xc_readIdx := 0\<rparr>, [])"
| "conn_step resp stop FLoop c =
     (if stop then (if xc_closed c then Some (FTake ToStop, c, []) else None) else Some (FTake ToLoop, c, []))"
| "conn_step resp stop (RStart n) c =
     (if length (xc_readBuf c) \<le> xc_readIdx c then Some (FTake (ToRead n), c, [])
      else let (t, c') = read_out n c in Some (t, c', []))"
| "conn_step resp stop (RTake n) c = (let (t, c') = read_out n c in Some (t, c', []))"
| "conn_step resp stop Closing c = Some (Ended, c\<lparr>xc_closed := True\<rparr>, [])"
| "conn_step resp stop _ c = None"

text \<open>A schedule names the goroutine that steps, with the answer and the branch.\<close>

fun conn_run ::
  "((bytes option \<times> bool) \<times> nat) list \<Rightarrow> xhttpConn \<times> conn_task list \<Rightarrow> ((xhttpConn \<times> conn_task list) \<times> conn_event list) option" where
  "conn_run [] st = Some (st, [])"
| "conn_run (((resp, stop), i) # sch) (c, ts) =
     (if i < length ts
      then (case conn_step resp stop (ts ! i) c of
              None \<Rightarrow> None
            | Some (t', c', evs) \<Rightarrow> map_option (\<lambda>(st, evs'). (st, evs @ evs')) (conn_run sch (c', ts[i := t'])))
      else None)"

text \<open>One goroutine alone, with the exchange as a function.\<close>

fun conn_solo ::
  "(bytes \<Rightarrow> bytes option) \<Rightarrow> nat \<Rightarrow> conn_task \<Rightarrow> xhttpConn \<Rightarrow> conn_task \<times> xhttpConn \<times> conn_event list" where
  "conn_solo post 0 t c = (t, c, [])"
| "conn_solo post (Suc n) t c =
     (case conn_step (case t of FPost body k \<Rightarrow> post body | _ \<Rightarrow> None) False t c of
        None \<Rightarrow> (t, c, [])
      | Some (t', c', evs) \<Rightarrow> (let (t'', c'', evs') = conn_solo post n t' c' in (t'', c'', evs @ evs')))"

definition posted :: "conn_event list \<Rightarrow> bytes list" where
  "posted evs = concat (map (\<lambda>ev. case ev of Posted b \<Rightarrow> [b] | Accepted _ \<Rightarrow> []) evs)"

definition accepted :: "conn_event list \<Rightarrow> bytes list" where
  "accepted evs = concat (map (\<lambda>ev. case ev of Accepted b \<Rightarrow> [b] | Posted _ \<Rightarrow> []) evs)"

lemma trace_simps [simp]:
  "posted [] = []" "posted (Posted b # evs) = b # posted evs" "posted (Accepted b # evs) = posted evs"
  "accepted [] = []" "accepted (Accepted b # evs) = b # accepted evs" "accepted (Posted b # evs) = accepted evs"
  "posted (evs @ evs') = posted evs @ posted evs'" "accepted (evs @ evs') = accepted evs @ accepted evs'"
  by (simp_all add: posted_def accepted_def)

text \<open>Alone, a write and a read take the steps of \<open>xhttp_Write\<close> and \<open>xhttp_Read\<close>.\<close>

lemma write_steps_alone:
  "xhttp_Write post b c = (res, c', p) \<Longrightarrow>
     \<exists>evs. conn_solo post 5 (WStart b) c = (WDone res, c', evs) \<and> posted evs = (case p of None \<Rightarrow> [] | Some x \<Rightarrow> [x])"
  by (auto simp: xhttp_Write_def xhttp_flush_def numeral_eq_Suc Let_def split: if_splits option.splits)

lemma read_steps_alone:
  "xhttp_Read post n c = (res, c', p) \<Longrightarrow>
     \<exists>evs. conn_solo post 5 (RStart n) c = (RDone res, c', evs) \<and> posted evs = (case p of None \<Rightarrow> [] | Some x \<Rightarrow> [x])"
  by (auto simp: xhttp_Read_def xhttp_flush_def read_out_def numeral_eq_Suc Let_def split: if_splits option.splits)

section \<open>Nothing is lost on the way\<close>

text \<open>The packets a goroutine carries between taking the batch and posting it.\<close>

fun carries :: "conn_task \<Rightarrow> bytes list \<Rightarrow> bool" where
  "carries (FPost body k) g \<longleftrightarrow> body = xhttp_body g"
| "carries t g \<longleftrightarrow> g = []"

definition batch_inv :: "bytes list \<Rightarrow> bytes list \<Rightarrow> xhttpConn \<times> conn_task list \<Rightarrow> bool" where
  "batch_inv acc bodies st \<longleftrightarrow>
     (\<exists>groups pend fl. bodies = map xhttp_body groups
        \<and> xc_batch (fst st) = concat (map xhttp_frame pend) \<and> xc_batchN (fst st) = length pend
        \<and> (\<forall>i < length (snd st). carries (snd st ! i) (fl i))
        \<and> mset acc = mset (concat groups) + mset pend + (\<Sum>i < length (snd st). mset (fl i)))"

lemma sum_upd:
  assumes "j < (n :: nat)"
  shows "(\<Sum>i < n. mset ((fl(j := x)) i)) + mset (fl j) = (\<Sum>i < n. mset (fl i)) + mset x"
proof -
  have j: "finite {..<n}" "j \<in> {..<n}" using assms by simp_all
  have "(\<Sum>i \<in> {..<n} - {j}. mset ((fl(j := x)) i)) = (\<Sum>i \<in> {..<n} - {j}. mset (fl i))"
    by (rule sum.cong) auto
  then show ?thesis
    unfolding sum.remove [OF j, of "\<lambda>i. mset (fl i)"] sum.remove [OF j, of "\<lambda>i. mset ((fl(j := x)) i)"]
    by (simp add: ac_simps)
qed

lemma carries_resume [simp]: "carries (resume k) g \<longleftrightarrow> g = []"
  by (cases k) simp_all

text \<open>What a step does to the batch and to what its goroutine carries.\<close>

lemma step_carries:
  assumes "conn_step resp stop t c = Some (t', c', evs)" and "carries t g"
    and "xc_batch c = concat (map xhttp_frame pend)" and "xc_batchN c = length pend"
  shows "\<exists>g' pend' new. carries t' g' \<and> xc_batch c' = concat (map xhttp_frame pend') \<and> xc_batchN c' = length pend'
    \<and> posted evs = map xhttp_body new
    \<and> mset (accepted evs) + mset g + mset pend = mset (concat new) + mset g' + mset pend'"
proof (cases t)
  case (WAppend b)
  with assms show ?thesis
    by (intro exI [of _ "[]"] exI [of _ "pend @ [b]"]) (auto simp: Let_def xhttp_frame_def)
next
  case (FTake k)
  show ?thesis
  proof (cases "pend = []")
    case True
    with FTake assms show ?thesis by (intro exI [of _ "[]"]) auto
  next
    case False
    with FTake assms show ?thesis
      by (intro exI [of _ pend] exI [of _ "[]"]) (auto simp: xhttp_body_def)
  qed
next
  case (FPost body k)
  with assms show ?thesis
    by (intro exI [of _ "[]"] exI [of _ pend] exI [of _ "[g]"]) (auto split: option.splits)
qed (use assms in \<open>force simp: read_out_def Let_def split: if_splits\<close>)+

lemma batch_step:
  assumes "batch_inv acc bodies (c, ts)" and "j < length ts" and "conn_step resp stop (ts ! j) c = Some (t', c', evs)"
  shows "batch_inv (acc @ accepted evs) (bodies @ posted evs) (c', ts[j := t'])"
proof -
  obtain groups pend fl where G: "bodies = map xhttp_body groups" "xc_batch c = concat (map xhttp_frame pend)"
    "xc_batchN c = length pend" "\<And>i. i < length ts \<Longrightarrow> carries (ts ! i) (fl i)"
    "mset acc = mset (concat groups) + mset pend + (\<Sum>i < length ts. mset (fl i))"
    using assms(1) by (auto simp: batch_inv_def)
  from step_carries [OF assms(3) G(4) [OF assms(2)] G(2,3)] obtain g' pend' new where
    N: "carries t' g'" "xc_batch c' = concat (map xhttp_frame pend')" "xc_batchN c' = length pend'" "posted evs = map xhttp_body new"
    "mset (accepted evs) + mset (fl j) + mset pend = mset (concat new) + mset g' + mset pend'" by blast
  let ?fl = "fl(j := g')"
  have "carries (ts[j := t'] ! i) (?fl i)" if "i < length ts" for i
    using G(4) [OF that] N(1) that by (cases "i = j") simp_all
  moreover have "mset (acc @ accepted evs) = mset (concat (groups @ new)) + mset pend' + (\<Sum>i < length ts. mset (?fl i))"
  proof -
    have "mset (acc @ accepted evs) + mset (fl j)
        = mset (concat groups) + (\<Sum>i < length ts. mset (fl i)) + (mset (accepted evs) + mset (fl j) + mset pend)"
      using G(5) by (simp add: ac_simps)
    also have "\<dots> = mset (concat groups) + mset (concat new) + mset pend' + ((\<Sum>i < length ts. mset (fl i)) + mset g')"
      unfolding N(5) by (simp add: ac_simps)
    also have "(\<Sum>i < length ts. mset (fl i)) + mset g' = (\<Sum>i < length ts. mset (?fl i)) + mset (fl j)"
      by (rule sum_upd [OF assms(2), symmetric])
    also have "mset (concat groups) + mset (concat new) + mset pend' + \<dots>
        = mset (concat (groups @ new)) + mset pend' + (\<Sum>i < length ts. mset (?fl i)) + mset (fl j)"
      by (simp only: concat_append mset_append ac_simps)
    finally show ?thesis by (simp only: add_right_cancel)
  qed
  ultimately show ?thesis
    unfolding batch_inv_def fst_conv snd_conv length_list_update
    using G(1) N(2-4) by (intro exI [of _ "groups @ new"] exI [of _ pend'] exI [of _ ?fl]) simp
qed

interpretation flusher: interleaving "\<lambda>(resp, stop). conn_step resp stop" conn_run "\<lambda>i ev. ev"
  by unfold_locales (auto split: if_splits option.splits)

lemma batch_run:
  assumes "conn_run sch (c, ts) = Some ((c', ts'), evs)" and "batch_inv [] [] (c, ts)"
  shows "batch_inv (accepted evs) (posted evs) (c', ts')"
proof -
  have "batch_inv (accepted ([] @ evs)) (posted ([] @ evs)) (c', ts')"
    by (rule flusher.run_invariant [where I = "\<lambda>tr c ts. batch_inv (accepted tr) (posted tr) (c, ts)", OF assms(1)])
      (use assms(2) batch_step in \<open>auto\<close>)
  then show ?thesis by simp
qed

section \<open>Properties\<close>

text \<open>A goroutine at its start.\<close>

fun is_start :: "conn_task \<Rightarrow> bool" where
  "is_start (WStart _) = True"
| "is_start (RStart _) = True"
| "is_start FLoop = True"
| "is_start Closing = True"
| "is_start _ = False"

fun posting :: "conn_task \<Rightarrow> bool" where
  "posting (FPost _ _) = True"
| "posting _ = False"

text \<open>
  C34: the batching connection hands every packet to one POST and none to two, however its
  writers, its reader, its flusher and its closing interleave. When no exchange is under way,
  the bodies handed to POST so far are well-formed batches, and their packets together with
  those still in the batch are exactly the packets whose write succeeded. Whether a POST
  succeeds makes no difference: the packets of one that fails are lost with it.
\<close>

theorem interleaved_flushes_keep_every_packet:
  assumes "conn_run sch (DialXHTTP_conn, ts) = Some ((c', ts'), evs)" and "\<forall>t \<in> set ts. is_start t"
    and "\<forall>t \<in> set ts'. \<not> posting t"
  shows "\<exists>groups pend. posted evs = map xhttp_body groups \<and> xc_batch c' = concat (map xhttp_frame pend)
    \<and> xc_batchN c' = length pend \<and> mset (concat groups @ pend) = mset (accepted evs)"
proof -
  have "carries t g \<longleftrightarrow> g = []" if "is_start t \<or> \<not> posting t" for t g
    using that by (cases t) simp_all
  note c = this
  have "batch_inv [] [] (DialXHTTP_conn, ts)"
    unfolding batch_inv_def
    by (intro exI [of _ "[]"] exI [of _ "\<lambda>_. []"]) (use c assms(2) in \<open>simp add: DialXHTTP_conn_def\<close>)
  from batch_run [OF assms(1) this] obtain groups pend fl where
    G: "posted evs = map xhttp_body groups" "xc_batch c' = concat (map xhttp_frame pend)" "xc_batchN c' = length pend"
    "\<And>i. i < length ts' \<Longrightarrow> carries (ts' ! i) (fl i)"
    "mset (accepted evs) = mset (concat groups) + mset pend + (\<Sum>i < length ts'. mset (fl i))"
    by (auto simp: batch_inv_def)
  have "fl i = []" if "i < length ts'" for i using G(4) [OF that] c assms(3) that by simp
  then have "mset (accepted evs) = mset (concat groups @ pend)" using G(5) by simp
  with G(1-3) show ?thesis by metis
qed

theorem interleaved_flushes_keep_every_packet_witness:
  "\<exists>c' evs groups pend. conn_run [((None, False), 0), ((None, False), 0), ((None, False), 2), ((None, False), 2), ((None, False), 1), ((None, False), 1), ((None, False), 2)]
      (DialXHTTP_conn, [WStart [1], WStart [2, 3], FLoop]) = Some ((c', [WDone (Inr 1), WDone (Inr 2), FLoop]), evs)
    \<and> posted evs = map xhttp_body groups \<and> mset (concat groups @ pend) = {#[1], [2, 3]#}"
proof -
  have r: "\<exists>c' evs. conn_run [((None, False), 0), ((None, False), 0), ((None, False), 2), ((None, False), 2), ((None, False), 1), ((None, False), 1), ((None, False), 2)]
      (DialXHTTP_conn, [WStart [1], WStart [2, 3], FLoop]) = Some ((c', [WDone (Inr 1), WDone (Inr 2), FLoop]), evs)
      \<and> accepted evs = [[1], [2, 3]]"
    by (simp add: DialXHTTP_conn_def Let_def)
  then obtain c' evs where e: "conn_run [((None, False), 0), ((None, False), 0), ((None, False), 2), ((None, False), 2), ((None, False), 1), ((None, False), 1), ((None, False), 2)]
      (DialXHTTP_conn, [WStart [1], WStart [2, 3], FLoop]) = Some ((c', [WDone (Inr 1), WDone (Inr 2), FLoop]), evs)"
      "accepted evs = [[1], [2, 3]]" by blast
  from interleaved_flushes_keep_every_packet [OF e(1)] e show ?thesis
    by (simp del: conn_run.simps) blast
qed

text \<open>
  C35: a packet can be accepted and never sent. A write that looked at the closed channel
  before the connection was closed, and enters the batch after the flusher's last flush,
  reports success; its packet stays in the batch when every goroutine has ended.
\<close>

theorem write_during_close_is_lost:
  "\<exists>sch c'. conn_run sch (DialXHTTP_conn, [WStart b, FLoop, Closing])
      = Some ((c', [WDone (Inr (length b)), Ended, Ended]), [Accepted b])
    \<and> xc_batch c' = xhttp_frame b \<and> xc_batchN c' = 1
    \<and> (\<forall>resp stop. conn_step resp stop (WDone (Inr (length b))) c' = None \<and> conn_step resp stop Ended c' = None)"
proof -
  let ?sch = "[((None, False), 0), ((None, False), 2), ((None, True), 1), ((None, True), 1), ((None, False), 0)] :: ((bytes option \<times> bool) \<times> nat) list"
  have "\<exists>c'. conn_run ?sch (DialXHTTP_conn, [WStart b, FLoop, Closing]) = Some ((c', [WDone (Inr (length b)), Ended, Ended]), [Accepted b])
      \<and> xc_batch c' = xhttp_frame b \<and> xc_batchN c' = 1"
    by (simp add: DialXHTTP_conn_def Let_def xhttp_frame_def)
  then show ?thesis by (intro exI [of _ ?sch]) auto
qed

end
