(* ===== verification/Loops.thy ===== *)
theory Loops
  imports Main
begin

text \<open>
  The goroutines of the client engine on Windows, interleaved with the calls that start and
  stop it. \<open>Lifecycle\<close> has \<^verbatim>\<open>Start\<close>, \<^verbatim>\<open>Stop\<close> and \<^verbatim>\<open>Reconnect\<close> and the rounds of the loops as
  single steps; here the calls are cut at every field they write and the loops wherever they
  look at a field, because the loops read \<^verbatim>\<open>v.stopCh\<close>, \<^verbatim>\<open>v.conn\<close> and the flags without the
  lock. What the packets do is left out: it is in \<open>Client\<close> and \<open>Lifecycle\<close>.
\<close>

section \<open>The engine\<close>

text \<open>
  Where a call is, with whether it is the \<^verbatim>\<open>Stop\<close> half of a \<^verbatim>\<open>Reconnect\<close>. \<^verbatim>\<open>v.mu\<close> lets one call
  run at a time.
\<close>

datatype call =
    Idle
  | StopFlag bool
  | StopLocked bool
  | StopClose bool
  | StopTunnel bool
  | StopConn bool
  | StopEnd bool
  | StartCheck
  | StartOpen
  | StartRun

text \<open>
  The fields the loops share. A stop channel and a connection are named by the number of the
  start that made them: \<open>en_stopCh\<close> is the channel in the field \<^verbatim>\<open>v.stopCh\<close>, \<open>en_closed\<close> are the
  closed ones.
\<close>

record engine =
  en_call :: call
  en_stopCh :: nat
  en_closed :: "nat list"
  en_running :: bool
  en_stopping :: bool
  en_conn :: "nat option"
  en_session :: bool

text \<open>Where a loop is. A \<open>Wait\<close> is a \<^verbatim>\<open>select\<close> on the stop channel the field held when it was entered.\<close>

datatype goroutine =
    ReaderTop
  | ReaderConn nat
  | ReaderWait nat nat
  | WriterTop
  | WriterRun
  | StatsTop
  | StatsWait nat
  | RouteTop
  | RouteSelect
  | RouteWait nat
  | PingTop bool
  | PingSent bool
  | PingSelect
  | PingWait nat
  | PingReconnect
  | Ended

text \<open>What a loop meets: the closed channel, a timer, a read that fails, brings a keep-alive or
  a bad packet, or brings a frame for the device; for the ping loop whether the connection is
  dead. Every other step takes any of them.\<close>

datatype happening = SeesStop | Timer | ReadFails | ReadControl | ReadFrame | Dead

section \<open>The loops\<close>

text \<open>\<^verbatim>\<open>readerLoop\<close>: with no connection it sleeps and looks again, at the connection only.\<close>

fun reader_move :: "happening \<Rightarrow> engine \<Rightarrow> goroutine \<Rightarrow> goroutine option" where
  "reader_move h e ReaderTop = Some (case en_conn e of None \<Rightarrow> ReaderTop | Some c \<Rightarrow> ReaderConn c)"
| "reader_move h e (ReaderConn c) = Some (ReaderWait c (en_stopCh e))"
| "reader_move h e (ReaderWait c ch) =
     (case h of
        SeesStop \<Rightarrow> if ch \<in> set (en_closed e) then Some Ended else None
      | ReadFails \<Rightarrow> Some (if en_stopping e then Ended else ReaderTop)
      | ReadFrame \<Rightarrow> Some (if en_stopping e \<or> \<not> en_session e then Ended else ReaderTop)
      | ReadControl \<Rightarrow> Some ReaderTop
      | Timer \<Rightarrow> Some ReaderTop
      | Dead \<Rightarrow> None)"
| "reader_move h e t = None"

text \<open>\<^verbatim>\<open>writerLoop\<close>: its \<^verbatim>\<open>select\<close> has a default, so it only looks.\<close>

fun writer_move :: "engine \<Rightarrow> goroutine \<Rightarrow> goroutine option" where
  "writer_move e WriterTop = Some (if en_stopCh e \<in> set (en_closed e) then Ended else WriterRun)"
| "writer_move e WriterRun = Some WriterTop"
| "writer_move e t = None"

fun stats_move :: "happening \<Rightarrow> engine \<Rightarrow> goroutine \<Rightarrow> goroutine option" where
  "stats_move h e StatsTop = Some (StatsWait (en_stopCh e))"
| "stats_move h e (StatsWait ch) =
     (case h of
        SeesStop \<Rightarrow> if ch \<in> set (en_closed e) then Some Ended else None
      | Timer \<Rightarrow> Some StatsTop
      | _ \<Rightarrow> None)"
| "stats_move h e t = None"

fun route_move :: "happening \<Rightarrow> engine \<Rightarrow> goroutine \<Rightarrow> goroutine option" where
  "route_move h e RouteTop = Some (if en_stopping e \<or> \<not> en_running e then Ended else RouteSelect)"
| "route_move h e RouteSelect = Some (RouteWait (en_stopCh e))"
| "route_move h e (RouteWait ch) =
     (case h of
        SeesStop \<Rightarrow> if ch \<in> set (en_closed e) then Some Ended else None
      | Timer \<Rightarrow> Some RouteTop
      | _ \<Rightarrow> None)"
| "route_move h e t = None"

text \<open>
  \<^verbatim>\<open>persistentPingLoop\<close>; its argument says that this is the first round, which does not wait. A
  dead connection makes it call \<^verbatim>\<open>Reconnect\<close>, which it does when no other call holds \<^verbatim>\<open>v.mu\<close>, and
  return. (\<^verbatim>\<open>wasDead\<close> is only set on that way out.)
\<close>

fun ping_move :: "happening \<Rightarrow> engine \<Rightarrow> goroutine \<Rightarrow> (goroutine \<times> engine) option" where
  "ping_move h e (PingTop first) = Some (if en_stopping e then Ended else PingSent first, e)"
| "ping_move h e (PingSent first) =
     Some (if h = Dead then PingReconnect else if first then PingTop False else PingSelect, e)"
| "ping_move h e PingSelect = Some (PingWait (en_stopCh e), e)"
| "ping_move h e (PingWait ch) =
     (case h of
        SeesStop \<Rightarrow> if ch \<in> set (en_closed e) then Some (Ended, e) else None
      | Timer \<Rightarrow> Some (PingTop False, e)
      | _ \<Rightarrow> None)"
| "ping_move h e PingReconnect = (if en_call e = Idle then Some (Ended, e\<lparr>en_call := StopFlag True\<rparr>) else None)"
| "ping_move h e t = None"

definition loop_move :: "happening \<Rightarrow> engine \<Rightarrow> goroutine \<Rightarrow> (goroutine \<times> engine) option" where
  "loop_move h e t =
     (case ping_move h e t of
        Some r \<Rightarrow> Some r
      | None \<Rightarrow>
          map_option (\<lambda>t'. (t', e))
            (case reader_move h e t of Some t' \<Rightarrow> Some t' | None \<Rightarrow>
            (case writer_move e t of Some t' \<Rightarrow> Some t' | None \<Rightarrow>
            (case stats_move h e t of Some t' \<Rightarrow> Some t' | None \<Rightarrow> route_move h e t))))"

section \<open>The calls\<close>

text \<open>How opening the tunnel ends: well, before the connection was dialled, or after.\<close>

datatype open_result = Opened | FailedBefore | FailedAfter

text \<open>\<^verbatim>\<open>Stop\<close>, step by step; None is the panic on closing a closed channel. The code sets \<^verbatim>\<open>stopping\<close>
  just before it waits for \<^verbatim>\<open>v.mu\<close>; here the call begins when it gets the lock.\<close>

definition after_stop :: "bool \<Rightarrow> call" where
  "after_stop reconnect = (if reconnect then StartCheck else Idle)"

fun stop_move :: "engine \<Rightarrow> call \<Rightarrow> engine option" where
  "stop_move e (StopFlag r) = Some (e\<lparr>en_stopping := True, en_call := StopLocked r\<rparr>)"
| "stop_move e (StopLocked r) =
     Some (if \<not> en_running e then e\<lparr>en_stopping := False, en_call := after_stop r\<rparr>
           else e\<lparr>en_running := False, en_call := StopClose r\<rparr>)"
| "stop_move e (StopClose r) =
     (if en_stopCh e \<in> set (en_closed e) then None
      else Some (e\<lparr>en_closed := en_stopCh e # en_closed e, en_call := StopTunnel r\<rparr>))"
| "stop_move e (StopTunnel r) = Some (e\<lparr>en_session := False, en_call := StopConn r\<rparr>)"
| "stop_move e (StopConn r) = Some (e\<lparr>en_conn := None, en_call := StopEnd r\<rparr>)"
| "stop_move e (StopEnd r) = Some (e\<lparr>en_stopping := False, en_call := after_stop r\<rparr>)"
| "stop_move e c = None"

text \<open>\<^verbatim>\<open>Start\<close>; the last component are the goroutines it starts.\<close>

fun start_move :: "open_result \<Rightarrow> engine \<Rightarrow> call \<Rightarrow> (engine \<times> goroutine list) option" where
  "start_move o' e StartCheck =
     Some (if en_running e then e\<lparr>en_call := Idle\<rparr> else e\<lparr>en_stopCh := Suc (en_stopCh e), en_call := StartOpen\<rparr>, [])"
| "start_move o' e StartOpen =
     Some (case o' of
         Opened \<Rightarrow> e\<lparr>en_conn := Some (en_stopCh e), en_session := True, en_call := StartRun\<rparr>
       | FailedBefore \<Rightarrow> e\<lparr>en_call := Idle\<rparr>
       | FailedAfter \<Rightarrow> e\<lparr>en_conn := Some (en_stopCh e), en_call := Idle\<rparr>, [])"
| "start_move o' e StartRun =
     Some (e\<lparr>en_running := True, en_call := Idle\<rparr>, [PingTop True, RouteTop, ReaderTop, WriterTop, StatsTop])"
| "start_move o' e c = None"

section \<open>Runs\<close>

text \<open>The user calls \<^verbatim>\<open>Start\<close> or \<^verbatim>\<open>Stop\<close>, the call under way takes a step, or a goroutine does.\<close>

datatype move = UserStart | UserStop | CallStep open_result | LoopStep nat happening

fun sys_step :: "move \<Rightarrow> engine \<times> goroutine list \<Rightarrow> (engine \<times> goroutine list) option" where
  "sys_step UserStart (e, ts) = (if en_call e = Idle then Some (e\<lparr>en_call := StartCheck\<rparr>, ts) else None)"
| "sys_step UserStop (e, ts) = (if en_call e = Idle then Some (e\<lparr>en_call := StopFlag False\<rparr>, ts) else None)"
| "sys_step (CallStep o') (e, ts) =
     (case stop_move e (en_call e) of
        Some e' \<Rightarrow> Some (e', ts)
      | None \<Rightarrow> map_option (\<lambda>(e', new). (e', ts @ new)) (start_move o' e (en_call e)))"
| "sys_step (LoopStep i h) (e, ts) =
     (if i < length ts then map_option (\<lambda>(t', e'). (e', ts[i := t'])) (loop_move h e (ts ! i)) else None)"

fun sys_run :: "move list \<Rightarrow> engine \<times> goroutine list \<Rightarrow> (engine \<times> goroutine list) option" where
  "sys_run [] st = Some st"
| "sys_run (m # ms) st = (case sys_step m st of None \<Rightarrow> None | Some st' \<Rightarrow> sys_run ms st')"

definition user_move :: "move \<Rightarrow> bool" where
  "user_move m \<longleftrightarrow> m = UserStart \<or> m = UserStop"

text \<open>A new engine: no channel has been made (0 is the nil channel, on which nothing waits yet).\<close>

definition new_engine :: engine where
  "new_engine = \<lparr>en_call = Idle, en_stopCh = 0, en_closed = [], en_running = False, en_stopping = False,
     en_conn = None, en_session = False\<rparr>"

lemma sys_run_append:
  "sys_run (ms @ ms') st = (case sys_run ms st of None \<Rightarrow> None | Some st' \<Rightarrow> sys_run ms' st')"
  by (induction ms arbitrary: st) (auto split: option.split)

section \<open>What goroutines can do by themselves\<close>

text \<open>A run in which the user calls nothing.\<close>

definition reaches :: "engine \<times> goroutine list \<Rightarrow> engine \<times> goroutine list \<Rightarrow> bool" where
  "reaches st st' \<longleftrightarrow> (\<exists>ms. (\<forall>m \<in> set ms. \<not> user_move m) \<and> sys_run ms st = Some st')"

lemma reaches_refl [simp, intro]: "reaches st st"
  unfolding reaches_def by (rule exI [of _ "[]"]) simp

lemma reaches_step: "sys_step m st = Some st' \<Longrightarrow> \<not> user_move m \<Longrightarrow> reaches st st'"
  unfolding reaches_def by (rule exI [of _ "[m]"]) simp

lemma reaches_trans [trans]: "reaches st st' \<Longrightarrow> reaches st' st'' \<Longrightarrow> reaches st st''"
  unfolding reaches_def by (metis (no_types, lifting) Un_iff option.case(2) set_append sys_run_append)

lemma reaches_loop: "loop_move h e t = Some (t', e') \<Longrightarrow> reaches (e, us @ t # vs) (e', us @ t' # vs)"
  by (rule reaches_step [of "LoopStep (length us) h"]) (simp_all add: user_move_def)

lemma reaches_call: "sys_step (CallStep o') (e, ts) = Some st' \<Longrightarrow> reaches (e, ts) st'"
  by (erule reaches_step) (simp add: user_move_def)

text \<open>Goroutines that step without touching the engine can all do so, one after the other.\<close>

definition quiet_move :: "engine \<Rightarrow> goroutine \<Rightarrow> goroutine \<Rightarrow> bool" where
  "quiet_move e t t' \<longleftrightarrow> t' = t \<or> (\<exists>h. loop_move h e t = Some (t', e))"

lemma reaches_all:
  "(\<And>t. t \<in> set ts \<Longrightarrow> quiet_move e t (f t)) \<Longrightarrow> reaches (e, us @ ts) (e, us @ map f ts)"
proof (induction ts arbitrary: us)
  case (Cons t ts)
  have "reaches (e, us @ t # ts) (e, us @ f t # ts)"
    using Cons.prems [of t] reaches_loop by (auto simp: quiet_move_def)
  moreover have "reaches (e, (us @ [f t]) @ ts) (e, (us @ [f t]) @ map f ts)"
    by (rule Cons.IH) (simp add: Cons.prems)
  ultimately show ?case by (auto intro: reaches_trans)
qed simp

fun is_reader :: "goroutine \<Rightarrow> bool" where
  "is_reader ReaderTop = True"
| "is_reader (ReaderConn c) = True"
| "is_reader (ReaderWait c ch) = True"
| "is_reader t = False"

text \<open>Every reader finishes its round, by a timeout; every reader takes up a connection.\<close>

definition to_top :: "goroutine \<Rightarrow> goroutine" where
  "to_top t = (case t of ReaderWait c ch \<Rightarrow> ReaderTop | _ \<Rightarrow> t)"

definition to_conn :: "engine \<Rightarrow> goroutine \<Rightarrow> goroutine" where
  "to_conn e t = (case t of ReaderTop \<Rightarrow> (case en_conn e of None \<Rightarrow> ReaderTop | Some c \<Rightarrow> ReaderConn c) | _ \<Rightarrow> t)"

definition to_wait :: "engine \<Rightarrow> goroutine \<Rightarrow> goroutine" where
  "to_wait e t = (case t of ReaderConn c \<Rightarrow> ReaderWait c (en_stopCh e) | _ \<Rightarrow> t)"

lemma quiet_reader:
  "quiet_move e t (to_top t)" "quiet_move e t (to_conn e t)" "quiet_move e t (to_wait e t)"
proof -
  have "loop_move Timer e (ReaderWait c ch) = Some (ReaderTop, e)" for c ch by (simp add: loop_move_def)
  then show "quiet_move e t (to_top t)" by (auto simp: quiet_move_def to_top_def split: goroutine.split)
  have "loop_move Timer e ReaderTop = Some (to_conn e ReaderTop, e)" by (simp add: loop_move_def to_conn_def)
  then show "quiet_move e t (to_conn e t)" by (auto simp: quiet_move_def to_conn_def split: goroutine.splits)
  have "loop_move Timer e (ReaderConn c) = Some (ReaderWait c (en_stopCh e), e)" for c by (simp add: loop_move_def)
  then show "quiet_move e t (to_wait e t)" by (auto simp: quiet_move_def to_wait_def split: goroutine.split)
qed

text \<open>All readers wait on the connection and the channel of the field.\<close>

definition readers_wait :: "engine \<Rightarrow> nat \<Rightarrow> goroutine list \<Rightarrow> bool" where
  "readers_wait e n ts \<longleftrightarrow> length (filter is_reader ts) = n
     \<and> (\<forall>t \<in> set ts. is_reader t \<longrightarrow> en_conn e \<noteq> None \<and> t = ReaderWait (the (en_conn e)) (en_stopCh e))"

lemma readers_take_up:
  assumes "en_conn e = Some c" and "\<And>t. t \<in> set ts \<Longrightarrow> is_reader t \<Longrightarrow> t = ReaderTop"
  shows "\<exists>ts'. reaches (e, ts) (e, ts') \<and> readers_wait e (length (filter is_reader ts)) ts'
    \<and> (\<forall>first. PingTop first \<in> set ts \<longrightarrow> PingTop first \<in> set ts')"
proof -
  let ?f = "\<lambda>t. to_wait e (to_conn e t)"
  have "reaches (e, [] @ ts) (e, [] @ map (to_conn e) ts)" by (rule reaches_all) (rule quiet_reader)
  also have "reaches (e, [] @ map (to_conn e) ts) (e, [] @ map (to_wait e) (map (to_conn e) ts))"
    by (rule reaches_all) (rule quiet_reader)
  finally have r: "reaches (e, ts) (e, map ?f ts)" by (simp add: comp_def)
  have kind: "is_reader (?f t) = is_reader t" for t
    using assms(1) by (cases t) (simp_all add: to_wait_def to_conn_def)
  then have n: "length (filter is_reader (map ?f ts)) = length (filter is_reader ts)"
    by (simp add: filter_map comp_def)
  have w: "?f t = ReaderWait c (en_stopCh e)" if "t \<in> set ts" and "is_reader t" for t
    using assms(2) [OF that] assms(1) by (simp add: to_wait_def to_conn_def)
  have p: "?f (PingTop first) = PingTop first" for first by (simp add: to_wait_def to_conn_def)
  have "PingTop first \<in> set (map ?f ts)" if "PingTop first \<in> set ts" for first
    using that p [of first] by (metis image_eqI list.set_map)
  with r n w kind assms(1) show ?thesis by (intro exI [of _ "map ?f ts"]) (auto simp: readers_wait_def)
qed

section \<open>One reconnect\<close>

text \<open>A running engine that nobody is stopping, with its channel open.\<close>

definition up :: "engine \<Rightarrow> bool" where
  "up e \<longleftrightarrow> en_call e = Idle \<and> en_running e \<and> \<not> en_stopping e \<and> en_session e
     \<and> en_conn e = Some (en_stopCh e) \<and> (\<forall>ch \<in> set (en_closed e). ch < en_stopCh e)"

definition reborn :: "engine \<Rightarrow> engine" where
  "reborn e = e\<lparr>en_call := Idle, en_stopCh := Suc (en_stopCh e), en_closed := en_stopCh e # en_closed e, en_running := True,
     en_stopping := False, en_conn := Some (Suc (en_stopCh e)), en_session := True\<rparr>"

definition restarted :: "engine \<Rightarrow> engine" where
  "restarted e = e\<lparr>en_call := Idle, en_stopCh := Suc (en_stopCh e), en_running := True, en_stopping := False,
     en_conn := Some (Suc (en_stopCh e)), en_session := True\<rparr>"

abbreviation five_loops :: "goroutine list" where
  "five_loops \<equiv> [PingTop True, RouteTop, ReaderTop, WriterTop, StatsTop]"

text \<open>From \<^verbatim>\<open>Reconnect\<close>'s second half on.\<close>

lemma start_runs:
  assumes "en_call e = StartCheck" and "\<not> en_running e" and "\<not> en_stopping e"
  shows "reaches (e, ts) (restarted e, ts @ five_loops)"
proof -
  have "sys_run [CallStep Opened, CallStep Opened, CallStep Opened] (e, ts) = Some (restarted e, ts @ five_loops)"
    using assms by (simp add: restarted_def)
  then show ?thesis unfolding reaches_def by (rule_tac x = "[CallStep Opened, CallStep Opened, CallStep Opened]" in exI)
    (simp add: user_move_def)
qed

lemma reconnect_runs:
  assumes "up e"
  shows "reaches (e\<lparr>en_call := StopFlag True\<rparr>, ts) (reborn e, ts @ five_loops)"
proof -
  let ?e = "e\<lparr>en_call := StartCheck, en_closed := en_stopCh e # en_closed e, en_running := False, en_conn := None, en_session := False,
    en_stopping := False\<rparr>"
  have "en_stopCh e \<notin> set (en_closed e)" using assms by (auto simp: up_def)
  then have "sys_run (replicate 6 (CallStep Opened)) (e\<lparr>en_call := StopFlag True\<rparr>, ts) = Some (?e, ts)"
    using assms by (simp add: numeral_eq_Suc up_def after_stop_def)
  then have "reaches (e\<lparr>en_call := StopFlag True\<rparr>, ts) (?e, ts)"
    unfolding reaches_def by (rule_tac x = "replicate 6 (CallStep Opened)" in exI) (simp add: user_move_def)
  also have "reaches (?e, ts) (restarted ?e, ts @ five_loops)" by (rule start_runs) simp_all
  also have "restarted ?e = reborn e" by (simp add: restarted_def reborn_def)
  finally show ?thesis .
qed

lemma up_reborn: "up e \<Longrightarrow> up (reborn e)"
  by (auto simp: up_def reborn_def)

text \<open>A dead connection: the ping loop calls \<^verbatim>\<open>Reconnect\<close> while every reader is between two rounds.\<close>

lemma lost_connection_run:
  assumes "up e" and "readers_wait e n ts" and "PingTop first \<in> set ts"
  shows "\<exists>ts'. reaches (e, ts) (reborn e, ts') \<and> readers_wait (reborn e) (Suc n) ts' \<and> PingTop True \<in> set ts'"
proof -
  obtain us vs where ts: "ts = us @ PingTop first # vs" using assms(3) by (meson split_list)
  let ?us = "map to_top us" and ?vs = "map to_top vs"
  have "reaches (e, [] @ ts) (e, [] @ map to_top ts)" by (rule reaches_all) (rule quiet_reader)
  then have "reaches (e, ts) (e, ?us @ PingTop first # ?vs)" by (simp add: ts to_top_def)
  also have "reaches (e, ?us @ PingTop first # ?vs) (e, ?us @ PingSent first # ?vs)"
    by (rule reaches_loop [of Dead]) (use assms(1) in \<open>simp add: loop_move_def up_def\<close>)
  also have "reaches (e, ?us @ PingSent first # ?vs) (e, ?us @ PingReconnect # ?vs)"
    by (rule reaches_loop [of Dead]) (simp add: loop_move_def)
  also have "reaches (e, ?us @ PingReconnect # ?vs) (e\<lparr>en_call := StopFlag True\<rparr>, ?us @ Ended # ?vs)"
    by (rule reaches_loop [of Dead]) (use assms(1) in \<open>simp add: loop_move_def up_def\<close>)
  also note reconnect_runs [OF assms(1)]
  finally have run: "reaches (e, ts) (reborn e, (?us @ Ended # ?vs) @ five_loops)" .
  let ?ts = "(?us @ Ended # ?vs) @ five_loops"
  have at_top: "t = ReaderTop" if "t \<in> set ?ts" and "is_reader t" for t
    using that assms(2) by (auto simp: ts readers_wait_def to_top_def split: goroutine.splits)
  have kind: "is_reader (to_top t) = is_reader t" for t by (cases t) (simp_all add: to_top_def)
  have n: "length (filter is_reader ?ts) = Suc n"
    using assms(2) kind by (simp add: ts readers_wait_def filter_map comp_def)
  have c: "en_conn (reborn e) = Some (Suc (en_stopCh e))" by (simp add: reborn_def)
  obtain ts' where "reaches (reborn e, ?ts) (reborn e, ts')" "readers_wait (reborn e) (Suc n) ts'"
      "\<forall>first. PingTop first \<in> set ?ts \<longrightarrow> PingTop first \<in> set ts'"
    using readers_take_up [OF c at_top] n by metis
  with run reaches_trans show ?thesis by (meson in_set_conv_decomp list.set_intros(1) Un_iff set_append)
qed

section \<open>The channel is closed once\<close>

fun closing :: "call \<Rightarrow> bool" where
  "closing (StopClose r) = True"
| "closing c = False"

fun starting :: "call \<Rightarrow> bool" where
  "starting StartOpen = True"
| "starting StartRun = True"
| "starting c = False"

text \<open>Every set of five goroutines has its own channel: closed, or the open one of a running engine.\<close>

definition sys_inv :: "engine \<times> goroutine list \<Rightarrow> bool" where
  "sys_inv st \<longleftrightarrow> (case st of (e, ts) \<Rightarrow>
     distinct (en_closed e) \<and> (\<forall>ch \<in> set (en_closed e). ch \<le> en_stopCh e)
     \<and> (en_running e \<or> closing (en_call e) \<or> starting (en_call e) \<longrightarrow> en_stopCh e \<notin> set (en_closed e))
     \<and> (closing (en_call e) \<or> starting (en_call e) \<longrightarrow> \<not> en_running e)
     \<and> length ts = 5 * (length (en_closed e) + (if en_running e \<or> closing (en_call e) then 1 else 0)))"

lemma loop_move_engine:
  "loop_move h e t = Some (t', e') \<Longrightarrow> e' = e \<or> (t = PingReconnect \<and> en_call e = Idle \<and> e' = e\<lparr>en_call := StopFlag True\<rparr>)"
  by (cases t) (auto simp: loop_move_def split: option.splits if_splits happening.splits)

lemma sys_inv_stop: "stop_move e c = Some e' \<Longrightarrow> en_call e = c \<Longrightarrow> sys_inv (e, ts) \<Longrightarrow> sys_inv (e', ts)"
  by (cases c) (auto simp: sys_inv_def after_stop_def split: if_splits)

lemma sys_inv_start:
  "start_move o' e c = Some (e', new) \<Longrightarrow> en_call e = c \<Longrightarrow> sys_inv (e, ts) \<Longrightarrow> sys_inv (e', ts @ new)"
proof (cases c)
  case StartCheck
  assume i: "start_move o' e c = Some (e', new)" "en_call e = c" "sys_inv (e, ts)"
  then have "\<forall>ch \<in> set (en_closed e). ch \<le> en_stopCh e" by (simp add: sys_inv_def)
  then have "Suc (en_stopCh e) \<notin> set (en_closed e)" "\<forall>ch \<in> set (en_closed e). ch \<le> Suc (en_stopCh e)"
    using Suc_n_not_le_n le_SucI by blast+
  with i StartCheck show ?thesis by (auto simp: sys_inv_def split: if_splits)
qed (auto simp: sys_inv_def split: if_splits open_result.splits)

lemma sys_inv_step:
  assumes "sys_step m st = Some st'" and "sys_inv st"
  shows "sys_inv st'"
proof -
  obtain e ts where st: "st = (e, ts)" by fastforce
  show ?thesis
  proof (cases m)
    case (CallStep o')
    with assms st sys_inv_stop [of e "en_call e"] sys_inv_start [of o' e "en_call e"] show ?thesis
      by (auto split: option.splits)
  next
    case (LoopStep i h)
    with assms st show ?thesis
      by (auto simp: sys_inv_def split: if_splits dest!: loop_move_engine)
  qed (use assms st in \<open>auto simp: sys_inv_def split: if_splits\<close>)
qed

lemma sys_inv_run: "sys_run ms st = Some st' \<Longrightarrow> sys_inv st \<Longrightarrow> sys_inv st'"
  by (induction ms arbitrary: st) (auto split: option.splits dest: sys_inv_step)

section \<open>Without a connection\<close>

lemma stopCh_grows:
  assumes "sys_step m (e, ts) = Some (e', ts')"
  shows "en_stopCh e \<le> en_stopCh e'"
proof (cases m)
  case (CallStep o')
  with assms show ?thesis
    by (cases "en_call e") (auto split: if_splits open_result.splits)
qed (use assms in \<open>auto split: if_splits dest!: loop_move_engine\<close>)

definition asleep :: "nat \<Rightarrow> nat \<Rightarrow> engine \<times> goroutine list \<Rightarrow> bool" where
  "asleep i ch st \<longleftrightarrow> (case st of (e, ts) \<Rightarrow> en_stopCh e = ch \<and> en_conn e = None \<and> \<not> starting (en_call e)
     \<and> i < length ts \<and> ts ! i = ReaderTop)"

lemma asleep_stop: "stop_move e c = Some e' \<Longrightarrow> en_call e = c \<Longrightarrow> asleep i ch (e, ts) \<Longrightarrow> asleep i ch (e', ts)"
  by (cases c) (auto simp: asleep_def after_stop_def split: if_splits)

lemma asleep_start:
  "start_move o' e c = Some (e', new) \<Longrightarrow> en_call e = c \<Longrightarrow> asleep i ch (e, ts) \<Longrightarrow> en_stopCh e' = ch
     \<Longrightarrow> asleep i ch (e', ts @ new)"
proof (cases c)
  case StartCheck
  assume a: "start_move o' e c = Some (e', new)" "en_call e = c" "asleep i ch (e, ts)" "en_stopCh e' = ch"
  from a(1) StartCheck have "en_stopCh e' = Suc (en_stopCh e) \<or> (e' = e\<lparr>en_call := Idle\<rparr> \<and> new = [])" by auto
  with a(3,4) show ?thesis by (auto simp: asleep_def)
qed (auto simp: asleep_def)

lemma asleep_step:
  assumes "sys_step m (e, ts) = Some (e', ts')" and "asleep i ch (e, ts)" and "en_stopCh e' = ch"
  shows "asleep i ch (e', ts')"
proof (cases m)
  case (CallStep o')
  show ?thesis
  proof (cases "stop_move e (en_call e)")
    case None
    with assms(1) CallStep obtain new where "start_move o' e (en_call e) = Some (e', new)" "ts' = ts @ new" by auto
    with asleep_start [OF _ refl assms(2,3)] show ?thesis by simp
  next
    case (Some e2)
    with assms(1) CallStep have "e2 = e'" "ts' = ts" by auto
    with asleep_stop [OF Some refl assms(2)] show ?thesis by simp
  qed
next
  case (LoopStep j h)
  then obtain t' where j: "j < length ts" "loop_move h e (ts ! j) = Some (t', e')" "ts' = ts[j := t']"
    using assms(1) by (auto split: if_splits)
  have conn: "en_conn e = None" and top: "ts ! i = ReaderTop" using assms(2) by (simp_all add: asleep_def)
  have "t' = ReaderTop" if "j = i" using j(2) that conn top by (simp add: loop_move_def)
  then have "ts' ! i = ReaderTop" using j(1,3) top by (cases "j = i") simp_all
  moreover have "en_conn e' = None" "\<not> starting (en_call e')" "i < length ts'"
    using loop_move_engine [OF j(2)] assms(2) j(3) by (auto simp: asleep_def)
  ultimately show ?thesis using assms(3) by (simp add: asleep_def)
qed (use assms in \<open>auto simp: asleep_def split: if_splits\<close>)

lemma asleep_run:
  "sys_run ms (e, ts) = Some (e', ts') \<Longrightarrow> asleep i ch (e, ts) \<Longrightarrow> en_stopCh e' = ch
     \<Longrightarrow> asleep i ch (e', ts')"
proof (induction ms arbitrary: e ts)
  case (Cons m ms)
  then obtain e1 ts1 where 1: "sys_step m (e, ts) = Some (e1, ts1)" "sys_run ms (e1, ts1) = Some (e', ts')"
    by (auto split: option.splits)
  have "en_stopCh e1 \<le> en_stopCh e'" using 1(2)
  proof (induction ms arbitrary: e1 ts1)
    case (Cons m ms)
    then show ?case using stopCh_grows by (fastforce split: option.splits dest: order_trans)
  qed simp
  with stopCh_grows [OF 1(1)] Cons.prems(2,3) have "en_stopCh e1 = ch" by (simp add: asleep_def)
  from Cons.IH [OF 1(2) asleep_step [OF 1(1) Cons.prems(2) this] Cons.prems(3)] show ?case .
qed simp

section \<open>Properties\<close>

text \<open>
  C24: readers pile up. Let an engine be started once; for every number \<open>n\<close> there is a course
  of events in which the user calls nothing more, the connection dies \<open>n\<close> times, and afterwards
  the engine runs with \<open>n + 1\<close> readers, every one of them waiting for packets of the same
  connection and for the same stop channel. Each \<^verbatim>\<open>Reconnect\<close> closes the channel of the readers
  before it, but a reader that is between two rounds, or asleep because there is no connection,
  takes up the new channel from the field.
\<close>

theorem readers_pile_up:
  "\<exists>e0 ts0 e ts. sys_run (UserStart # replicate 3 (CallStep Opened)) (new_engine, []) = Some (e0, ts0)
    \<and> length (filter is_reader ts0) = 1 \<and> reaches (e0, ts0) (e, ts)
    \<and> en_running e \<and> en_call e = Idle \<and> en_conn e = Some (Suc n) \<and> en_stopCh e = Suc n \<and> Suc n \<notin> set (en_closed e)
    \<and> length (filter (\<lambda>t. t = ReaderWait (Suc n) (Suc n)) ts) = n + 1"
proof -
  let ?e0 = "new_engine\<lparr>en_stopCh := 1, en_conn := Some 1, en_session := True, en_running := True\<rparr>"
  have start: "sys_run (UserStart # replicate 3 (CallStep Opened)) (new_engine, []) = Some (?e0, five_loops)"
    by (simp add: numeral_3_eq_3 new_engine_def)
  have "\<exists>e ts. reaches (?e0, five_loops) (e, ts) \<and> up e \<and> en_stopCh e = Suc n \<and> readers_wait e (Suc n) ts
    \<and> (\<exists>first. PingTop first \<in> set ts)"
  proof (induction n)
    case 0
    have "up ?e0" "en_conn ?e0 = Some 1" by (simp_all add: up_def new_engine_def)
    with readers_take_up [of ?e0 1 five_loops] show ?case by fastforce
  next
    case (Suc n)
    then obtain e ts first where IH: "reaches (?e0, five_loops) (e, ts)" "up e" "en_stopCh e = Suc n" "readers_wait e (Suc n) ts"
      "PingTop first \<in> set ts" by blast
    from lost_connection_run [OF IH(2,4,5)] obtain ts' where
      "reaches (e, ts) (reborn e, ts')" "readers_wait (reborn e) (Suc (Suc n)) ts'" "PingTop True \<in> set ts'" by blast
    moreover have "en_stopCh (reborn e) = Suc (Suc n)" using IH(3) by (simp add: reborn_def)
    ultimately show ?case using reaches_trans [OF IH(1)] up_reborn [OF IH(2)] by blast
  qed
  then obtain e ts where r: "reaches (?e0, five_loops) (e, ts)" "up e" "en_stopCh e = Suc n" "readers_wait e (Suc n) ts"
    by blast
  have "filter (\<lambda>t. t = ReaderWait (Suc n) (Suc n)) ts = filter is_reader ts"
    by (rule filter_cong [OF refl]) (use r(2-4) in \<open>auto simp: readers_wait_def up_def\<close>)
  with r have "length (filter (\<lambda>t. t = ReaderWait (Suc n) (Suc n)) ts) = n + 1" by (simp add: readers_wait_def)
  moreover have "length (filter is_reader five_loops) = 1" by simp
  ultimately show ?thesis using start r(1-3) by (fastforce simp: up_def)
qed

text \<open>
  In every interleaving of calls, lost connections and loops the stop channel is closed at
  most once: no \<^verbatim>\<open>Stop\<close> that is about to close it finds it closed (which would panic), also not
  when the ping loop's \<^verbatim>\<open>Reconnect\<close> meets the user's \<^verbatim>\<open>Stop\<close>. The goroutines ever started are
  five for each closed channel and five more for the open channel of a running engine.
\<close>

theorem channel_closed_once:
  assumes "sys_run ms (new_engine, []) = Some (e, ts)"
  shows "distinct (en_closed e) \<and> (closing (en_call e) \<longrightarrow> stop_move e (en_call e) \<noteq> None)
    \<and> length ts = 5 * (length (en_closed e) + (if en_running e \<or> closing (en_call e) then 1 else 0))"
proof -
  have "sys_inv (new_engine, [])" by (simp add: sys_inv_def new_engine_def)
  from sys_inv_run [OF assms this] show ?thesis
    by (cases "en_call e") (auto simp: sys_inv_def)
qed

theorem channel_closed_once_witness:
  "\<exists>e. sys_run (UserStart # replicate 3 (CallStep Opened) @ [UserStop, CallStep Opened, CallStep Opened]) (new_engine, [])
      = Some (e, five_loops) \<and> en_call e = StopClose False \<and> stop_move e (StopClose False) \<noteq> None"
proof -
  obtain e where e: "sys_run (UserStart # replicate 3 (CallStep Opened) @ [UserStop, CallStep Opened, CallStep Opened]) (new_engine, [])
      = Some (e, five_loops)" "en_call e = StopClose False"
    by (simp add: numeral_3_eq_3 new_engine_def)
  from channel_closed_once [OF e(1)] e show ?thesis by simp
qed

text \<open>
  A client that the user stopped can come back. When the ping loop has just sent a ping
  and the user's \<^verbatim>\<open>Stop\<close> runs to its end before the loop looks at the time of the last packet,
  a dead connection still makes it call \<^verbatim>\<open>Reconnect\<close>, which starts the engine again: the flag
  \<^verbatim>\<open>stopping\<close> is already reset and the channel is not looked at on that way.
\<close>

theorem stopped_client_comes_back:
  assumes "up e" and "i < length ts" and "ts ! i = PingSent first"
  shows "\<exists>e1 e2 ts2. sys_run (UserStop # replicate 6 (CallStep Opened)) (e, ts) = Some (e1, ts)
    \<and> \<not> en_running e1 \<and> en_call e1 = Idle \<and> en_conn e1 = None \<and> en_stopCh e1 \<in> set (en_closed e1)
    \<and> reaches (e1, ts) (e2, ts2) \<and> en_running e2 \<and> en_call e2 = Idle \<and> en_conn e2 \<noteq> None \<and> length ts2 = length ts + 5"
proof -
  let ?e1 = "e\<lparr>en_closed := en_stopCh e # en_closed e, en_running := False, en_conn := None, en_session := False\<rparr>"
  have "en_stopCh e \<notin> set (en_closed e)" using assms(1) by (auto simp: up_def)
  then have s: "sys_run (UserStop # replicate 6 (CallStep Opened)) (e, ts) = Some (?e1, ts)"
    using assms(1) by (simp add: numeral_eq_Suc up_def after_stop_def)
  obtain us vs where ts: "ts = us @ PingSent first # vs" using assms(2,3) by (metis id_take_nth_drop)
  have idle: "en_call e = Idle" "\<not> en_stopping e" using assms(1) by (simp_all add: up_def)
  have "reaches (?e1, us @ PingSent first # vs) (?e1, us @ PingReconnect # vs)"
    by (rule reaches_loop [of Dead]) (simp add: loop_move_def)
  also have "reaches (?e1, us @ PingReconnect # vs) (?e1\<lparr>en_call := StopFlag True\<rparr>, us @ Ended # vs)"
    by (rule reaches_loop [of Dead]) (simp add: loop_move_def idle)
  also have "reaches (?e1\<lparr>en_call := StopFlag True\<rparr>, us @ Ended # vs)
      (?e1\<lparr>en_stopping := True, en_call := StopLocked True\<rparr>, us @ Ended # vs)"
    by (rule reaches_call) simp
  also have "reaches (?e1\<lparr>en_stopping := True, en_call := StopLocked True\<rparr>, us @ Ended # vs)
      (?e1\<lparr>en_stopping := False, en_call := StartCheck\<rparr>, us @ Ended # vs)"
    by (rule reaches_call) (simp add: after_stop_def)
  also have "reaches (?e1\<lparr>en_stopping := False, en_call := StartCheck\<rparr>, us @ Ended # vs)
      (restarted (?e1\<lparr>en_stopping := False, en_call := StartCheck\<rparr>), (us @ Ended # vs) @ five_loops)"
    by (rule start_runs) simp_all
  finally have r: "reaches (?e1, ts) (restarted (?e1\<lparr>en_stopping := False, en_call := StartCheck\<rparr>), (us @ Ended # vs) @ five_loops)"
    by (simp only: ts)
  show ?thesis
    by (rule exI [of _ ?e1], rule exI [of _ "restarted (?e1\<lparr>en_stopping := False, en_call := StartCheck\<rparr>)"],
        rule exI [of _ "(us @ Ended # vs) @ five_loops"])
      (use s r idle in \<open>simp add: restarted_def ts\<close>)
qed

theorem stopped_client_comes_back_witness:
  "\<exists>e ts e1 e2 ts2. sys_run (UserStart # replicate 3 (CallStep Opened) @ [LoopStep 0 Timer]) (new_engine, []) = Some (e, ts)
    \<and> sys_run (UserStop # replicate 6 (CallStep Opened)) (e, ts) = Some (e1, ts) \<and> \<not> en_running e1
    \<and> reaches (e1, ts) (e2, ts2) \<and> en_running e2"
proof -
  let ?e = "new_engine\<lparr>en_stopCh := 1, en_conn := Some 1, en_session := True, en_running := True\<rparr>"
  let ?ts = "[PingSent True, RouteTop, ReaderTop, WriterTop, StatsTop]"
  have "sys_run (UserStart # replicate 3 (CallStep Opened) @ [LoopStep 0 Timer]) (new_engine, []) = Some (?e, ?ts)"
    by (simp add: numeral_3_eq_3 new_engine_def loop_move_def)
  moreover have "up ?e" by (simp add: up_def new_engine_def)
  ultimately show ?thesis using stopped_client_comes_back [of ?e 0 ?ts True] by fastforce
qed

text \<open>
  The reader of a stopped client never ends. A reader that is at the start of its round
  when the client has no connection stays there, whatever the user, the network and the other
  goroutines do, as long as no new start makes another stop channel: closing the channel
  does not end it.
\<close>

theorem sleeping_reader_never_ends:
  assumes "sys_run ms (e, ts) = Some (e', ts')" and "en_conn e = None" and "\<not> starting (en_call e)"
    and "i < length ts" and "ts ! i = ReaderTop" and "en_stopCh e' = en_stopCh e"
  shows "ts' ! i = ReaderTop \<and> en_conn e' = None"
proof -
  have "asleep i (en_stopCh e) (e, ts)" using assms(2-5) by (simp add: asleep_def)
  from asleep_run [OF assms(1) this assms(6)] show ?thesis by (simp add: asleep_def)
qed

theorem sleeping_reader_never_ends_witness:
  "\<exists>e ts. sys_run (UserStart # replicate 3 (CallStep Opened) @ UserStop # replicate 6 (CallStep Opened)) (new_engine, []) = Some (e, ts)
    \<and> en_stopCh e \<in> set (en_closed e)
    \<and> (\<exists>e' ts'. sys_run (replicate 5 (LoopStep 2 SeesStop)) (e, ts) = Some (e', ts') \<and> ts' ! 2 = ReaderTop)"
proof -
  let ?e = "new_engine\<lparr>en_stopCh := 1, en_closed := [1]\<rparr>"
  have s: "sys_run (UserStart # replicate 3 (CallStep Opened) @ UserStop # replicate 6 (CallStep Opened)) (new_engine, [])
      = Some (?e, five_loops)"
    by (simp add: numeral_eq_Suc new_engine_def after_stop_def)
  have "sys_run (replicate 5 (LoopStep 2 SeesStop)) (?e, five_loops) = Some (?e, five_loops)"
    by (simp add: numeral_eq_Suc new_engine_def loop_move_def)
  from s this sleeping_reader_never_ends [OF this, of 2] show ?thesis by (auto simp: new_engine_def)
qed

end
