(* ===== verification/Onboarding.thy ===== *)
theory Onboarding
  imports System Gui Services Profiles
begin

text \<open>
  From the panel to a running client: the configuration the panel hands out for a user, read
  by \<^verbatim>\<open>StartVPN\<close> on Android, or imported by the desktop application, applied to the fields of
  its window and passed on by the connect button.
\<close>

section \<open>Reading the file\<close>

text \<open>The panel's file as \<^verbatim>\<open>encoding/json\<close> reads it into a configuration: both structs have the
  same field tags, and a field the file does not have keeps its value.\<close>

definition panel_json :: "ClientCfg \<Rightarrow> Config \<Rightarrow> Config" where
  "panel_json cc c = c\<lparr>cfg_ProfileName := cc_ProfileName cc, cfg_ServerIP := cc_ServerIP cc, cfg_Port := cc_Port cc,
     cfg_ShortID := cc_ShortID cc, cfg_SecretKey := cc_SecretKey cc, cfg_RoutingSalt := cc_RoutingSalt cc,
     cfg_InternalIP := cc_InternalIP cc, cfg_GatewayIP := cc_GatewayIP cc, cfg_DNS := cc_DNS cc\<rparr>"

text \<open>The window's \<^verbatim>\<open>applyCfg\<close>: \<open>w\<close> holds the fields before; an empty field and a zero number
  of the result leave them, but not the transport.\<close>

definition applyCfg :: "ConfigResult \<Rightarrow> connect_args \<Rightarrow> connect_args" where
  "applyCfg c w =
     \<lparr>ca_serverIP = (if res_ServerIP c = [] then ca_serverIP w else res_ServerIP c),
      ca_secretKey = (if res_SecretKey c = [] then ca_secretKey w else res_SecretKey c),
      ca_routingSalt = (if res_RoutingSalt c = [] then ca_routingSalt w else res_RoutingSalt c),
      ca_internalIP = (if res_InternalIP c = [] then ca_internalIP w else res_InternalIP c),
      ca_gatewayIP = (if res_GatewayIP c = [] then ca_gatewayIP w else res_GatewayIP c),
      ca_dns = (if res_DNS c = [] then ca_dns w else res_DNS c),
      ca_transport = (if res_Transport c = [] then ''auto'' else res_Transport c),
      ca_cdnDomain = res_CDNDomain c,
      ca_port = (if res_Port c = 0 then ca_port w else res_Port c),
      ca_shortID = (if res_ShortID c = 0 then ca_shortID w else res_ShortID c)\<rparr>"

section \<open>The users behind the panel's files\<close>

text \<open>Every peer of a started server comes from the configured users.\<close>

lemma register_users_known:
  assumes "register_users C us s = Ok s'" and "peers_inv s" and "\<not> cfg_NoEncrypt (s_cfg s)"
    and "map_of (s_peers s') k = Some r"
  shows "map_of (s_peers s) k = Some r \<or> (\<exists>(u, seed) \<in> set us. u_ShortID u = k \<and> k \<noteq> 0
      \<and> p_KeyRaw (s_store s' r) = u_SecretKey u \<and> p_ShortID (s_store s' r) = k)"
  using assms
proof (induction us arbitrary: s)
  case (Cons x us)
  obtain u seed where x: "x = (u, seed)" by (cases x)
  let ?key = "c_sha C (str_bytes (u_SecretKey u))"
  from Cons.prems(1,3) obtain cp where new: "map_of (s_peers s) (u_ShortID u) = None" and nz: "u_ShortID u \<noteq> 0"
    and rest: "register_users C us (add_peer (new_peer (u_ShortID u) (u_Name u) (u_SecretKey u) ?key (Some cp) (u_IP u)) s) = Ok s'"
    by (cases "NewCipherPack C ?key seed")
      (auto simp: x Let_def split: if_splits simp del: map_of_eq_None_iff)
  define p where "p = new_peer (u_ShortID u) (u_Name u) (u_SecretKey u) ?key (Some cp) (u_IP u)"
  have sid: "p_ShortID p = u_ShortID u" "p_KeyRaw p = u_SecretKey u" by (simp_all add: p_def new_peer_def)
  have fresh: "map_of (s_peers s) (p_ShortID p) = None" using new sid(1) by simp
  note add = peers_inv_add_peer(1) [OF Cons.prems(2) fresh]
  have cfg: "\<not> cfg_NoEncrypt (s_cfg (add_peer p s))" using Cons.prems(3) by simp
  have filed: "map_of (s_peers (add_peer p s)) j = (if j = u_ShortID u then Some (s_nextRef s) else map_of (s_peers s) j)"
      "s_store (add_peer p s) (s_nextRef s) = p" for j
    by (simp_all add: add_peer_def Let_def update_conv' sid(1) del: map_of_eq_Some_iff)
  note kept = conjunct1 [OF register_users_files [OF rest [folded p_def] add cfg]]
  show ?case
  proof (cases "k = u_ShortID u")
    case True
    with kept filed have "map_of (s_peers s') k = Some (s_nextRef s)" "s_store s' (s_nextRef s) = p" by metis+
    with Cons.prems(4) sid True nz show ?thesis by (auto simp: x)
  next
    case False
    with Cons.IH [OF rest [folded p_def] add cfg Cons.prems(4)] filed show ?thesis by (auto simp: x)
  qed
qed simp

text \<open>What the panel's file of a registered user says, and that its owner is paired with the server.\<close>

lemma panel_file_of_user:
  assumes "register_users go_crypto us (init_server cfg) = Ok s" and "\<not> cfg_NoEncrypt cfg"
    and "serveConfig sid (init_panel s) = (200, ConfigBody cc name)"
  obtains u seed where "(u, seed) \<in> set us" and "sid \<noteq> 0" and "u_ShortID u = sid"
    and "cc_SecretKey cc = u_SecretKey u" and "cc_ShortID cc = sid" and "cc_RoutingSalt cc = cfg_RoutingSalt cfg"
    and "cc_ServerIP cc = cfg_ServerIP cfg" and "cc_Port cc = cfg_Port cfg"
proof -
  obtain r where r: "map_of (s_peers s) sid = Some r" and cc: "cc = buildClientCfg (s_cfg s) (s_store s r)"
    using assms(3) by (auto simp: serveConfig_def init_panel_def Let_def split: option.splits)
  note inv = server_inv_peers_inv [OF server_inv_init, of cfg]
  have init: "s_cfg (init_server cfg) = cfg" "s_peers (init_server cfg) = []" by (simp_all add: init_server_def)
  have cfg: "s_cfg s = cfg" using register_users_files [OF assms(1) inv] assms(2) init by simp
  obtain u seed where u: "(u, seed) \<in> set us" "u_ShortID u = sid" "sid \<noteq> 0" "p_KeyRaw (s_store s r) = u_SecretKey u"
      "p_ShortID (s_store s r) = sid"
    using register_users_known [OF assms(1) inv _ r] assms(2) init by (auto simp del: map_of_eq_Some_iff)
  show ?thesis
    by (rule that [OF u(1,3,2)]) (simp_all add: cc cfg buildClientCfg_def u)
qed

lemma panel_pair:
  assumes "register_users go_crypto us (init_server cfg) = Ok s" and "\<not> cfg_NoEncrypt cfg"
    and "serveConfig sid (init_panel s) = (200, ConfigBody cc name)"
    and "cfg_SecretKey ccfg = cc_SecretKey cc" and "cfg_ShortID ccfg = cc_ShortID cc"
    and "cfg_RoutingSalt ccfg = cc_RoutingSalt cc" and "\<not> cfg_NoEncrypt ccfg"
  shows "\<exists>r. paired s (New go_crypto seeds ccfg l) r (DeriveKey go_crypto (cc_SecretKey cc)) (DeriveKey go_crypto (cc_SecretKey cc))
    \<and> s_bloom s = bloom_zero"
proof -
  obtain u seed where "(u, seed) \<in> set us" "u_ShortID u = sid" "cc_SecretKey cc = u_SecretKey u" "cc_ShortID cc = sid"
      "cc_RoutingSalt cc = cfg_RoutingSalt cfg"
    by (rule panel_file_of_user [OF assms(1-3)])
  with std.started_pair [OF assms(1,2), of u seed ccfg seeds l] assms(4-7) show ?thesis by simp
qed

text \<open>The import of the desktop application and the configuration its connect button builds.\<close>

lemma imported_window_config:
  assumes "map_of fs p = Some content" and "decode content zero_Config = panel_json cc zero_Config"
    and "ImportConfig decode encode exe ok p fs = (res, fs')"
    and "cc_ServerIP cc \<noteq> []" and "cc_SecretKey cc \<noteq> []" and "cc_ShortID cc \<noteq> 0" and "cc_Port cc \<noteq> 0"
    and "cc_RoutingSalt cc \<noteq> []"
  shows "cfg_ServerIP (connect_config (applyCfg res w) a) = cc_ServerIP cc"
    and "cfg_Port (connect_config (applyCfg res w) a) = cc_Port cc"
    and "cfg_ShortID (connect_config (applyCfg res w) a) = cc_ShortID cc"
    and "cfg_SecretKey (connect_config (applyCfg res w) a) = cc_SecretKey cc"
    and "cfg_RoutingSalt (connect_config (applyCfg res w) a) = cc_RoutingSalt cc"
    and "\<not> cfg_NoEncrypt (connect_config (applyCfg res w) a)"
    and "resolvePriorities (connect_config (applyCfg res w) a) = [''udp'']"
proof -
  have l: "load_path decode fs p = Inr (SetDefaults (panel_json cc zero_Config))"
    using assms(1,2) by (simp add: load_path_def LoadConfig_def ReadFile_def)
  have "res = toResult (import_config (SetDefaults (panel_json cc zero_Config)))"
    using assms(3) l by (simp add: ImportConfig_def importToProfiles_def import_config_def Let_def)
  then have res: "res_ServerIP res = cc_ServerIP cc" "res_Port res = cc_Port cc" "res_ShortID res = cc_ShortID cc"
      "res_SecretKey res = cc_SecretKey cc" "res_RoutingSalt res = cc_RoutingSalt cc" "res_Transport res = ''auto''"
      "res_CDNDomain res = []"
    using assms(7,8) by (simp_all add: toResult_def import_config_def panel_json_def SetDefaults_def zero_Config_def)
  show "cfg_ServerIP (connect_config (applyCfg res w) a) = cc_ServerIP cc"
    and "cfg_Port (connect_config (applyCfg res w) a) = cc_Port cc"
    and "cfg_ShortID (connect_config (applyCfg res w) a) = cc_ShortID cc"
    and "cfg_SecretKey (connect_config (applyCfg res w) a) = cc_SecretKey cc"
    and "cfg_RoutingSalt (connect_config (applyCfg res w) a) = cc_RoutingSalt cc"
    and "\<not> cfg_NoEncrypt (connect_config (applyCfg res w) a)"
    and "resolvePriorities (connect_config (applyCfg res w) a) = [''udp'']"
    using assms(4-8) res by (simp_all add: connect_config_def applyCfg_def resolvePriorities_def zero_Config_def)
qed

section \<open>Samples\<close>

definition sample_panel_cfg :: Config where
  "sample_panel_cfg = SetDefaults (zero_Config\<lparr>cfg_ServerIP := ''192.0.2.1''\<rparr>)"

lemma sample_panel_cfg:
  "config_valid sample_panel_cfg" "\<not> cfg_NoEncrypt sample_panel_cfg" "cfg_ServerIP sample_panel_cfg \<noteq> []"
  by (simp add: sample_panel_cfg_def config_valid_SetDefaults)
    (simp_all add: sample_panel_cfg_def SetDefaults_def zero_Config_def)

definition sample_window :: connect_args where
  "sample_window = \<lparr>ca_serverIP = ''45.134.39.18'', ca_secretKey = [], ca_routingSalt = ''HastaVaquetGlobal'',
     ca_internalIP = ''10.0.0.10'', ca_gatewayIP = ''192.168.100.1'', ca_dns = ''1.1.1.1'', ca_transport = ''auto'',
     ca_cdnDomain = [], ca_port = 19999, ca_shortID = 1\<rparr>"

lemma sample_panel_file:
  obtains s cc name where "register_users go_crypto [(sample_user, 7)] (init_server sample_panel_cfg) = Ok s"
    and "serveConfig 3 (init_panel s) = (200, ConfigBody cc name)" and "cc_SecretKey cc = ''secret''"
proof -
  let ?us = "[(sample_user, 7 :: 64 word)]"
  note inv = server_inv_peers_inv [OF server_inv_init, of sample_panel_cfg]
  obtain s where s: "register_users go_crypto ?us (init_server sample_panel_cfg) = Ok s"
    using register_users_Ok [of go_crypto ?us "init_server sample_panel_cfg"] inv
    by (auto simp: sample_user_def init_server_def peers_have_cp_def std.key32_ok std.length_sha)
  have cfg: "\<not> cfg_NoEncrypt (s_cfg (init_server sample_panel_cfg))" using sample_panel_cfg by (simp add: init_server_def)
  from register_users_files [OF s inv cfg] obtain r where r: "map_of (s_peers s) 3 = Some r"
    by (auto simp: sample_user_def)
  then obtain cc name where f: "serveConfig 3 (init_panel s) = (200, ConfigBody cc name)"
    by (auto simp: serveConfig_def init_panel_def Let_def simp del: map_of_eq_Some_iff)
  obtain u seed where "(u, seed) \<in> set ?us" "cc_SecretKey cc = u_SecretKey u"
    by (rule panel_file_of_user [OF s sample_panel_cfg(2) f])
  then have "cc_SecretKey cc = ''secret''" by (simp add: sample_user_def)
  with s f show ?thesis by (rule that)
qed

section \<open>Properties\<close>

text \<open>
  The file the panel hands out for a configured user starts the Android client:
  \<^verbatim>\<open>StartVPN\<close> answers ok, the engine runs over the dialled UDP connection, with the server's
  address and port and the user's short id in its configuration, and it is paired with the
  server: the same keys, the server's routing salt, and an empty replay filter.
\<close>

theorem panel_file_starts_android:
  assumes "register_users go_crypto us (init_server cfg) = Ok s" and "\<not> cfg_NoEncrypt cfg" and "config_valid cfg"
    and "serveConfig sid (init_panel s) = (200, ConfigBody cc name)"
    and "\<And>v. aa_globalVPN a = Some v \<Longrightarrow> \<not> v_running v"
  shows "\<exists>a' effs v r. StartVPN go_crypto seeds (Inr conn) now (Inr (panel_json cc zero_Config)) True a = (''ok'', a', effs)
    \<and> aa_globalVPN a' = Some v \<and> v_running v \<and> v_conn v = Some conn
    \<and> cfg_ServerIP (v_config v) = cfg_ServerIP cfg \<and> cfg_Port (v_config v) = cfg_Port cfg \<and> cfg_ShortID (v_config v) = sid
    \<and> paired s v r (DeriveKey go_crypto (cc_SecretKey cc)) (DeriveKey go_crypto (cc_SecretKey cc)) \<and> s_bloom s = bloom_zero"
proof -
  let ?c = "android_defaults (panel_json cc zero_Config)"
  let ?n = "New go_crypto seeds ?c True"
  obtain u seed where u: "cc_ShortID cc = sid" "cc_RoutingSalt cc = cfg_RoutingSalt cfg" "cc_ServerIP cc = cfg_ServerIP cfg"
      "cc_Port cc = cfg_Port cfg"
    by (rule panel_file_of_user [OF assms(1,2,4)])
  have salt: "cfg_RoutingSalt cfg \<noteq> []" and port: "cfg_Port cfg \<noteq> 0" using assms(3) by (simp_all add: config_valid_def)
  have c: "cfg_SecretKey ?c = cc_SecretKey cc" "cfg_ShortID ?c = cc_ShortID cc" "cfg_RoutingSalt ?c = cc_RoutingSalt cc"
      "\<not> cfg_NoEncrypt ?c" "cfg_ServerIP ?c = cc_ServerIP cc" "cfg_Port ?c = cc_Port cc"
    using u salt port by (simp_all add: android_defaults_def panel_json_def zero_Config_def)
  obtain r where r: "paired s ?n r (DeriveKey go_crypto (cc_SecretKey cc)) (DeriveKey go_crypto (cc_SecretKey cc))"
      "s_bloom s = bloom_zero"
    using panel_pair [OF assms(1,2,4) c(1-4), of seeds True] by blast
  have n: "v_config ?n = ?c" "\<not> v_running ?n" by (cases seeds; simp add: New_def Let_def)+
  define v where "v = ?n\<lparr>v_stopOpen := True, v_lastAliveMs := now, v_lastPacketRx := now, v_conn := Some conn,
    v_running := True, v_echo := echoReset (v_echo ?n)\<rparr>"
  have v: "v_config v = ?c" "v_running v" "v_conn v = Some conn" "paired s v r k k' \<longleftrightarrow> paired s ?n r k k'" for k k'
    using paired_cong [of v ?n] n by (simp_all add: v_def)
  have idle: "\<not> (case aa_globalVPN a of None \<Rightarrow> False | Some v \<Rightarrow> v_running v)"
    using assms(5) by (auto split: option.split)
  have "\<exists>a' effs. StartVPN go_crypto seeds (Inr conn) now (Inr (panel_json cc zero_Config)) True a = (''ok'', a', effs)
    \<and> aa_globalVPN a' = Some v"
    using idle n(2) by (simp add: StartVPN_def Start_def android_ops_def android_openTunnel_def Let_def v_def)
  then obtain a' effs where a': "StartVPN go_crypto seeds (Inr conn) now (Inr (panel_json cc zero_Config)) True a = (''ok'', a', effs)"
    "aa_globalVPN a' = Some v" by blast
  have "paired s v r (DeriveKey go_crypto (cc_SecretKey cc)) (DeriveKey go_crypto (cc_SecretKey cc))"
    using v(4) r(1) by simp
  with a' v(1-3) r(2) c(2,5,6) u show ?thesis by (metis (no_types))
qed

theorem panel_file_starts_android_witness:
  "\<exists>s cc name a' effs v r. register_users go_crypto [(sample_user, 7)] (init_server sample_panel_cfg) = Ok s
    \<and> serveConfig 3 (init_panel s) = (200, ConfigBody cc name)
    \<and> StartVPN go_crypto (1, 2, 3) (Inr 4) 0 (Inr (panel_json cc zero_Config)) True
        \<lparr>aa_globalVPN = None, aa_plat = \<lparr>ap_tunFile = False, ap_protector = False\<rparr>, aa_listener = zero_status, aa_state = zero_status\<rparr>
        = (''ok'', a', effs)
    \<and> aa_globalVPN a' = Some v \<and> paired s v r (DeriveKey go_crypto ''secret'') (DeriveKey go_crypto ''secret'')"
proof -
  obtain s cc name where s: "register_users go_crypto [(sample_user, 7)] (init_server sample_panel_cfg) = Ok s"
    and f: "serveConfig 3 (init_panel s) = (200, ConfigBody cc name)" and k: "cc_SecretKey cc = ''secret''"
    by (rule sample_panel_file)
  let ?a = "\<lparr>aa_globalVPN = None, aa_plat = \<lparr>ap_tunFile = False, ap_protector = False\<rparr>, aa_listener = zero_status,
    aa_state = zero_status\<rparr>"
  from panel_file_starts_android [OF s sample_panel_cfg(2,1) f, of ?a "(1, 2, 3)" 4 0] obtain a' effs v r where
    "StartVPN go_crypto (1, 2, 3) (Inr 4) 0 (Inr (panel_json cc zero_Config)) True ?a = (''ok'', a', effs)"
    "aa_globalVPN a' = Some v" "paired s v r (DeriveKey go_crypto ''secret'') (DeriveKey go_crypto ''secret'')"
    unfolding k by auto
  with s f show ?thesis by blast
qed

text \<open>
  C20: the file the panel hands out for a configured user, imported by the desktop
  application and applied to its window, gives an engine that is paired with the server. The
  connect button passes neither the transport list \<^verbatim>\<open>wss, udp\<close> that the import fills in nor
  a port for WebSockets, so the engine dials the server's UDP port and nothing else, whether
  or not that works; a started server listens there.
\<close>

theorem panel_file_connects_window:
  assumes "register_users go_crypto us (init_server cfg) = Ok s" and "\<not> cfg_NoEncrypt cfg" and "config_valid cfg"
    and "serveConfig sid (init_panel s) = (200, ConfigBody cc name)" and "start_services e cfg = (effs, Ok ())"
    and "cfg_ServerIP cfg \<noteq> []" and "cc_SecretKey cc \<noteq> []"
    and "map_of fs p = Some content" and "decode content zero_Config = panel_json cc zero_Config"
    and "ImportConfig decode encode exe ok p fs = (res, fs')"
  shows "\<exists>r. paired s (New go_crypto seeds (connect_config (applyCfg res w) a) True) r
        (DeriveKey go_crypto (cc_SecretKey cc)) (DeriveKey go_crypto (cc_SecretKey cc))
    \<and> tm_Dial net (NewTransportManager (connect_config (applyCfg res w) a)) =
        (let tm = NewTransportManager (connect_config (applyCfg res w) a); req = DialRawUDP (cfg_ServerIP cfg) (cfg_Port cfg)
         in case net 0 req of
              None \<Rightarrow> (Inr ((0, req), ''udp''), tm\<lparr>tm_conn := Some (0, req), tm_active := ''udp'', tm_attempts := 1\<rparr>)
            | Some err \<Rightarrow> (Inl (''all transports failed, last error: '' @ err), tm\<lparr>tm_attempts := 1\<rparr>))
    \<and> offers effs (dial_target (DialRawUDP (cfg_ServerIP cfg) (cfg_Port cfg)))"
proof -
  let ?c = "connect_config (applyCfg res w) a"
  obtain u seed where u: "sid \<noteq> 0" "cc_ShortID cc = sid" "cc_RoutingSalt cc = cfg_RoutingSalt cfg" "cc_ServerIP cc = cfg_ServerIP cfg"
      "cc_Port cc = cfg_Port cfg"
    by (rule panel_file_of_user [OF assms(1,2,4)])
  have nz: "cc_ServerIP cc \<noteq> []" "cc_ShortID cc \<noteq> 0" "cc_Port cc \<noteq> 0" "cc_RoutingSalt cc \<noteq> []"
    using assms(3,6) u by (simp_all add: config_valid_def)
  note w = imported_window_config [OF assms(8-10) nz(1) assms(7) nz(2-4), of w a]
  from panel_pair [OF assms(1,2,4) w(4,3,5,6), of seeds True] obtain r where
    "paired s (New go_crypto seeds ?c True) r (DeriveKey go_crypto (cc_SecretKey cc)) (DeriveKey go_crypto (cc_SecretKey cc))"
    by blast
  moreover have "offers effs (dial_target (DialRawUDP (cfg_ServerIP cfg) (cfg_Port cfg)))"
    using offers_started(1) [OF assms(5)] by simp
  ultimately show ?thesis
    using w(1,2,7) u
    by (auto simp: tm_Dial_def NewTransportManager_def dialTransport_def dial_net_def Let_def split: option.split)
qed

theorem panel_file_connects_window_witness:
  "\<exists>s cc name res fs' effs r. register_users go_crypto [(sample_user, 7)] (init_server sample_panel_cfg) = Ok s
    \<and> serveConfig 3 (init_panel s) = (200, ConfigBody cc name)
    \<and> ImportConfig (\<lambda>_. panel_json cc) (\<lambda>_. ''{}'') [''app''] True [''u.json''] [([''u.json''], ''{}'')] = (res, fs')
    \<and> paired s (New go_crypto (1, 2, 3) (connect_config (applyCfg res sample_window) (NewApp init_winPlatform)) True) r
        (DeriveKey go_crypto ''secret'') (DeriveKey go_crypto ''secret'')
    \<and> offers effs (dial_target (DialRawUDP ''192.0.2.1'' 19999))"
proof -
  obtain s cc name where s: "register_users go_crypto [(sample_user, 7)] (init_server sample_panel_cfg) = Ok s"
    and f: "serveConfig 3 (init_panel s) = (200, ConfigBody cc name)" and k: "cc_SecretKey cc = ''secret''"
    by (rule sample_panel_file)
  obtain effs where e: "start_services sample_start sample_panel_cfg = (effs, Ok ())" using sample_started_services by blast
  obtain res fs' where i: "ImportConfig (\<lambda>_. panel_json cc) (\<lambda>_. ''{}'') [''app''] True [''u.json''] [([''u.json''], ''{}'')] = (res, fs')"
    by fastforce
  have c: "map_of [([''u.json''], ''{}'')] [''u.json''] = Some ''{}''" by simp
  have n: "cc_SecretKey cc \<noteq> []" by (simp add: k)
  from panel_file_connects_window [OF s sample_panel_cfg(2,1) f e sample_panel_cfg(3) n c refl i,
      of "(1, 2, 3)" sample_window]
  have w: "\<exists>r. paired s (New go_crypto (1, 2, 3) (connect_config (applyCfg res sample_window) (NewApp init_winPlatform)) True) r
        (DeriveKey go_crypto ''secret'') (DeriveKey go_crypto ''secret'')"
    and o: "offers effs (dial_target (DialRawUDP (cfg_ServerIP sample_panel_cfg) (cfg_Port sample_panel_cfg)))"
    unfolding k by blast+
  have "cfg_ServerIP sample_panel_cfg = ''192.0.2.1''" "cfg_Port sample_panel_cfg = 19999"
    by (simp_all add: sample_panel_cfg_def SetDefaults_def zero_Config_def)
  with s f i w o show ?thesis by auto
qed

end
