(* ===== verification/Spec2Isabelle.thy ===== *)
theory Spec2Isabelle
  imports Transport System Gui Health Paths Profiles Genome Conns Services Cli Tls Bench Schedules Shared Reader Flusher
    Loops Onboarding
begin

text \<open>
  \<^bold>\<open>Hasta-Vaquet: a model of the VPN's client and server.\<close>

  The program is a VPN. A client (Windows or Android, \<^verbatim>\<open>src/core\<close>) takes IP packets from a
  virtual device, encrypts each into a self-contained frame and sends it over one of several
  transports; the server (\<^verbatim>\<open>src/server\<close>) finds the peer by the routing header, filters
  replays, decrypts and writes the packet to its own device, and sends the packets of its
  device back to the peer that owns the destination address. Both sides share the package
  \<^verbatim>\<open>src/protocol\<close>. The server is managed through a web panel.

  \<^bold>\<open>Theories and the code they model.\<close>

  \<^item> \<open>Prelude\<close>: outcomes (value, error, panic), byte strings and slices, big-endian numbers.
  \<^item> \<open>Sha256\<close>, \<open>Aes_Gcm\<close>, \<open>Crypto\<close>: the functions of the standard library the code calls
    (SHA-256, HMAC, AES, GCM), executable; the locale \<open>crypto_laws\<close> states what the rest
    relies on and is interpreted on them (\<open>go_crypto\<close>).
  \<^item> \<open>Fnv\<close>, \<open>Quic\<close>, \<open>Cipher\<close>: \<^verbatim>\<open>protocol/cipher.go\<close>, \<^verbatim>\<open>protocol/quic.go\<close>: hashes, the padding
    generator, the QUIC header, \<^verbatim>\<open>Encrypt\<close> and \<^verbatim>\<open>Decrypt\<close> in all three modes.
  \<^item> \<open>Config\<close>: \<^verbatim>\<open>protocol/config.go\<close> and the loading in \<^verbatim>\<open>server/server.go\<close>, \<^verbatim>\<open>core/gomobile.go\<close>.
  \<^item> \<open>Transport\<close>: \<^verbatim>\<open>core/transport.go\<close> (choice of transport, fallback), \<^verbatim>\<open>protocol/transport.go\<close>.
  \<^item> \<open>Bloom\<close>, \<open>Peers\<close>, \<open>Handlers\<close>, \<open>Wire\<close>, \<open>Downlink\<close>, \<open>Server\<close>: \<^verbatim>\<open>server/server.go\<close> and
    \<^verbatim>\<open>server/wss_server.go\<close>: the replay filter, the peer tables, \<^verbatim>\<open>processPacket\<close> and the XHTTP
    handler, the socket readers together with the client's framing connections, the device
    reader and the statistics, and the events of the whole server.
  \<^item> \<open>WebPanel\<close>: \<^verbatim>\<open>server/webpanel.go\<close>: every handler, authentication and routing.
  \<^item> \<open>Echo\<close>, \<open>Client\<close>, \<open>Tunnel\<close>, \<open>Lifecycle\<close>: \<^verbatim>\<open>core/vpn.go\<close>, \<^verbatim>\<open>core/vpn_windows.go\<close>,
    \<^verbatim>\<open>core/vpn_android.go\<close>, \<^verbatim>\<open>core/vpn_other.go\<close>, \<^verbatim>\<open>core/gomobile.go\<close>, \<^verbatim>\<open>core/killswitch*.go\<close>:
    the ping statistics, the engine with its writers and readers, the Windows tunnel with
    the commands it runs, and Start, Stop, Reconnect over the platform interface
    \<open>platform_laws\<close>, interpreted on the three platforms.
  \<^item> \<open>Strings\<close>, \<open>Health\<close>: the string functions the code uses, and \<^verbatim>\<open>server/health_linux.go\<close>.
  \<^item> \<open>Conns\<close>, \<open>Tls\<close>: the client's WebSocket connection, the packet connections and listeners
    of \<^verbatim>\<open>protocol/transport.go\<close> under one contract (\<open>packet_pipe\<close>, which the laws of a WebSocket
    link, \<open>ws_link\<close>, and UDP sockets give), and the TLS helpers of \<^verbatim>\<open>protocol/tls.go\<close>.
  \<^item> \<open>Services\<close>: the start-up of \<^verbatim>\<open>server/server.go\<close>, the HTTP servers of
    \<^verbatim>\<open>server/wss_server.go\<close>, and what the client's diallers aim at.
  \<^item> \<open>Gui\<close>, \<open>Profiles\<close>: \<^verbatim>\<open>gui/app.go\<close>: the buttons and settings of the desktop window over the
    engine, and its profile files.
  \<^item> \<open>Cli\<close>: \<^verbatim>\<open>main_cli.go\<close>, the command line client.
  \<^item> \<open>Genome\<close>, \<open>Bench\<close>: the tools \<^verbatim>\<open>cmd/protocol-test\<close> (a random search, in the state monad),
    \<^verbatim>\<open>cmd/bench\<close> and \<^verbatim>\<open>cmd/echotest\<close>.
  \<^item> \<open>Races\<close>, \<open>Schedules\<close>: the goroutines of \<^verbatim>\<open>server/server.go\<close> again, cut at their locks and
    critical sections, and what holds along every schedule of them. \<open>Shared\<close>: \<^verbatim>\<open>Encrypt\<close> on a
    context that several goroutines use, as \<^verbatim>\<open>main_cli.go\<close> does. \<open>Reader\<close>: the reader loop of
    \<^verbatim>\<open>core/vpn_windows.go\<close> with the goroutines that read for it, its buffers and its timeout.
    \<open>Loops\<close>: the five loops of \<^verbatim>\<open>core/vpn.go\<close> and \<^verbatim>\<open>core/vpn_windows.go\<close> between the steps of
    Start, Stop and Reconnect. \<open>Flusher\<close>: the XHTTP connection of \<^verbatim>\<open>core/transport.go\<close> with its background flusher. The
    schedules of \<open>Schedules\<close>, \<open>Shared\<close> and \<open>Flusher\<close> are instances of the locale
    \<open>interleaving\<close> (\<open>Interleave\<close>), which has the invariant rule and the bound on their length.
  \<^item> \<open>Onboarding\<close>: the panel's file of a user on its way into a client, through the import and the
    window (\<^verbatim>\<open>gui/app.go\<close>, \<^verbatim>\<open>applyCfg\<close> of \<^verbatim>\<open>gui/frontend/src/App.svelte\<close>) or \<^verbatim>\<open>core/gomobile.go\<close>.
  \<^item> \<open>System\<close>, \<open>Paths\<close> and this theory: client and server together.

  \<^bold>\<open>How state and effects appear.\<close> Structs are records with the prefix of their type; shared
  objects (the server's peers) live in a store addressed by numbers; package variables are
  fields of the state. An operation returns the new state, the list of its effects
  (\<open>effect\<close>, \<open>client_effect\<close>: packets to devices and sockets, commands, status reports) and how
  it ended, since a panic or a lock that is never released is part of what the code does.
  What the outside answers (clock, dialling, commands, device) is an argument. A goroutine is
  its step on one packet or tick; the server's run (\<open>server_run\<close>) and the client's
  (\<open>life_run\<close>) interleave whole steps. In \<open>Races\<close> a goroutine is a value of \<open>task\<close>, the
  point it has reached with its local variables, and a schedule (\<open>run_sched\<close>) picks who does
  the next critical section; any number of goroutines of each kind may be under way, which
  covers the one main loop and the one device reader of the program.

  \<^bold>\<open>What is shown.\<close> The frame format: round trip, authenticity, distinct nonces, bounds beyond
  which the code panics (\<open>Cipher\<close>). The server: consistent tables in every reachable state,
  delivery of genuine packets, rejection of replays along any run whichever way the packet came
  first, what a forged packet can still do (\<open>Server\<close>), the filter as a set (\<open>Bloom\<close>), which
  packets of a batch reach the handler and which are lost (\<open>Wire\<close>), the
  panel's contract (\<open>WebPanel\<close>). Its goroutines together: uninterrupted they are the handlers,
  a lock has one holder, every schedule ends, and a replay is stopped in every interleaving of
  the main path but not between two XHTTP requests (\<open>Schedules\<close>). The client: the ping ring as a queue (\<open>Echo\<close>), the order of
  routes (\<open>Tunnel\<close>), the guards of the life cycle (\<open>Lifecycle\<close>) and of the application that
  drives it, and the IPv6 route that only its first connection has (\<open>Gui\<close>); the stop channel
  is closed once in every interleaving, but readers outlive it, and a stopped client can
  come back (\<open>Loops\<close>);
  the command line client takes the same steps as the engine, but its reader never ends by
  itself (\<open>Cli\<close>), and its shared cipher context still keeps nonces apart (\<open>Shared\<close>); the
  Windows reader loses a packet after a timeout (\<open>Reader\<close>); the batching connection hands
  every packet to one POST in every interleaving, except one written while it closes
  (\<open>Flusher\<close>); imported profiles are found again, wherever their name puts them
  (\<open>Profiles\<close>). Between the two: which transport of which configuration reaches which server
  (\<open>Services\<close>), that the panel's file of a user makes a client that is paired with the server
  and dials UDP only (\<open>Onboarding\<close>), what a client can put on the wire and which transport never carries an
  answer (\<open>Paths\<close>). Here: a configured client and a started server agree on their keys,
  packets cross in both directions, pings are answered. The tools: the search stays within
  its ranges (\<open>Genome\<close>), the benchmark computes the payload rate of packets the server takes
  for replays (\<open>Bench\<close>).

  \<^bold>\<open>Bounds.\<close> Loops recurse on lists or on a counter the code bounds itself (three gateway
  attempts, one hundred echo slots, two thousand drained packets, five duplicates), so no fuel
  is needed. The one loop without a bound, the reader of the command line client, is a partial
  function, and when it returns is proved. Plaintexts of at most 65493 bytes always fit the frame with padding. A goroutine of the server
  takes at most nine steps (\<open>rank\<close>), so ten steps run any handler to its end (\<open>solo\<close>).

  \<^bold>\<open>Not modelled.\<close> Interleaving inside one operation of Android's loops, the panel and the
  other connections, two life-cycle calls that overlap, and of goroutines inside one critical section; sleeps; log output; the work of
  the libraries (TCP, TLS and WebSocket handshakes, HTTP parsing, JSON text, QR images),
  which are parameters; floating point (loss and speeds are fractions); the set-up of the
  desktop window (\<^verbatim>\<open>gui/main.go\<close>) and the Android application, which is Kotlin; the tools that
  only call and print (\<^verbatim>\<open>cmd/bench-xhttp\<close>, \<^verbatim>\<open>cmd/fasttest\<close>, \<^verbatim>\<open>cmd/adapter-cleanup\<close>);
  \<^verbatim>\<open>main.go\<close>, a copy of \<^verbatim>\<open>main_cli.go\<close> kept out of the build; Android's \<^verbatim>\<open>reconnectSocket\<close>,
  which nothing calls; and \<^verbatim>\<open>bench_dpi.go\<close>, kept out likewise, which sets a field that the
  cipher context does not have. In the no-encryption mode packets carry no routing header, so
  the statements about routing are about the encrypting modes.
\<close>

section \<open>Client and server\<close>

text \<open>
  C18: a server that starts from a configuration and a new client that is given the secret,
  the short id and the routing salt of one of its users are paired: the server files the
  user under that id with a cipher context over the same keys as the client's three
  contexts, its tables are consistent and its replay filter is empty.
\<close>

theorem started_server_matches_client:
  assumes "register_users go_crypto us (init_server cfg) = Ok s" and "\<not> cfg_NoEncrypt cfg" and "(u, seed) \<in> set us"
    and "cfg_SecretKey ccfg = u_SecretKey u" and "cfg_ShortID ccfg = u_ShortID u"
    and "cfg_RoutingSalt ccfg = cfg_RoutingSalt cfg" and "\<not> cfg_NoEncrypt ccfg"
  shows "\<exists>r. paired s (New go_crypto seeds ccfg l) r (DeriveKey go_crypto (u_SecretKey u)) (DeriveKey go_crypto (u_SecretKey u))
    \<and> s_bloom s = bloom_zero"
  using assms by (rule std.started_pair)

theorem started_server_matches_client_witness:
  "\<exists>s r. register_users go_crypto [(sample_user, 7)] (init_server zero_Config) = Ok s
    \<and> paired s (New go_crypto (1, 2, 3) sample_client_cfg True) r (DeriveKey go_crypto ''secret'') (DeriveKey go_crypto ''secret'')"
proof -
  obtain s where s: "register_users go_crypto [(sample_user, 7)] (init_server zero_Config) = Ok s"
    using sample_started by blast
  have "\<not> cfg_NoEncrypt zero_Config" by (simp add: zero_Config_def)
  with started_server_matches_client [OF s, of sample_user 7 sample_client_cfg] s show ?thesis
    by (auto simp: sample_user_def sample_client_cfg_def)
qed

text \<open>
  C2: from device to device. An IPv4 packet read by a paired client is encrypted once and
  written \<open>n\<close> times, the clamped duplication factor; all \<open>n\<close> copies come through the server's
  WebSocket reader, and the main loop writes exactly the packet to its device exactly once:
  the copies are replays. It is also counted once.
\<close>

theorem uplink_delivers_once:
  assumes "paired s v r key k" and "v_conn v = Some conn" and "20 \<le> length packet" and "length packet \<le> 65493"
    and "drop_bit 4 (packet ! 0) = 4" and "bloomCheck (s_bloom s) (next_key v (v_encCP v))" and "e_tunOK e packet"
  shows "\<exists>v' enc p s' eff n. n = clamp_fec (cfg_FEC (v_config v))
    \<and> win_writer_step go_crypto padBuf packet v = (v', replicate n (ConnWrite conn enc), Continue)
    \<and> snd (ws_reader_step (s_routingSalt s) enc w) = Some p
    \<and> main_loop_run go_crypto e (replicate n p) s = (s', eff, Returned) \<and> tun_writes eff = [packet]
    \<and> p_CumRx (s_store s' r) = p_CumRx (s_store s r) + of_nat (length packet)"
proof -
  let ?n = "clamp_fec (cfg_FEC (v_config v))"
  obtain enc c where E: "client_encrypt go_crypto padBuf v (v_encCP v) packet = (Ok enc, Some c, v_quic v)"
    and R: "snd (ws_reader_step (s_routingSalt s) enc w) = Some \<lparr>in_Data = enc, in_Writer = Some (WSSPeerConn (wr_conn w)),
      in_ShortID = cfg_ShortID (v_config v), in_IsQUIC = False\<rparr>"
    and G: "genuine go_crypto s \<lparr>in_Data = enc, in_Writer = Some (WSSPeerConn (wr_conn w)),
      in_ShortID = cfg_ShortID (v_config v), in_IsQUIC = False\<rparr> packet r key k"
    and K: "replay_key \<lparr>in_Data = enc, in_Writer = Some (WSSPeerConn (wr_conn w)),
      in_ShortID = cfg_ShortID (v_config v), in_IsQUIC = False\<rparr> = next_key v (v_encCP v)"
    using std.client_packet [OF assms(1) _ assms(4), of "v_encCP v" padBuf] by blast
  define p where "p = \<lparr>in_Data = enc, in_Writer = Some (WSSPeerConn (wr_conn w)),
      in_ShortID = cfg_ShortID (v_config v), in_IsQUIC = False\<rparr>"
  have v: "\<exists>v'. win_writer_step go_crypto padBuf packet v = (v', replicate ?n (ConnWrite conn enc), Continue)"
    using assms(2,3,5) E by (simp add: win_writer_step_def)
  obtain m where m: "?n = Suc m" using clamp_fec_Suc by blast
  have "packet \<noteq> []" using assms(3) by auto
  with deliver_copies [of s p packet r key k e m] G K assms(1,6,7)
  obtain s' eff where "main_loop_run go_crypto e (replicate ?n p) s = (s', eff, Returned)" "tun_writes eff = [packet]"
    "p_CumRx (s_store s' r) = p_CumRx (s_store s r) + of_nat (length packet)"
    unfolding m p_def by (auto simp: paired_def)
  with v R [folded p_def] show ?thesis by blast
qed

theorem uplink_delivers_once_witness:
  "\<exists>s v v' enc p s' eff. win_writer_step go_crypto (\<lambda>_. 0) sample_frame v = (v', [ConnWrite 4 enc], Continue)
    \<and> snd (ws_reader_step (s_routingSalt s) enc (ws_reader_start 9)) = Some p
    \<and> main_loop_run go_crypto sample_io [p] s = (s', eff, Returned) \<and> tun_writes eff = [sample_frame]"
proof -
  let ?v = "(New go_crypto (1, 2, 3) sample_client_cfg True)\<lparr>v_conn := Some 4\<rparr>"
  obtain s r where p: "paired s (New go_crypto (1, 2, 3) sample_client_cfg True) r (DeriveKey go_crypto ''secret'') (DeriveKey go_crypto ''secret'')"
    and b: "s_bloom s = bloom_zero" by (rule sample_pair)
  from p have p': "paired s ?v r (DeriveKey go_crypto ''secret'') (DeriveKey go_crypto ''secret'')"
    by (simp add: paired_cong [of ?v])
  have f: "length sample_frame = 20" "drop_bit 4 (sample_frame ! 0) = 4" by (simp_all add: sample_frame_def)
  have n: "clamp_fec (cfg_FEC (v_config ?v)) = 1"
    by (simp add: New_def Let_def sample_client_cfg_def zero_Config_def clamp_fec_def)
  have "e_tunOK sample_io sample_frame" by (simp add: sample_io_def)
  with uplink_delivers_once [OF p', of 4 sample_frame sample_io "\<lambda>_. 0" "ws_reader_start 9"] f n b
  obtain v' enc p s' eff where
    "win_writer_step go_crypto (\<lambda>_. 0) sample_frame ?v = (v', [ConnWrite 4 enc], Continue)"
    "snd (ws_reader_step (s_routingSalt s) enc (ws_reader_start 9)) = Some p"
    "main_loop_run go_crypto sample_io [p] s = (s', eff, Returned)" "tun_writes eff = [sample_frame]"
    by (auto simp: bloom.fresh_empty simp del: main_loop_run.simps)
  then show ?thesis by blast
qed

text \<open>
  C3: a stream. Whatever packets a paired client reads from its device, the server's main
  loop, fed by the WebSocket reader with everything the client wrote, panics on none of them
  and writes to its device a subsequence of the client's IPv4 packets: nothing is invented,
  changed, reordered or delivered twice, however often each was duplicated. Afterwards
  client and server are still paired. (A packet can be missing when the replay filter takes
  its nonce for a known one or the device refuses it.)
\<close>

theorem uplink_stream_in_order:
  assumes "paired s v r key k" and "v_conn v = Some conn" and "\<forall>packet \<in> set packets. length packet \<le> 65493"
  shows "\<exists>v' effs s' eff. win_writer_run go_crypto padBuf packets v = (v', effs, Continue)
    \<and> main_loop_run go_crypto e (snd (ws_reader_run (s_routingSalt s) (sent_bytes effs) w)) s = (s', eff, Returned)
    \<and> subseq (tun_writes eff) (filter is_ipv4 packets) \<and> paired s' v' r key k"
  using assms by (rule client_stream)

theorem uplink_stream_in_order_witness:
  "\<exists>s v v' effs s' eff. win_writer_run go_crypto (\<lambda>_. 0) [sample_frame, [0x60, 0], sample_frame] v = (v', effs, Continue)
    \<and> main_loop_run go_crypto sample_io (snd (ws_reader_run (s_routingSalt s) (sent_bytes effs) (ws_reader_start 9))) s
        = (s', eff, Returned) \<and> subseq (tun_writes eff) [sample_frame, sample_frame]"
proof -
  let ?v = "(New go_crypto (1, 2, 3) sample_client_cfg True)\<lparr>v_conn := Some 4\<rparr>"
  obtain s r where p: "paired s (New go_crypto (1, 2, 3) sample_client_cfg True) r (DeriveKey go_crypto ''secret'') (DeriveKey go_crypto ''secret'')"
    by (rule sample_pair)
  from p have p': "paired s ?v r (DeriveKey go_crypto ''secret'') (DeriveKey go_crypto ''secret'')"
    by (simp add: paired_cong [of ?v])
  have "\<forall>packet \<in> set [sample_frame, [0x60, 0], sample_frame]. length packet \<le> 65493" by (simp add: sample_frame_def)
  from uplink_stream_in_order [OF p' _ this, of 4 "\<lambda>_. 0" sample_io "ws_reader_start 9"]
  have "\<exists>v' effs s' eff. win_writer_run go_crypto (\<lambda>_. 0) [sample_frame, [0x60, 0], sample_frame] ?v = (v', effs, Continue)
    \<and> main_loop_run go_crypto sample_io (snd (ws_reader_run (s_routingSalt s) (sent_bytes effs) (ws_reader_start 9))) s
        = (s', eff, Returned) \<and> subseq (tun_writes eff) (filter is_ipv4 [sample_frame, [0x60, 0], sample_frame])"
    by auto
  moreover have "filter is_ipv4 [sample_frame, [0x60, 0], sample_frame] = [sample_frame, sample_frame]"
    by (simp add: is_ipv4_def sample_frame_def)
  ultimately show ?thesis by (simp only:) blast
qed

text \<open>
  C16: a packet from the server's device comes out at the client. It is encrypted once for the
  peer whose address it carries, and each copy the client reads hands exactly the packet to
  its device, on Windows and on Android: unlike the server, the client does not filter
  copies. The client's clock of the last received packet is set.
\<close>

theorem downlink_delivers_every_copy:
  assumes "paired s v r key k" and "20 \<le> length packet" and "length packet \<le> 65493" and "drop_bit 4 (packet ! 0) = 4"
    and "p_Internal (s_store s r) = ipv4_string (slice_of packet 16 20)" and "p_Internal (s_store s r) \<noteq> ''10.0.0.2''"
    and "map_of (s_ipToPeer s) (p_Internal (s_store s r)) = Some r" and "p_Writer (s_store s r) = Some wr"
  shows "\<exists>s' enc. tun_reader_step go_crypto e packet s = (s', [WritePacket wr enc (int (clamp_fec (cfg_FEC (s_cfg s))))], Returned)
    \<and> (\<forall>v' now. v_decCP v' = v_decCP v \<and> \<not> v_stopping v' \<longrightarrow>
         win_reader_step go_crypto now True True (Some enc) v'
           = (count_received (length packet) (v'\<lparr>v_lastPacketRx := now\<rparr>), [TunSend packet], Continue)
       \<and> android_reader_step go_crypto now True (Some enc) v'
           = (count_received (length packet) (v'\<lparr>v_lastPacketRx := now\<rparr>), [TunSend packet], Continue))"
proof -
  from assms(1) obtain cp rcv where cp: "p_CP (s_store s r) = Some cp" "std_ctx cp key k" "cp_PadMax cp \<le> 0"
    and rcv: "v_decCP v = Some rcv" "std_ctx rcv key k" and l: "\<not> p_cpLocked (s_store s r)"
    by (auto simp: paired_def client_ctx_def)
  obtain enc s' where "tun_reader_step go_crypto e packet s = (s', [WritePacket wr enc (int (clamp_fec (cfg_FEC (s_cfg s))))], Returned)"
    and D: "snd (Decrypt go_crypto rcv enc) = Ok packet"
    using std.tun_reader_encrypts [OF assms(2-4) _ _ assms(8) l cp(1,2) rcv(2) cp(3), of e] assms(5-7) by metis
  moreover have "2 \<le> length packet" using assms(2) by simp
  moreover from this have "win_reader_step go_crypto now True True (Some enc) v'
        = (count_received (length packet) (v'\<lparr>v_lastPacketRx := now\<rparr>), [TunSend packet], Continue)
      \<and> android_reader_step go_crypto now True (Some enc) v'
        = (count_received (length packet) (v'\<lparr>v_lastPacketRx := now\<rparr>), [TunSend packet], Continue)"
    if "v_decCP v' = v_decCP v \<and> \<not> v_stopping v'" for v' now
    using std.reader_steps(1,2) [OF _ rcv(2) D] rcv(1) that by simp
  ultimately show ?thesis by (intro exI conjI allI impI) auto
qed

text \<open>
  C17: a ping comes back. The keep-alive of a paired client is answered by the server over the
  same WebSocket connection, and the client, reading the answer less than ten seconds
  later, takes the elapsed time as the round-trip time and the connection for alive.
\<close>

theorem ping_measures_round_trip:
  assumes "paired s v r key k" and "v_conn v = Some conn" and "bloomCheck (s_bloom s) (next_key v (v_pingCP v))"
    and "0 < sent" and "sent < now" and "now < sent + 10000"
  shows "\<exists>v1 pkt p s' enc n v2. n = clamp_fec (cfg_FEC (v_config v))
    \<and> ping_send go_crypto padBuf sent nowNs v = (v1, replicate n (ConnWrite conn pkt), Continue)
    \<and> snd (ws_reader_step (s_routingSalt s) pkt w) = Some p
    \<and> processPacket go_crypto e p s = (s', [WritePacket (WSSPeerConn (wr_conn w)) enc (cfg_FEC (s_cfg s))], Returned)
    \<and> win_reader_step go_crypto now True True (Some enc) v1 = (v2, [], Continue)
    \<and> v_echoRtt v2 = now - sent \<and> v_lastPacketRx v2 = now"
proof -
  let ?p = "\<lambda>pkt. \<lparr>in_Data = pkt, in_Writer = Some (WSSPeerConn (wr_conn w)), in_ShortID = cfg_ShortID (v_config v), in_IsQUIC = False\<rparr>"
  obtain pkt c where E: "client_encrypt go_crypto padBuf v (v_pingCP v) [] = (Ok pkt, Some c, v_quic v)"
    and R: "snd (ws_reader_step (s_routingSalt s) pkt w) = Some (?p pkt)"
    and G: "genuine go_crypto s (?p pkt) [] r key k" and K: "replay_key (?p pkt) = next_key v (v_pingCP v)"
    using std.client_packet [OF assms(1), of "v_pingCP v" "[]" padBuf] by auto
  from assms(1) obtain cp rcv where cp: "p_CP (s_store s r) = Some cp" "cp_PadMax cp \<le> 0"
    and rcv: "v_decCP v = Some rcv" "std_ctx rcv key k" and s: "\<not> p_cpLocked (s_store s r)" "server_inv s"
    by (auto simp: paired_def client_ctx_def)
  obtain s' enc where P: "processPacket go_crypto e (?p pkt) s = (s', [WritePacket (WSSPeerConn (wr_conn w)) enc (cfg_FEC (s_cfg s))], Returned)"
    and D: "snd (Decrypt go_crypto rcv enc) = Ok [1]"
    using std.keep_alive_echoed [OF G s(1) _ _ cp rcv(2) s(2), of "WSSPeerConn (wr_conn w)" e] K assms(3) by auto
  define v1 where "v1 = v\<lparr>v_pingCP := Some c, v_quic := v_quic v, v_lastAliveMs := sent, v_echo := echoPush nowNs (v_echo v)\<rparr>"
  have S: "ping_send go_crypto padBuf sent nowNs v
      = (v1, replicate (clamp_fec (cfg_FEC (v_config v))) (ConnWrite conn pkt), Continue)"
    using assms(2) E by (simp add: ping_send_def v1_def)
  have "v_decCP v1 = Some rcv" using rcv(1) by (simp add: v1_def)
  from std.reader_steps(3) [OF this rcv(2) D refl, of now]
  have W: "win_reader_step go_crypto now True True (Some enc) v1 = (receive_echo now (v1\<lparr>v_lastPacketRx := now\<rparr>), [], Continue)" .
  have "v_echoRtt (receive_echo now (v1\<lparr>v_lastPacketRx := now\<rparr>)) = now - sent"
    "v_lastPacketRx (receive_echo now (v1\<lparr>v_lastPacketRx := now\<rparr>)) = now"
    using assms(4-6) by (simp_all add: receive_echo_def v1_def Let_def)
  with S R P W show ?thesis by blast
qed

theorem ping_measures_round_trip_witness:
  "\<exists>s v v1 pkt p s' enc v2. ping_send go_crypto (\<lambda>_. 0) 1000 5 v = (v1, [ConnWrite 4 pkt], Continue)
    \<and> snd (ws_reader_step (s_routingSalt s) pkt (ws_reader_start 9)) = Some p
    \<and> processPacket go_crypto sample_io p s = (s', [WritePacket (WSSPeerConn 9) enc (cfg_FEC (s_cfg s))], Returned)
    \<and> win_reader_step go_crypto 1040 True True (Some enc) v1 = (v2, [], Continue) \<and> v_echoRtt v2 = 40"
proof -
  let ?v = "(New go_crypto (1, 2, 3) sample_client_cfg True)\<lparr>v_conn := Some 4\<rparr>"
  obtain s r where p: "paired s (New go_crypto (1, 2, 3) sample_client_cfg True) r (DeriveKey go_crypto ''secret'') (DeriveKey go_crypto ''secret'')"
    and b: "s_bloom s = bloom_zero" by (rule sample_pair)
  from p have p': "paired s ?v r (DeriveKey go_crypto ''secret'') (DeriveKey go_crypto ''secret'')"
    by (simp add: paired_cong [of ?v])
  have n: "clamp_fec (cfg_FEC (v_config ?v)) = 1"
    by (simp add: New_def Let_def sample_client_cfg_def zero_Config_def clamp_fec_def)
  have w: "wr_conn (ws_reader_start 9) = 9" by (simp add: ws_reader_start_def)
  from ping_measures_round_trip [OF p', of 4 1000 1040 "\<lambda>_. 0" 5 "ws_reader_start 9" sample_io] n b w
  obtain v1 pkt p s' enc v2 where
    "ping_send go_crypto (\<lambda>_. 0) 1000 5 ?v = (v1, [ConnWrite 4 pkt], Continue)"
    "snd (ws_reader_step (s_routingSalt s) pkt (ws_reader_start 9)) = Some p"
    "processPacket go_crypto sample_io p s = (s', [WritePacket (WSSPeerConn 9) enc (cfg_FEC (s_cfg s))], Returned)"
    "win_reader_step go_crypto 1040 True True (Some enc) v1 = (v2, [], Continue)" "v_echoRtt v2 = 40"
    by (auto simp: bloom.fresh_empty)
  then show ?thesis by blast
qed

text \<open>A client that shares the keys of \<open>sample_server\<close>'s peer.\<close>

definition sample_mate :: VPN where
  "sample_mate = (New go_crypto (1, 2, 3) sample_client_cfg True)
     \<lparr>v_encCP := Some sample_cp, v_decCP := Some sample_cp, v_pingCP := Some sample_cp\<rparr>"

theorem downlink_delivers_every_copy_witness:
  "\<exists>s' enc. tun_reader_step go_crypto sample_io sample_frame sample_server = (s', [WritePacket (UDPWriter ''c:1'') enc 1], Returned)
    \<and> win_reader_step go_crypto 77 True True (Some enc) sample_mate
        = (count_received 20 (sample_mate\<lparr>v_lastPacketRx := 77\<rparr>), [TunSend sample_frame], Continue)"
proof -
  have cfg: "v_config sample_mate = sample_client_cfg" "v_decCP sample_mate = Some sample_cp" "\<not> v_stopping sample_mate"
    by (simp_all add: sample_mate_def New_def Let_def)
  have ctx: "client_ctx sample_mate (replicate 32 9) (replicate 32 9)"
    using sample_ctx by (auto simp: client_ctx_def sample_mate_def sample_cp_def)
  have salt: "s_routingSalt sample_server = []"
    by (simp add: sample_server_def add_peer_def init_server_def Let_def zero_Config_def)
  have "paired sample_server sample_mate 0 (replicate 32 9) (replicate 32 9)"
    using ctx sample_server_inv sample_ctx salt
    by (auto simp: paired_def cfg sample_client_cfg_def sample_cp_def zero_Config_def)
  moreover have "length sample_frame = 20" "drop_bit 4 (sample_frame ! 0) = 4" by (simp_all add: sample_frame_def)
  ultimately obtain s' enc where
    "tun_reader_step go_crypto sample_io sample_frame sample_server = (s', [WritePacket (UDPWriter ''c:1'') enc 1], Returned)"
    "win_reader_step go_crypto 77 True True (Some enc) sample_mate
        = (count_received 20 (sample_mate\<lparr>v_lastPacketRx := 77\<rparr>), [TunSend sample_frame], Continue)"
    using downlink_delivers_every_copy [of sample_server sample_mate 0 "replicate 32 9" "replicate 32 9" sample_frame
        "UDPWriter ''c:1''" sample_io] cfg(2,3)
    by (auto simp: sample_frame_dst clamp_fec_def zero_Config_def)
  then show ?thesis by blast
qed

end
